(* ===== verification/Umc_Prelude.thy ===== *)
theory Umc_Prelude
  imports Main "HOL-Library.Word"
begin

text \<open>
  Shared vocabulary of the development: the machine integer types of the Rust sources, the
  \<open>Result\<close> type as a sum (\<open>Inl\<close> is \<open>Err\<close>, \<open>Inr\<close> is \<open>Ok\<close>) with the
  \<open>?\<close> operator as \<open>bindR\<close>, slice access, checked and saturating arithmetic, flag bytes and
  big-endian byte strings. \<open>usize\<close> values (lengths, positions) are natural numbers; where the
  sources check an addition on \<open>usize\<close> the bound \<open>2 ^ 64\<close> is written out.
\<close>

unbundle bit_operations_syntax

named_theorems codec_enc \<open>when an encoder succeeds, and with which bytes\<close>
named_theorems codec_dec \<open>what a successful read says of the buffer\<close>
named_theorems codec_run \<open>running a decoder on a buffer whose content is known\<close>

section \<open>Types\<close>

type_synonym u8 = "8 word"
type_synonym u16 = "16 word"
type_synonym u32 = "32 word"
type_synonym u64 = "64 word"
type_synonym bytes = "u8 list"

section \<open>Results\<close>

fun bindR :: "'e + 'a \<Rightarrow> ('a \<Rightarrow> 'e + 'b) \<Rightarrow> 'e + 'b" where
  "bindR (Inl e) f = Inl e"
| "bindR (Inr x) f = f x"

fun map_err :: "('e \<Rightarrow> 'f) \<Rightarrow> 'e + 'a \<Rightarrow> 'f + 'a" where
  "map_err f (Inl e) = Inl (f e)"
| "map_err f (Inr x) = Inr x"

definition ok_or :: "'a option \<Rightarrow> 'e \<Rightarrow> 'e + 'a" where
  "ok_or x e = (case x of None \<Rightarrow> Inl e | Some y \<Rightarrow> Inr y)"

lemma bindR_Inr_iff [codec_enc, codec_dec]: "bindR x f = Inr y \<longleftrightarrow> (\<exists>z. x = Inr z \<and> f z = Inr y)"
  by (cases x) auto

lemma bindR_Inl_iff: "bindR x f = Inl e \<longleftrightarrow> x = Inl e \<or> (\<exists>z. x = Inr z \<and> f z = Inl e)"
  by (cases x) auto

lemma bindR_cong [fundef_cong]:
  "x = x' \<Longrightarrow> (\<And>z. x' = Inr z \<Longrightarrow> f z = f' z) \<Longrightarrow> bindR x f = bindR x' f'"
  by (cases x') auto

lemma map_err_Inr_iff [simp]: "map_err f x = Inr y \<longleftrightarrow> x = Inr y"
  by (cases x) auto

lemma map_err_Inl_iff: "map_err f x = Inl e \<longleftrightarrow> (\<exists>e'. x = Inl e' \<and> e = f e')"
  by (cases x) auto

lemma if_Inl_Inr_iff [codec_enc, codec_dec]:
  "(if c then Inl e else x) = Inr y \<longleftrightarrow> \<not> c \<and> x = Inr y"
  by simp

lemma ok_or_Inr_iff [simp]: "ok_or x e = Inr y \<longleftrightarrow> x = Some y"
  by (cases x) (auto simp: ok_or_def)

lemma ok_or_Some [simp]: "ok_or (Some y) e = Inr y"
  by (simp add: ok_or_def)

lemma ok_or_None [simp]: "ok_or None e = Inl e"
  by (simp add: ok_or_def)

lemma sum_cases_cong_Inr: "(case x of Inl e \<Rightarrow> Inl e | Inr y \<Rightarrow> f y) = bindR x f"
  by (cases x) auto

section \<open>Slices and \<open>usize\<close> arithmetic\<close>

definition get_at :: "'a list \<Rightarrow> nat \<Rightarrow> 'a option" where
  "get_at xs i = (if i < length xs then Some (xs ! i) else None)"

definition get_range :: "'a list \<Rightarrow> nat \<Rightarrow> nat \<Rightarrow> 'a list option" where
  "get_range xs a b = (if a \<le> b \<and> b \<le> length xs then Some (take (b - a) (drop a xs)) else None)"

definition usize_checked_add :: "nat \<Rightarrow> nat \<Rightarrow> nat option" where
  "usize_checked_add a b = (if a + b < 2 ^ 64 then Some (a + b) else None)"

lemma get_at_append [simp]: "get_at (xs @ y # ys) (length xs) = Some y"
  by (simp add: get_at_def)

lemma get_at_Suc_le [intro]: "get_at xs i = Some y \<Longrightarrow> Suc i \<le> length xs"
  by (simp add: get_at_def split: if_splits)

lemma get_at_Some_drop: "get_at xs i = Some y \<Longrightarrow> drop i xs = y # drop (Suc i) xs"
  by (auto simp: get_at_def Cons_nth_drop_Suc split: if_splits)

lemma get_at_via_drop: "get_at xs i = (case drop i xs of [] \<Rightarrow> None | y # _ \<Rightarrow> Some y)"
proof (cases "i < length xs")
  case True
  then show ?thesis by (simp add: get_at_def flip: Cons_nth_drop_Suc)
qed (simp add: get_at_def)

lemma get_range_via_drop:
  "get_range xs a (a + n) = (if a + n \<le> length xs then Some (take n (drop a xs)) else None)"
  by (simp add: get_range_def)

lemma get_range_Some_drop:
  assumes "get_range xs a b = Some ys"
  shows "drop a xs = ys @ drop b xs" and "length ys = b - a" and "a \<le> b" and "b \<le> length xs"
  using assms append_take_drop_id [of "b - a" "drop a xs"]
  by (auto simp: get_range_def split: if_splits)

text \<open>\<open>at_pos body p xs\<close>: the buffer holds \<open>xs\<close> at position \<open>p\<close>.\<close>

definition at_pos :: "'a list \<Rightarrow> nat \<Rightarrow> 'a list \<Rightarrow> bool" where
  "at_pos body p xs \<longleftrightarrow> p \<le> length body \<and> (\<exists>rest. drop p body = xs @ rest)"

lemma at_pos_Nil [simp]: "at_pos body p [] \<longleftrightarrow> p \<le> length body"
  by (simp add: at_pos_def)

lemma at_pos_length: "at_pos body p xs \<Longrightarrow> p + length xs \<le> length body"
  unfolding at_pos_def by (metis le_add1 le_diff_conv2 length_append length_drop add.commute)

lemma at_pos_length_Suc: "at_pos body (Suc p) xs \<Longrightarrow> Suc (p + length xs) \<le> length body"
  using at_pos_length[of body "Suc p" xs] by simp

lemma at_pos_append [simp]:
  "at_pos body p (xs @ ys) \<longleftrightarrow> at_pos body p xs \<and> at_pos body (p + length xs) ys"
proof -
  have e: "drop (p + length xs) body = drop (length xs) (drop p body)"
    by (simp add: add.commute)
  show ?thesis
    using at_pos_length[of body p xs] unfolding at_pos_def e by (auto simp del: drop_drop)
qed

lemma at_pos_Cons [simp]:
  "at_pos body p (x # xs) \<longleftrightarrow> get_at body p = Some x \<and> at_pos body (Suc p) xs"
proof (cases "drop p body")
  case Nil
  then show ?thesis by (simp add: at_pos_def get_at_via_drop)
next
  case (Cons y ys)
  then have "drop (Suc p) body = ys" and "p < length body"
    by (simp add: drop_Suc flip: tl_drop) (metis Cons drop_all list.distinct(1) not_le)
  with Cons show ?thesis by (auto simp: at_pos_def get_at_via_drop)
qed

lemma at_pos_self [simp]: "at_pos (xs @ rest) 0 xs"
  by (simp add: at_pos_def)

lemma at_pos_whole [simp]: "at_pos xs 0 xs"
  by (simp add: at_pos_def)

lemma at_pos_after [simp]: "at_pos (ys @ xs @ rest) (length ys) xs" "at_pos (ys @ xs) (length ys) xs"
  by (simp_all add: at_pos_def)

lemma at_pos_0_iff: "at_pos body 0 xs \<longleftrightarrow> length xs \<le> length body \<and> take (length xs) body = xs"
proof
  assume "length xs \<le> length body \<and> take (length xs) body = xs"
  then have "body = xs @ drop (length xs) body" by (metis append_take_drop_id)
  then show "at_pos body 0 xs" unfolding at_pos_def by auto
qed (auto simp: at_pos_def)

lemma at_pos_nonempty: "xs \<noteq> [] \<Longrightarrow> at_pos body p xs \<longleftrightarrow> (\<exists>rest. drop p body = xs @ rest)"
  unfolding at_pos_def by (metis append_is_Nil_conv drop_all nat_le_linear)

lemma at_pos_get_range: "at_pos body p xs \<Longrightarrow> get_range body p (p + length xs) = Some xs"
  using at_pos_length[of body p xs] by (auto simp: at_pos_def get_range_def)

lemma get_range_at_pos:
  "get_range body p q = Some xs \<Longrightarrow> at_pos body p xs \<and> q = p + length xs"
  by (auto simp: get_range_def at_pos_def intro: append_take_drop_id [symmetric] split: if_splits)

lemma length_concat_map_le:
  "(\<And>x. x \<in> set xs \<Longrightarrow> length (g x) \<le> k) \<Longrightarrow> length (concat (map g xs)) \<le> k * length xs"
  by (induction xs) (auto simp: add_mono)

section \<open>Word arithmetic with an explicit overflow rule\<close>

definition u64_checked_add :: "u64 \<Rightarrow> u64 \<Rightarrow> u64 option" where
  "u64_checked_add a b = (if unat a + unat b < 2 ^ 64 then Some (a + b) else None)"

definition u64_saturating_add :: "u64 \<Rightarrow> u64 \<Rightarrow> u64" where
  "u64_saturating_add a b = (if unat a + unat b < 2 ^ 64 then a + b else - 1)"

definition u64_saturating_sub :: "u64 \<Rightarrow> u64 \<Rightarrow> u64" where
  "u64_saturating_sub a b = (if b \<le> a then a - b else 0)"

definition u64_saturating_mul :: "u64 \<Rightarrow> u64 \<Rightarrow> u64" where
  "u64_saturating_mul a b = (if unat a * unat b < 2 ^ 64 then a * b else - 1)"

lemma unat_u8_less: "unat (b :: u8) < 256"
proof -
  have "unat b < 2 ^ LENGTH(8)" by (rule unsigned_less)
  then show ?thesis by simp
qed

lemma unat_u64_less: "unat (b :: u64) < 2 ^ 64"
proof -
  have "unat b < 2 ^ LENGTH(64)" by (rule unsigned_less)
  then show ?thesis by simp
qed

lemma unat_u64_saturating_add:
  "unat (u64_saturating_add a b) = min (unat a + unat b) (2 ^ 64 - 1)"
  by (auto simp: u64_saturating_add_def unat_word_ariths unsigned_minus_1_eq_mask mask_eq_exp_minus_1)

lemma unat_u64_saturating_sub: "unat (u64_saturating_sub a b) = unat a - unat b"
  by (auto simp: u64_saturating_sub_def word_le_nat_alt unat_sub)

lemma unat_u64_checked_add:
  "u64_checked_add a b = Some c \<longleftrightarrow> unat a + unat b < 2 ^ 64 \<and> c = a + b"
  by (auto simp: u64_checked_add_def)

lemma unat_u64_add: "unat a + unat b < 2 ^ 64 \<Longrightarrow> unat (a + b :: u64) = unat a + unat b"
  by (simp add: unat_word_ariths)

lemma unat_u64_mult: "unat a * unat b < 2 ^ 64 \<Longrightarrow> unat (a * b :: u64) = unat a * unat b"
  by (simp add: unat_word_ariths)

lemma unat_u64_saturating_mul:
  "unat (u64_saturating_mul a b) = min (unat a * unat b) (2 ^ 64 - 1)"
  by (auto simp: u64_saturating_mul_def unat_word_ariths unsigned_minus_1_eq_mask mask_eq_exp_minus_1)

lemma unat_ucast_32_64: "unat (ucast (w :: u32) :: u64) = unat w"
proof -
  have "unat w < 2 ^ LENGTH(32)" by (rule unsigned_less)
  then show ?thesis by (simp add: unsigned_ucast_eq take_bit_nat_eq_self)
qed

lemma unat_drop_bit: "unat (drop_bit k w) = unat w div 2 ^ k"
  by (simp only: unat_drop_bit_eq drop_bit_nat_def)

lemma unat_ucast_u8: "unat (ucast w :: u8) = unat w mod 256"
  by (simp add: unsigned_ucast_eq take_bit_eq_mod)

lemma unat_ucast_u32: "unat (ucast w :: u32) = unat w mod 2 ^ 32"
  by (simp add: unsigned_ucast_eq take_bit_eq_mod)

lemma unat_ucast_8_64: "unat (ucast (b :: u8) :: u64) = unat b"
  using unat_u8_less[of b] by (simp add: unsigned_ucast_eq take_bit_nat_eq_self)

lemma unat_and_mask: "unat (w AND mask n) = unat w mod 2 ^ n"
  by (simp only: take_bit_eq_mod [symmetric] unsigned_take_bit_eq take_bit_eq_mask [symmetric])

lemma unat_and_63: "unat (w AND 63) = unat w mod 64"
  using unat_and_mask[of w 6] by (simp add: mask_eq_exp_minus_1)

lemma unat_and_255: "unat (w AND 255) = unat w mod 256"
  using unat_and_mask[of w 8] by (simp add: mask_eq_exp_minus_1)

lemma unat_and_24: "unat (w AND 0xFFFFFF) = unat w mod 2 ^ 24"
  using unat_and_mask[of w 24] by (simp add: mask_eq_exp_minus_1)

section \<open>Flag bytes\<close>

text \<open>\<open>if b { flags |= m }\<close> and \<open>flags & m != 0\<close>.\<close>

definition set_flag :: "bool \<Rightarrow> u8 \<Rightarrow> u8 \<Rightarrow> u8" where
  "set_flag b m flags = (if b then flags OR m else flags)"

definition flag_set :: "u8 \<Rightarrow> u8 \<Rightarrow> bool" where
  "flag_set flags m \<longleftrightarrow> flags AND m \<noteq> 0"

lemma or_and_ne_0: "(x OR m) AND m' \<noteq> 0 \<longleftrightarrow> x AND m' \<noteq> 0 \<or> m AND m' \<noteq> (0::u8)"
  by (simp add: bit.conj_disj_distrib2 or_eq_0_iff)

lemma flag_set_set_flag [simp]:
  "flag_set (set_flag b m f) m' \<longleftrightarrow> b \<and> m AND m' \<noteq> 0 \<or> flag_set f m'"
  unfolding flag_set_def set_flag_def using or_and_ne_0[of f m m'] by auto

lemma flag_set_0 [simp]: "\<not> flag_set 0 m"
  by (simp add: flag_set_def)

lemma set_flag_flag_set:
  "set_flag (flag_set b (2 ^ i)) (2 ^ i) x = x OR (b AND 2 ^ i)"
proof -
  have "b AND 2 ^ i = (if bit b i then 2 ^ i else 0)"
    by (rule bit_word_eqI) (auto simp: bit_simps)
  moreover have "bit b i \<Longrightarrow> (2 ^ i :: u8) \<noteq> 0"
    using impossible_bit[of i b] by (auto simp: linorder_not_le [symmetric])
  ultimately show ?thesis by (simp add: set_flag_def flag_set_def)
qed

lemma flags_of_bits:
  "set_flag (flag_set b 128) 128 (set_flag (flag_set b 64) 64 (set_flag (flag_set b 32) 32
    (set_flag (flag_set b 16) 16 (set_flag (flag_set b 8) 8 (set_flag (flag_set b 4) 4
    (set_flag (flag_set b 2) 2 (set_flag (flag_set b 1) 1 0))))))) = b"
proof -
  have "b AND 255 = b" using unat_and_255[of b] unat_u8_less[of b] by (simp add: word_unat_eq_iff)
  moreover have "(255 :: u8) = 1 OR 2 OR 4 OR 8 OR 16 OR 32 OR 64 OR 128" by simp
  ultimately have "b = (b AND 1) OR (b AND 2) OR (b AND 4) OR (b AND 8) OR (b AND 16)
      OR (b AND 32) OR (b AND 64) OR (b AND 128)"
    by (metis bit.conj_disj_distrib)
  then show ?thesis
    using set_flag_flag_set[of b 0] set_flag_flag_set[of b 1] set_flag_flag_set[of b 2]
      set_flag_flag_set[of b 3] set_flag_flag_set[of b 4] set_flag_flag_set[of b 5]
      set_flag_flag_set[of b 6] set_flag_flag_set[of b 7]
    by (simp add: ac_simps)
qed

lemma flag_set_or: "flag_set b (m OR n) \<longleftrightarrow> flag_set b m \<or> flag_set b n"
  by (simp add: flag_set_def bit.conj_disj_distrib or_eq_0_iff)

lemma flag_set_masks:
  "flag_set b 0xFE \<longleftrightarrow> flag_set b 2 \<or> flag_set b 0xFC"
  "flag_set b 0xFC \<longleftrightarrow> flag_set b 4 \<or> flag_set b 0xF8"
  "flag_set b 0xF8 \<longleftrightarrow> flag_set b 8 \<or> flag_set b 0xF0"
  "flag_set b 0xF0 \<longleftrightarrow> flag_set b 16 \<or> flag_set b 0xE0"
  "flag_set b 0xE0 \<longleftrightarrow> flag_set b 32 \<or> flag_set b 0xC0"
  "flag_set b 0xC0 \<longleftrightarrow> flag_set b 64 \<or> flag_set b 0x80"
  using flag_set_or[of b 2 "0xFC"] flag_set_or[of b 4 "0xF8"] flag_set_or[of b 8 "0xF0"]
    flag_set_or[of b 16 "0xE0"] flag_set_or[of b 32 "0xC0"] flag_set_or[of b 64 "0x80"]
  by simp_all

lemma set_flag_False: "set_flag False m x = x"
  by (simp add: set_flag_def)

text \<open>A flag byte with clear reserved bits is rebuilt from the flags read off it.\<close>

lemma flags_rebuild1:
  "get_at body p = Some b \<Longrightarrow> \<not> flag_set b 0xFE \<Longrightarrow> b0 = flag_set b 1 \<Longrightarrow>
   get_at body p = Some (set_flag b0 1 0)"
  using flags_of_bits[of b] by (simp add: flag_set_masks set_flag_False)

lemma flags_rebuild3:
  "get_at body p = Some b \<Longrightarrow> \<not> flag_set b 0xF8 \<Longrightarrow>
   b0 = flag_set b 1 \<Longrightarrow> b1 = flag_set b 2 \<Longrightarrow> b2 = flag_set b 4 \<Longrightarrow>
   get_at body p = Some (set_flag b2 4 (set_flag b1 2 (set_flag b0 1 0)))"
  using flags_of_bits[of b] by (simp add: flag_set_masks set_flag_False)

lemma flags_rebuild4:
  "get_at body p = Some b \<Longrightarrow> \<not> flag_set b 0xF0 \<Longrightarrow>
   b0 = flag_set b 1 \<Longrightarrow> b1 = flag_set b 2 \<Longrightarrow> b2 = flag_set b 4 \<Longrightarrow> b3 = flag_set b 8 \<Longrightarrow>
   get_at body p = Some (set_flag b3 8 (set_flag b2 4 (set_flag b1 2 (set_flag b0 1 0))))"
  using flags_of_bits[of b] by (simp add: flag_set_masks set_flag_False)

lemma flags_rebuild5:
  "get_at body p = Some b \<Longrightarrow> \<not> flag_set b 0xE0 \<Longrightarrow>
   b0 = flag_set b 1 \<Longrightarrow> b1 = flag_set b 2 \<Longrightarrow> b2 = flag_set b 4 \<Longrightarrow> b3 = flag_set b 8 \<Longrightarrow>
   b4 = flag_set b 16 \<Longrightarrow>
   get_at body p = Some (set_flag b4 16 (set_flag b3 8 (set_flag b2 4 (set_flag b1 2 (set_flag b0 1 0)))))"
  using flags_of_bits[of b] by (simp add: flag_set_masks set_flag_False)

lemma flags_rebuild6:
  "get_at body p = Some b \<Longrightarrow> \<not> flag_set b 0xC0 \<Longrightarrow>
   b0 = flag_set b 1 \<Longrightarrow> b1 = flag_set b 2 \<Longrightarrow> b2 = flag_set b 4 \<Longrightarrow> b3 = flag_set b 8 \<Longrightarrow>
   b4 = flag_set b 16 \<Longrightarrow> b5 = flag_set b 32 \<Longrightarrow>
   get_at body p = Some (set_flag b5 32 (set_flag b4 16 (set_flag b3 8 (set_flag b2 4
     (set_flag b1 2 (set_flag b0 1 0))))))"
  using flags_of_bits[of b] by (simp add: flag_set_masks set_flag_False)

lemma flags_rebuild7:
  "get_at body p = Some b \<Longrightarrow> \<not> flag_set b 0x80 \<Longrightarrow>
   b0 = flag_set b 1 \<Longrightarrow> b1 = flag_set b 2 \<Longrightarrow> b2 = flag_set b 4 \<Longrightarrow> b3 = flag_set b 8 \<Longrightarrow>
   b4 = flag_set b 16 \<Longrightarrow> b5 = flag_set b 32 \<Longrightarrow> b6 = flag_set b 64 \<Longrightarrow>
   get_at body p = Some (set_flag b6 64 (set_flag b5 32 (set_flag b4 16 (set_flag b3 8 (set_flag b2 4
     (set_flag b1 2 (set_flag b0 1 0)))))))"
  using flags_of_bits[of b] by (simp add: flag_set_masks set_flag_False)

lemmas flags_rebuild = flags_rebuild1 flags_rebuild3 flags_rebuild4 flags_rebuild5 flags_rebuild6 flags_rebuild7

lemma unat_of_nat_u8: "n < 256 \<Longrightarrow> unat (of_nat n :: u8) = n"
  by (simp add: unat_of_nat)

lemma u8_from_bool: "(of_bool b :: u8) = set_flag b 1 0"
  by (simp add: set_flag_def)

section \<open>Big-endian byte strings\<close>

definition be_bytes :: "nat \<Rightarrow> 'a::len word \<Rightarrow> bytes" where
  "be_bytes k v = map (\<lambda>i. ucast (drop_bit (8 * i) v)) (rev [0..<k])"

definition to_be_bytes64 :: "u64 \<Rightarrow> bytes" where
  "to_be_bytes64 v = be_bytes 8 v"

definition to_be_bytes32 :: "u32 \<Rightarrow> bytes" where
  "to_be_bytes32 v = be_bytes 4 v"

definition from_be_bytes64 :: "bytes \<Rightarrow> u64" where
  "from_be_bytes64 bs = foldl (\<lambda>a b. a * 256 + ucast b) 0 bs"

text \<open>The number a big-endian byte string denotes; the proofs go through it.\<close>

definition be_nat :: "bytes \<Rightarrow> nat" where
  "be_nat bs = foldl (\<lambda>a b. a * 256 + unat b) 0 bs"

lemma foldl_be_nat: "foldl (\<lambda>a b. a * 256 + unat b) n bs = n * 256 ^ length bs + be_nat bs"
proof (induction bs arbitrary: n)
  case (Cons b bs)
  show ?case
    using Cons[of "n * 256 + unat b"] Cons[of "unat b"]
    by (simp add: be_nat_def algebra_simps)
qed (simp add: be_nat_def)

lemma be_nat_Nil [simp]: "be_nat [] = 0"
  by (simp add: be_nat_def)

lemma be_nat_Cons: "be_nat (b # bs) = unat b * 256 ^ length bs + be_nat bs"
  using foldl_be_nat[of "unat b" bs] by (simp add: be_nat_def)

lemma be_nat_append: "be_nat (xs @ ys) = be_nat xs * 256 ^ length ys + be_nat ys"
  by (induction xs) (auto simp: be_nat_Cons power_add algebra_simps)

lemma be_nat_replicate_0 [simp]: "be_nat (replicate k 0) = 0"
  by (induction k) (auto simp: be_nat_Cons)

lemma be_nat_less: "be_nat bs < 256 ^ length bs"
proof (induction bs)
  case (Cons b bs)
  have "unat b \<le> 255" using unat_u8_less[of b] by simp
  then have "unat b * 256 ^ length bs \<le> 255 * 256 ^ length bs" by (rule mult_le_mono1)
  with Cons have "unat b * 256 ^ length bs + be_nat bs < 256 * 256 ^ length bs" by linarith
  then show ?case by (simp add: be_nat_Cons)
qed simp

lemma be_nat_inj: "length xs = length ys \<Longrightarrow> be_nat xs = be_nat ys \<Longrightarrow> xs = ys"
proof (induction xs ys rule: list_induct2)
  case (Cons x xs y ys)
  have digits: "be_nat (b # bs) div 256 ^ length bs = unat b"
    "be_nat (b # bs) mod 256 ^ length bs = be_nat bs" for b bs
    using be_nat_less[of bs] by (simp_all add: be_nat_Cons)
  have "unat x = unat y" "be_nat xs = be_nat ys"
    using digits[of x xs] digits[of y ys] Cons by simp_all
  with Cons.IH show ?case by (simp add: word_unat_eq_iff)
qed simp

lemma unat_from_be_bytes64: "length bs \<le> 8 \<Longrightarrow> unat (from_be_bytes64 bs) = be_nat bs"
proof (induction bs rule: rev_induct)
  case (snoc b bs)
  then have IH: "unat (from_be_bytes64 bs) = be_nat bs" by simp
  have "be_nat (bs @ [b]) < 256 ^ 8"
    using be_nat_less[of "bs @ [b]"] snoc.prems
      power_increasing[of "length (bs @ [b])" 8 "256 :: nat"] by linarith
  then have "be_nat bs * 256 + unat b < 2 ^ 64"
    by (simp add: be_nat_append be_nat_Cons)
  then show ?case
    using IH by (simp add: from_be_bytes64_def be_nat_append be_nat_Cons unat_word_ariths
        unat_ucast_8_64)
qed (simp add: from_be_bytes64_def)

lemma length_be_bytes [simp]: "length (be_bytes k v) = k"
  by (simp add: be_bytes_def)

lemma be_bytes_Suc: "be_bytes (Suc k) v = ucast (drop_bit (8 * k) v) # be_bytes k v"
  by (simp add: be_bytes_def)

lemma drop_be_bytes: "drop j (be_bytes k v) = be_bytes (k - j) v"
proof (induction k arbitrary: j)
  case (Suc k)
  then show ?case by (cases j) (auto simp: be_bytes_Suc)
qed (simp add: be_bytes_def)

lemma be_nat_be_bytes: "be_nat (be_bytes k v) = unat v mod 256 ^ k"
proof (induction k)
  case (Suc k)
  have "unat v mod 256 ^ Suc k = 256 ^ k * (unat v div 256 ^ k mod 256) + unat v mod 256 ^ k"
    unfolding power_Suc2 by (rule mod_mult2_eq)
  moreover have "(256 :: nat) ^ k = 2 ^ (8 * k)" by (simp add: power_mult)
  ultimately show ?case
    using Suc by (simp add: be_bytes_Suc be_nat_Cons unat_ucast_u8 unat_drop_bit)
qed (simp add: be_bytes_def)

end
