(* ===== verification/Ordered_Map.thy ===== *)
theory Ordered_Map
  imports Main
begin

text \<open>
  \<open>std::collections::BTreeMap\<close>, as the sources use it: an association list whose keys ascend.
\<close>

type_synonym ('k, 'v) btree = "('k \<times> 'v) list"

definition bt_ok :: "('k::linorder, 'v) btree \<Rightarrow> bool" where
  "bt_ok m \<longleftrightarrow> sorted_wrt (<) (map fst m)"

fun bt_insert :: "'k::linorder \<Rightarrow> 'v \<Rightarrow> ('k, 'v) btree \<Rightarrow> ('k, 'v) btree" where
  "bt_insert k v [] = [(k, v)]"
| "bt_insert k v ((k', v') # m) =
     (if k < k' then (k, v) # (k', v') # m
      else if k = k' then (k, v) # m
      else (k', v') # bt_insert k v m)"

definition bt_get :: "'k \<Rightarrow> ('k, 'v) btree \<Rightarrow> 'v option" where
  "bt_get k m = map_of m k"

definition bt_remove :: "'k \<Rightarrow> ('k, 'v) btree \<Rightarrow> ('k, 'v) btree" where
  "bt_remove k m = filter (\<lambda>e. fst e \<noteq> k) m"

definition bt_first :: "('k, 'v) btree \<Rightarrow> ('k \<times> 'v) option" where
  "bt_first m = (case m of [] \<Rightarrow> None | e # _ \<Rightarrow> Some e)"

definition bt_last :: "('k, 'v) btree \<Rightarrow> ('k \<times> 'v) option" where
  "bt_last m = (if m = [] then None else Some (last m))"

text \<open>\<open>range(..=k).next_back()\<close> and \<open>range(..k).next_back()\<close>.\<close>

definition bt_last_le :: "'k::linorder \<Rightarrow> ('k, 'v) btree \<Rightarrow> ('k \<times> 'v) option" where
  "bt_last_le k m = bt_last (filter (\<lambda>e. fst e \<le> k) m)"

definition bt_last_lt :: "'k::linorder \<Rightarrow> ('k, 'v) btree \<Rightarrow> ('k \<times> 'v) option" where
  "bt_last_lt k m = bt_last (filter (\<lambda>e. fst e < k) m)"

section \<open>Laws\<close>

lemma bt_ok_simps [simp]:
  "bt_ok []"
  "bt_ok (e # m) \<longleftrightarrow> (\<forall>e' \<in> set m. fst e < fst e') \<and> bt_ok m"
  by (auto simp: bt_ok_def)

lemma set_bt_insert:
  "bt_ok m \<Longrightarrow> set (bt_insert k v m) = insert (k, v) {e \<in> set m. fst e \<noteq> k}"
  by (induction k v m rule: bt_insert.induct) (auto simp: Ball_def)

lemma bt_insert_ok [intro]: "bt_ok m \<Longrightarrow> bt_ok (bt_insert k v m)"
  by (induction k v m rule: bt_insert.induct) (auto simp: set_bt_insert)

lemma bt_get_insert: "bt_get k' (bt_insert k v m) = (if k = k' then Some v else bt_get k' m)" if "bt_ok m"
  using that by (induction k v m rule: bt_insert.induct) (auto simp: bt_get_def)

lemma bt_remove_ok [intro]: "bt_ok m \<Longrightarrow> bt_ok (bt_remove k m)"
  by (induction m) (auto simp: bt_remove_def)

lemma bt_get_remove: "bt_get k' (bt_remove k m) = (if k = k' then None else bt_get k' m)"
  by (induction m) (auto simp: bt_get_def bt_remove_def)

lemma bt_remove_first: "bt_ok (e # m) \<Longrightarrow> bt_remove (fst e) (e # m) = m"
  by (auto simp: bt_remove_def filter_id_conv)

lemma length_bt_insert: "length (bt_insert k v m) \<le> Suc (length m)"
  by (induction k v m rule: bt_insert.induct) auto

lemma bt_last_SomeD: "bt_last m = Some e \<Longrightarrow> e \<in> set m"
  by (auto simp: bt_last_def split: if_splits)

lemma bt_last_max:
  "bt_ok m \<Longrightarrow> bt_last m = Some e \<Longrightarrow> e' \<in> set m \<Longrightarrow> fst e' \<le> fst e"
  by (induction m) (auto simp: bt_last_def split: if_splits dest: last_in_set intro: less_imp_le)

lemma bt_last_None [simp]: "bt_last m = None \<longleftrightarrow> m = []"
  by (simp add: bt_last_def)

lemma bt_filter_ok [intro]: "bt_ok m \<Longrightarrow> bt_ok (filter P m)"
  by (induction m) auto

lemma bt_get_Some: "bt_ok m \<Longrightarrow> bt_get k m = Some v \<longleftrightarrow> (k, v) \<in> set m"
  by (induction m) (auto simp: bt_get_def)

end
