(* ===== verification/Session_Stream.thy ===== *)
theory Session_Stream
  imports Umc_Prelude Ordered_Map "HOL-Library.Sublist"
begin

text \<open>
  \<open>crates/umc-session/src/stream.rs\<close>: one stream of a session. Received segments are buffered by
  offset until they are contiguous with what has been delivered. Offsets are 64-bit words; byte
  counts are \<open>usize\<close>.
\<close>

section \<open>Model\<close>

definition MAX_OUT_OF_ORDER_BYTES :: nat where [simp]: "MAX_OUT_OF_ORDER_BYTES = 1048576"
definition MAX_OUT_OF_ORDER_RANGES :: nat where [simp]: "MAX_OUT_OF_ORDER_RANGES = 256"

datatype SendState = Ready | Send | DataSent | ResetSent | DataAcked | ResetAcked

datatype RecvState = Recv | SizeKnown | DataRecvd | ResetRecvd | DataRead | ResetRead

record Stream =
  st_stream_id :: u64
  st_protocol_id :: bytes
  st_metadata :: bytes
  st_recv_opened :: bool
  st_unidirectional :: bool
  st_send_state :: SendState
  st_recv_state :: RecvState
  st_next_send_offset :: u64
  st_final_size :: "u64 option"
  st_reset_error_code :: "u64 option"
  st_buffered :: "(u64, bytes) btree"
  st_buffered_bytes :: nat
  st_next_deliver_offset :: u64
  st_max_stream_data_local :: u64
  st_max_stream_data_remote :: u64

datatype StreamError =
    AlreadyClosed
  | ResetByPeer
  | FinalSizeConflict
  | DataBeyondFinalSize
  | OverlappingDataConflict
  | OutOfOrderBudgetExceeded
  | OffsetsOutOfOrder

definition Stream_new :: "u64 \<Rightarrow> bytes \<Rightarrow> u64 \<Rightarrow> Stream" where
  "Stream_new stream_id protocol_id max_stream_data =
     \<lparr>st_stream_id = stream_id, st_protocol_id = protocol_id, st_metadata = [],
      st_recv_opened = False, st_unidirectional = False, st_send_state = Ready,
      st_recv_state = Recv, st_next_send_offset = 0, st_final_size = None,
      st_reset_error_code = None, st_buffered = [], st_buffered_bytes = 0,
      st_next_deliver_offset = 0, st_max_stream_data_local = max_stream_data,
      st_max_stream_data_remote = max_stream_data\<rparr>"

definition usize_saturating_add :: "nat \<Rightarrow> nat \<Rightarrow> nat" where
  "usize_saturating_add a b = min (a + b) (2 ^ 64 - 1)"

text \<open>The part of \<open>receive\<close> after the checks on the final size.\<close>

definition buffer_segment :: "Stream \<Rightarrow> u64 \<Rightarrow> bytes \<Rightarrow> u64 \<Rightarrow> (StreamError + nat) \<times> Stream" where
  "buffer_segment s offset data end =
     (if offset > st_max_stream_data_local s then (Inl OffsetsOutOfOrder, s)
      else if end \<le> st_next_deliver_offset s then (Inr 0, s)
      else if (case bt_last_le offset (st_buffered s) of
                 Some (key, value) \<Rightarrow>
                   key \<le> offset \<and> end \<le> u64_saturating_add key (of_nat (length value))
               | None \<Rightarrow> False) then (Inr 0, s)
      else if offset < st_next_deliver_offset s then (Inl OffsetsOutOfOrder, s)
      else if (case bt_last_lt offset (st_buffered s) of
                 Some (key, value) \<Rightarrow> u64_saturating_add key (of_nat (length value)) > offset
               | None \<Rightarrow> False) then (Inl OverlappingDataConflict, s)
      else
        let s = s\<lparr>st_buffered_bytes := usize_saturating_add (st_buffered_bytes s) (length data)\<rparr> in
        if st_buffered_bytes s > MAX_OUT_OF_ORDER_BYTES
           \<or> length (st_buffered s) \<ge> MAX_OUT_OF_ORDER_RANGES
        then (Inl OutOfOrderBudgetExceeded, s\<lparr>st_buffered_bytes := st_buffered_bytes s - length data\<rparr>)
        else (Inr (length data), s\<lparr>st_buffered := bt_insert offset data (st_buffered s)\<rparr>))"

definition stream_receive :: "Stream \<Rightarrow> u64 \<Rightarrow> bytes \<Rightarrow> bool \<Rightarrow> (StreamError + nat) \<times> Stream" where
  "stream_receive s offset data fin =
     (case u64_checked_add offset (of_nat (length data)) of
        None \<Rightarrow> (Inl DataBeyondFinalSize, s)
      | Some end \<Rightarrow>
          if fin \<and> (case st_final_size s of Some fs \<Rightarrow> fs \<noteq> end | None \<Rightarrow> False)
          then (Inl FinalSizeConflict, s)
          else
            let s = (if fin \<and> st_final_size s = None then s\<lparr>st_final_size := Some end\<rparr> else s) in
            if (case st_final_size s of Some fs \<Rightarrow> end > fs | None \<Rightarrow> False)
            then (Inl DataBeyondFinalSize, s)
            else buffer_segment s offset data end)"

text \<open>The delivery loop: the buffer, the next offset, the byte count and the output.\<close>

fun deliver ::
    "(u64, bytes) btree \<Rightarrow> u64 \<Rightarrow> nat \<Rightarrow> bytes \<Rightarrow> (u64, bytes) btree \<times> u64 \<times> nat \<times> bytes" where
  "deliver [] next count out = ([], next, count, out)"
| "deliver ((offset, data) # m) next count out =
     (if offset \<noteq> next then ((offset, data) # m, next, count, out)
      else deliver m (u64_saturating_add offset (of_nat (length data))) (count - length data) (out @ data))"

definition read_available :: "Stream \<Rightarrow> (bytes \<times> bool) \<times> Stream" where
  "read_available s =
     (let (m, next, count, out) =
        deliver (st_buffered s) (st_next_deliver_offset s) (st_buffered_bytes s) [];
          s = s\<lparr>st_buffered := m, st_next_deliver_offset := next, st_buffered_bytes := count\<rparr> in
      if st_final_size s = Some (st_next_deliver_offset s)
      then ((out, True), s\<lparr>st_recv_state := DataRead\<rparr>)
      else ((out, False), s))"

definition max_received_offset :: "Stream \<Rightarrow> u64" where
  "max_received_offset s =
     (case bt_last (st_buffered s) of
        Some (key, value) \<Rightarrow> u64_saturating_add key (of_nat (length value))
      | None \<Rightarrow> st_next_deliver_offset s)"

definition send_ready :: "Stream \<Rightarrow> bytes \<Rightarrow> (StreamError + u64 \<times> bytes) \<times> Stream" where
  "send_ready s data =
     (if st_send_state s = DataAcked \<or> st_send_state s = ResetAcked \<or> st_send_state s = ResetSent
      then (Inl AlreadyClosed, s)
      else
        let offset = st_next_send_offset s;
            allowed = unat (u64_saturating_sub (st_max_stream_data_remote s) offset);
            n = min (length data) allowed;
            s = s\<lparr>st_next_send_offset := offset + of_nat n\<rparr>;
            s = (if st_send_state s = Ready then s\<lparr>st_send_state := Send\<rparr> else s) in
        (Inr (offset, take n data), s))"

section \<open>Runs\<close>

datatype StreamOp = Receive u64 bytes bool | Read

text \<open>What a run delivers, whether a read reported the end, and how many segments were refused.\<close>

fun stream_run :: "Stream \<Rightarrow> StreamOp list \<Rightarrow> bytes \<times> bool \<times> nat \<times> Stream" where
  "stream_run s [] = ([], False, 0, s)"
| "stream_run s (Receive offset data fin # ops) =
     (let (r, s) = stream_receive s offset data fin;
          (out, eof, refused, s) = stream_run s ops in
      (out, eof, (case r of Inl _ \<Rightarrow> Suc refused | Inr _ \<Rightarrow> refused), s))"
| "stream_run s (Read # ops) =
     (let ((data, e), s) = read_available s;
          (out, eof, refused, s) = stream_run s ops in
      (data @ out, e \<or> eof, refused, s))"

section \<open>What a segment changes\<close>

lemma buffer_segment_cases:
  assumes "buffer_segment s offset data end = (r, s')"
  obtains (same) "s' = s" | (refused) e where "r = Inl e"
      "s' = s\<lparr>st_buffered_bytes := usize_saturating_add (st_buffered_bytes s) (length data) - length data\<rparr>"
    | (buffered) "r = Inr (length data)" "\<not> end \<le> st_next_deliver_offset s"
      "\<not> offset < st_next_deliver_offset s"
      "length (st_buffered s) < MAX_OUT_OF_ORDER_RANGES"
      "usize_saturating_add (st_buffered_bytes s) (length data) \<le> MAX_OUT_OF_ORDER_BYTES"
      "s' = s\<lparr>st_buffered := bt_insert offset data (st_buffered s),
              st_buffered_bytes := usize_saturating_add (st_buffered_bytes s) (length data)\<rparr>"
  using assms
  unfolding buffer_segment_def Let_def by (cases s) (auto split: if_splits)


lemma stream_receive_cases:
  assumes "stream_receive s offset data fin = (r, s')"
  obtains (overflow) e where "r = Inl e" "s' = s" | (checked) "end" t where
      "u64_checked_add offset (of_nat (length data)) = Some end"
      "t = s \<or> fin \<and> t = s\<lparr>st_final_size := Some end\<rparr>"
      "(r, s') = buffer_segment t offset data end \<or> (\<exists>e. r = Inl e \<and> s' = t)"
  using assms unfolding stream_receive_def Let_def by (auto split: option.splits if_splits) metis+

section \<open>Delivered bytes\<close>

text \<open>
  The segments of a peer that sends the bytes \<open>B\<close>: whatever their boundaries, their order and their
  repetitions, each carries the bytes of \<open>B\<close> at its offset, and only the last one is marked final.
\<close>

fun op_of :: "bytes \<Rightarrow> StreamOp \<Rightarrow> bool" where
  "op_of B (Receive offset data fin) \<longleftrightarrow>
     at_pos B (unat offset) data \<and> (fin \<longrightarrow> unat offset + length data = length B)"
| "op_of B Read \<longleftrightarrow> True"

definition stream_of :: "bytes \<Rightarrow> Stream \<Rightarrow> bool" where
  "stream_of B s \<longleftrightarrow> bt_ok (st_buffered s)
     \<and> (\<forall>(k, d) \<in> set (st_buffered s). at_pos B (unat k) d)
     \<and> unat (st_next_deliver_offset s) \<le> length B
     \<and> st_final_size s \<in> {None, Some (of_nat (length B))}"

lemma saturating_add_at_pos:
  assumes "at_pos B (unat k) d" "length B < 2 ^ 64"
  shows "unat (u64_saturating_add k (of_nat (length d))) = unat k + length d"
proof -
  have "unat k + length d \<le> length B" using assms(1) by (rule at_pos_length)
  then show ?thesis
    using assms(2) by (simp add: unat_u64_saturating_add unat_of_nat take_bit_nat_eq_self)
qed

lemma take_at_pos:
  "at_pos B n d \<Longrightarrow> take (n + length d) B = take n B @ d"
  by (auto simp: at_pos_def take_add)

lemma deliver_prefix:
  assumes "\<forall>(k, d) \<in> set m. at_pos B (unat k) d" "length B < 2 ^ 64" "bt_ok m"
    and "unat next \<le> length B" "deliver m next count out = (m', next', count', out')"
  shows "\<exists>got. out' = out @ got \<and> take (unat next') B = take (unat next) B @ got
    \<and> unat next \<le> unat next' \<and> unat next' \<le> length B \<and> (\<exists>gone. m = gone @ m') \<and> bt_ok m'"
  using assms
proof (induction m "next" count out rule: deliver.induct)
  case (2 offset data m "next" count out)
  show ?case
  proof (cases "offset = next")
    case True
    have d: "at_pos B (unat next) data" using 2(2) True by auto
    then have n: "unat (u64_saturating_add next (of_nat (length data))) = unat next + length data"
      using 2(3) by (rule saturating_add_at_pos)
    then have "unat (u64_saturating_add next (of_nat (length data))) \<le> length B"
      using at_pos_length[OF d] by simp
    then obtain got gone where "out' = (out @ data) @ got" "m = gone @ m'" "bt_ok m'"
      "take (unat next') B = take (unat next + length data) B @ got"
      "unat next + length data \<le> unat next'" "unat next' \<le> length B"
      using 2(1) 2(2-6) True n by auto
    then show ?thesis using take_at_pos[OF d] by (intro exI[of _ "data @ got"]) auto
  qed (use 2 in auto)
qed auto

lemma read_available_of:
  assumes "stream_of B s" "length B < 2 ^ 64" "read_available s = ((data, e), s')"
  shows "stream_of B s' \<and> take (unat (st_next_deliver_offset s')) B = take (unat (st_next_deliver_offset s)) B @ data
    \<and> unat (st_next_deliver_offset s) \<le> unat (st_next_deliver_offset s')
    \<and> (e \<longrightarrow> unat (st_next_deliver_offset s') = length B)"
proof -
  obtain m n c out where d: "deliver (st_buffered s) (st_next_deliver_offset s) (st_buffered_bytes s) [] = (m, n, c, out)"
    by (metis prod_cases4)
  then obtain got where "out = got" "take (unat n) B = take (unat (st_next_deliver_offset s)) B @ got"
    "unat (st_next_deliver_offset s) \<le> unat n" "unat n \<le> length B" "set m \<subseteq> set (st_buffered s)" "bt_ok m"
    using deliver_prefix[OF _ assms(2) _ _ d] assms(1) by (fastforce simp: stream_of_def)
  then show ?thesis
    using assms d
    by (auto simp: read_available_def stream_of_def Let_def unat_of_nat take_bit_nat_eq_self split: if_splits)
qed

lemma receive_of:
  assumes "stream_of B s" "length B < 2 ^ 64" "op_of B (Receive offset data fin)"
    and "stream_receive s offset data fin = (r, s')"
  shows "stream_of B s' \<and> st_next_deliver_offset s' = st_next_deliver_offset s"
  using assms(4)
proof (cases rule: stream_receive_cases)
  case (checked "end" t)
  have "unat end = unat offset + length data"
    using checked(1) assms(2,3) at_pos_length[of B "unat offset" data]
    by (auto simp: unat_u64_checked_add unat_of_nat take_bit_nat_eq_self unat_u64_add)
  then have "fin \<Longrightarrow> end = of_nat (length B)" 
    using assms(2,3) by (simp add: word_unat_eq_iff unat_of_nat take_bit_nat_eq_self)
  then have t: "stream_of B t" "st_next_deliver_offset t = st_next_deliver_offset s"
    using checked(2) assms(1) by (auto simp: stream_of_def)
  from checked(3) show ?thesis
  proof
    assume "(r, s') = buffer_segment t offset data end"
    then show ?thesis
      using t assms(3)
      by (elim buffer_segment_cases[OF sym])
        (auto simp: stream_of_def set_bt_insert)
  qed (use t in auto)
qed (use assms in auto)

lemma stream_run_of:
  assumes "stream_of B s" "length B < 2 ^ 64" "list_all (op_of B) ops"
    and "stream_run s ops = (out, eof, refused, s')"
  shows "stream_of B s' \<and> take (unat (st_next_deliver_offset s')) B = take (unat (st_next_deliver_offset s)) B @ out
    \<and> unat (st_next_deliver_offset s) \<le> unat (st_next_deliver_offset s')
    \<and> (eof \<longrightarrow> unat (st_next_deliver_offset s') = length B)"
  using assms
proof (induction s ops arbitrary: out eof refused rule: stream_run.induct)
  case (2 s offset data fin ops)
  obtain r t where t: "stream_receive s offset data fin = (r, t)" by fastforce
  then obtain r1 where run: "stream_run t ops = (out, eof, r1, s')"
    using 2(5) by (auto split: prod.splits)
  have step: "stream_of B t \<and> st_next_deliver_offset t = st_next_deliver_offset s"
    using receive_of[OF 2(2,3) _ t] 2(4) by simp
  have "list_all (op_of B) ops" using 2(4) by simp
  from 2(1)[OF t[symmetric] refl conjunct1[OF step] 2(3) this run] show ?case
    unfolding step[THEN conjunct2] .
next
  case (3 s ops)
  obtain d e t where t: "read_available s = ((d, e), t)" by (metis surj_pair)
  obtain o1 e1 r1 where run: "stream_run t ops = (o1, e1, r1, s')" "out = d @ o1" "eof = (e \<or> e1)"
    using 3(5) t by (auto split: prod.splits)
  note step = read_available_of[OF 3(2,3) t]
  have "list_all (op_of B) ops" using 3(4) by simp
  note rest = 3(1)[OF t[symmetric] refl refl conjunct1[OF step] 3(3) this run(1)]
  have "unat (st_next_deliver_offset s') \<le> length B" using rest by (simp add: stream_of_def)
  then show ?case using step rest run(2,3) by (auto simp del: take_append)
qed auto


section \<open>Fixed segment boundaries\<close>

text \<open>The segments of a peer that cuts its bytes once and repeats the pieces unchanged.\<close>

fun segments :: "nat \<Rightarrow> bytes list \<Rightarrow> (u64 \<times> bytes) list" where
  "segments p [] = []"
| "segments p (d # ds) = (of_nat p, d) # segments (p + length d) ds"






lemma segments_at_pos:
  assumes "length pre + length (concat ds) < 2 ^ 62" "(k, d) \<in> set (segments (length pre) ds)"
  shows "at_pos (pre @ concat ds) (unat k) d"
  using assms
proof (induction ds arbitrary: pre)
  case (Cons c ds)
  show ?case
  proof (cases "(k, d) = (of_nat (length pre), c)")
    case True
    then show ?thesis using Cons.prems(1) by (simp add: unat_of_nat take_bit_nat_eq_self)
  next
    case False
    then show ?thesis using Cons.IH[of "pre @ c"] Cons.prems by auto
  qed
qed simp













section \<open>A stalled stream\<close>

text \<open>The lowest buffered segment begins below the next offset to deliver.\<close>

definition stalled :: "Stream \<Rightarrow> bool" where
  "stalled s \<longleftrightarrow> bt_ok (st_buffered s)
     \<and> (\<exists>k d. bt_first (st_buffered s) = Some (k, d) \<and> k < st_next_deliver_offset s)"

lemma stalled_insert:
  assumes "bt_first m = Some (k, d)" "k < k'"
  shows "bt_first (bt_insert k' d' m) = Some (k, d)"
  using assms by (cases m) (auto simp: bt_first_def)

lemma stalled_receive:
  assumes "stalled s" "stream_receive s k d fin = (r, s')"
  shows "stalled s' \<and> st_next_deliver_offset s' = st_next_deliver_offset s"
  using assms(2)
proof (cases rule: stream_receive_cases)
  case (checked "end" t)
  have t: "stalled t" "st_next_deliver_offset t = st_next_deliver_offset s"
    using checked(2) assms(1) by (auto simp: stalled_def)
  from checked(3) show ?thesis
  proof
    assume "(r, s') = buffer_segment t k d end"
    then show ?thesis
      using t
      by (elim buffer_segment_cases[OF sym])
        (auto simp: stalled_def linorder_not_less intro!: exI stalled_insert dest: less_le_trans)
  qed (use t in auto)
qed (use assms in auto)

lemma stalled_read:
  assumes "stalled s" "read_available s = ((d, e), s')"
  shows "d = [] \<and> stalled s' \<and> st_next_deliver_offset s' = st_next_deliver_offset s"
proof -
  obtain k v m where "st_buffered s = (k, v) # m" "k < st_next_deliver_offset s"
    using assms(1) by (cases "st_buffered s") (auto simp: stalled_def bt_first_def)
  then show ?thesis
    using assms by (auto simp: read_available_def stalled_def Let_def split: if_splits)
qed

lemma stalled_run:
  assumes "stalled s" "stream_run s ops = (out, eof, refused, s')"
  shows "out = [] \<and> st_next_deliver_offset s' = st_next_deliver_offset s"
  using assms
proof (induction s ops arbitrary: out eof refused rule: stream_run.induct)
  case (2 s k d fin ops)
  obtain r t where t: "stream_receive s k d fin = (r, t)" by fastforce
  then obtain r1 where "stream_run t ops = (out, eof, r1, s')" using 2(3) by (auto split: prod.splits)
  with 2(1)[OF t[symmetric] refl _ this] stalled_receive[OF 2(2) t] show ?case by simp
next
  case (3 s ops)
  obtain d e t where t: "read_available s = ((d, e), t)" by (metis surj_pair)
  obtain o1 e1 r1 where run: "stream_run t ops = (o1, e1, r1, s')" "out = d @ o1"
    using 3(3) t by (auto split: prod.splits)
  with 3(1)[OF t[symmetric] refl refl _ run(1)] stalled_read[OF 3(2) t] show ?case by simp
qed simp


section \<open>Bounds\<close>

text \<open>
  What the buffer may hold: at most 256 segments, and no more bytes than the count, which is at
  most a mebibyte.
\<close>

definition stream_inv :: "Stream \<Rightarrow> bool" where
  "stream_inv s \<longleftrightarrow> bt_ok (st_buffered s)
     \<and> length (st_buffered s) \<le> MAX_OUT_OF_ORDER_RANGES
     \<and> sum_list (map (\<lambda>e. length (snd e)) (st_buffered s)) \<le> st_buffered_bytes s
     \<and> st_buffered_bytes s \<le> MAX_OUT_OF_ORDER_BYTES"

lemma sum_bt_insert:
  "sum_list (map (\<lambda>e. length (snd e)) (bt_insert k d m)) \<le> length d + sum_list (map (\<lambda>e. length (snd e)) m)"
  by (induction k d m rule: bt_insert.induct) auto

lemma buffer_segment_inv:
  assumes "stream_inv s" "length data < 2 ^ 63" "buffer_segment s offset data end = (r, s')"
  shows "stream_inv s'"
proof -
  have count: "usize_saturating_add (st_buffered_bytes s) (length data) = st_buffered_bytes s + length data"
    using assms(1,2) by (auto simp: stream_inv_def usize_saturating_add_def)
  show ?thesis
    using assms(3)
  proof (cases rule: buffer_segment_cases)
    case buffered
    then show ?thesis
      using assms(1) count sum_bt_insert[of offset data "st_buffered s"]
        length_bt_insert[of offset data "st_buffered s"]
      by (auto simp: stream_inv_def)
  qed (use assms(1) count in \<open>auto simp: stream_inv_def\<close>)
qed

lemma receive_inv:
  assumes "stream_inv s" "length data < 2 ^ 63" "stream_receive s offset data fin = (r, s')"
  shows "stream_inv s'"
  using assms(3)
proof (cases rule: stream_receive_cases)
  case (checked "end" t)
  have t: "stream_inv t" using checked(2) assms(1) by (auto simp: stream_inv_def)
  then show ?thesis using checked(3) buffer_segment_inv[OF t assms(2)] by metis
qed (use assms in auto)

lemma deliver_inv:
  assumes "deliver m nxt count out = (m', nxt', count', out')" "bt_ok m"
    and "sum_list (map (\<lambda>e. length (snd e)) m) \<le> count"
  shows "bt_ok m' \<and> length m' \<le> length m \<and> count' \<le> count \<and> sum_list (map (\<lambda>e. length (snd e)) m') \<le> count'"
  using assms
proof (induction m nxt count out rule: deliver.induct)
  case (2 offset data m nxt count out)
  show ?case
  proof (cases "offset = nxt")
    case True
    have "sum_list (map (\<lambda>e. length (snd e)) m) \<le> count - length data" using 2(4) by simp
    then show ?thesis using 2(1-3) True by fastforce
  qed (use 2 in auto)
qed auto

lemma read_available_inv:
  assumes "stream_inv s" "read_available s = (r, s')"
  shows "stream_inv s'"
proof -
  obtain m n c out where d: "deliver (st_buffered s) (st_next_deliver_offset s) (st_buffered_bytes s) [] = (m, n, c, out)"
    by (metis prod_cases4)
  have "stream_inv (s\<lparr>st_buffered := m, st_next_deliver_offset := n, st_buffered_bytes := c\<rparr>)"
    using deliver_inv[OF d] assms(1) by (simp add: stream_inv_def)
  then show ?thesis
    using assms(2) d by (auto simp: read_available_def stream_inv_def Let_def split: if_splits)
qed

section \<open>Sending\<close>

text \<open>The offsets and chunks handed out by successive sends that are not refused.\<close>

fun send_run :: "Stream \<Rightarrow> bytes list \<Rightarrow> (u64 \<times> bytes) list \<times> Stream" where
  "send_run s [] = ([], s)"
| "send_run s (data # datas) =
     (let (r, s) = send_ready s data; (outs, s) = send_run s datas in
      (case r of Inl _ \<Rightarrow> outs | Inr out \<Rightarrow> out # outs, s))"

definition send_closed :: "Stream \<Rightarrow> bool" where
  "send_closed s \<longleftrightarrow> st_send_state s \<in> {DataAcked, ResetAcked, ResetSent}"

lemma send_ready_closed: "send_closed s \<Longrightarrow> send_ready s data = (Inl AlreadyClosed, s)"
  by (auto simp: send_closed_def send_ready_def)

lemma send_ready_open:
  fixes s :: Stream
  assumes "\<not> send_closed s" "st_next_send_offset s \<le> st_max_stream_data_remote s"
    "send_ready s data = (r, s')"
  defines "credit \<equiv> unat (st_max_stream_data_remote s) - unat (st_next_send_offset s)"
  shows "r = Inr (st_next_send_offset s, take credit data)" "\<not> send_closed s'"
    "st_max_stream_data_remote s' = st_max_stream_data_remote s"
    "unat (st_next_send_offset s') = unat (st_next_send_offset s) + min (length data) credit"
    "st_next_send_offset s' \<le> st_max_stream_data_remote s"
proof -
  let ?n = "min (length data) credit"
  have le: "unat (st_next_send_offset s) + ?n \<le> unat (st_max_stream_data_remote s)"
    using assms(2) by (simp add: word_le_nat_alt credit_def)
  then have "unat (st_next_send_offset s) + ?n < 2 ^ 64"
    using unat_u64_less[of "st_max_stream_data_remote s"] by linarith
  then have n: "unat (of_nat ?n :: u64) = ?n"
    "unat (st_next_send_offset s + of_nat ?n) = unat (st_next_send_offset s) + ?n"
    by (auto simp: unat_of_nat take_bit_nat_eq_self unat_u64_add simp del: of_nat_min)
  have t: "take ?n data = take credit data" by (simp add: min_def)
  have c: "unat (u64_saturating_sub (st_max_stream_data_remote s) (st_next_send_offset s)) = credit"
    by (simp add: unat_u64_saturating_sub credit_def)
  have eq: "r = Inr (st_next_send_offset s, take credit data)"
    "st_next_send_offset s' = st_next_send_offset s + of_nat ?n"
    "st_max_stream_data_remote s' = st_max_stream_data_remote s"
    "st_send_state s' = (if st_send_state s = Ready then Send else st_send_state s)"
    using assms(1,3) t by (auto simp: send_ready_def send_closed_def c Let_def simp del: of_nat_min)
  show "r = Inr (st_next_send_offset s, take credit data)"
    "st_max_stream_data_remote s' = st_max_stream_data_remote s"
    by (rule eq)+
  show "\<not> send_closed s'" using assms(1) eq(4) by (simp add: send_closed_def)
  show "unat (st_next_send_offset s') = unat (st_next_send_offset s) + min (length data) credit"
    unfolding eq(2) by (rule n(2))
  then show "st_next_send_offset s' \<le> st_max_stream_data_remote s"
    using le by (simp add: word_le_nat_alt)
qed

lemma send_run_closed: "send_closed s \<Longrightarrow> send_run s datas = ([], s)"
  by (induction datas) (simp_all add: send_ready_closed)

section \<open>Properties\<close>

text \<open>
  C14: Streams deliver what was sent. Whatever a peer that sends the bytes \<open>B\<close> puts on the network,
  in whatever segments, order and repetition, and whenever the application reads: the bytes
  delivered are a prefix of \<open>B\<close>, and all of \<open>B\<close> once a read reports the end of the stream.
\<close>

theorem stream_delivers_prefix:
  assumes "list_all (op_of B) ops" and "length B < 2 ^ 64"
    and "stream_run (Stream_new stream_id protocol_id max_data) ops = (out, eof, refused, s)"
  shows "out = take (length out) B \<and> (eof \<longrightarrow> out = B)"
proof -
  have "stream_of B (Stream_new stream_id protocol_id max_data)"
    by (simp add: stream_of_def Stream_new_def)
  from stream_run_of[OF this assms(2,1,3)]
  have out: "out = take (unat (st_next_deliver_offset s)) B"
    and le: "unat (st_next_deliver_offset s) \<le> length B"
    and eof: "eof \<longrightarrow> unat (st_next_deliver_offset s) = length B"
    by (simp_all add: stream_of_def Stream_new_def)
  have "length out = unat (st_next_deliver_offset s)" using out le by simp
  with out eof show ?thesis by auto
qed

theorem stream_delivers_prefix_witness:
  "\<exists>s. stream_run (Stream_new 0 [] 100)
         [Receive 2 [3, 4] True, Read, Receive 0 [1, 2] False, Receive 2 [3, 4] True, Read]
       = ([1, 2, 3, 4], True, 0, s)
     \<and> [1, 2, 3, 4] = take (length [1, 2, 3, 4 :: u8]) [1, 2, 3, 4]"
proof -
  let ?ops = "[Receive 2 [3, 4] True, Read, Receive 0 [1, 2] False, Receive 2 [3, 4] True, Read]"
  obtain s where s: "stream_run (Stream_new 0 [] 100) ?ops = ([1, 2, 3, 4], True, 0, s)"
    by (simp add: Stream_new_def stream_receive_def buffer_segment_def read_available_def
        u64_checked_add_def u64_saturating_add_def usize_saturating_add_def bt_last_le_def
        bt_last_lt_def bt_last_def word_le_nat_alt word_less_nat_alt)
  have "list_all (op_of [1, 2, 3, 4]) ?ops" by (simp add: get_at_def)
  from stream_delivers_prefix[OF this _ s] s show ?thesis by auto
qed




text \<open>
  C29: Overlapping segments can stall a stream. Once the lowest buffered segment begins below the
  next offset to deliver, nothing is ever delivered again, whatever arrives and however often the
  application reads; the overlap check looks only at the segment below a new one.
\<close>

theorem stream_stall_forever:
  assumes "stalled s" and "stream_run s ops = (out, eof, refused, s')"
  shows "out = [] \<and> st_next_deliver_offset s' = st_next_deliver_offset s"
  by (rule stalled_run[OF assms])

theorem stream_stall_forever_witness:
  "\<exists>s s'. stream_run (Stream_new 0 [] 100) [Receive 1 [2, 3] False, Receive 0 [1, 2] False, Read] = ([1, 2], False, 0, s)
     \<and> stream_run s [Receive 2 [3] True, Read, Read] = ([], False, 0, s')"
proof -
  note defs = Stream_new_def stream_receive_def buffer_segment_def read_available_def
    u64_checked_add_def u64_saturating_add_def usize_saturating_add_def bt_last_le_def
    bt_last_lt_def bt_last_def word_le_nat_alt word_less_nat_alt
  obtain s where s: "stream_run (Stream_new 0 [] 100) [Receive 1 [2, 3] False, Receive 0 [1, 2] False, Read] = ([1, 2], False, 0, s)"
    and st: "stalled s" and f: "\<exists>out s'. stream_run s [Receive 2 [3] True, Read, Read] = (out, False, 0, s')"
    by (simp add: defs stalled_def bt_first_def)
  from f obtain out s' where r: "stream_run s [Receive 2 [3] True, Read, Read] = (out, False, 0, s')" by blast
  from stream_stall_forever[OF st r] r s show ?thesis by auto
qed

text \<open>
  C27: The reassembly buffer is bounded. Receiving any segment of a possible length and reading keep
  the buffer ordered and within 256 segments and a mebibyte.
\<close>

theorem stream_buffer_bounded:
  assumes "stream_inv s" and "length data < 2 ^ 63"
  shows "stream_inv (snd (stream_receive s offset data fin)) \<and> stream_inv (snd (read_available s))"
  using receive_inv[OF assms, of offset fin] read_available_inv[OF assms(1)] by (metis prod.collapse)

theorem stream_buffer_bounded_witness:
  "stream_inv (snd (stream_receive (Stream_new 0 [] 100) 5 [1] False))
   \<and> stream_inv (snd (read_available (Stream_new 0 [] 100)))"
proof -
  have "stream_inv (Stream_new 0 [] 100)" by (simp add: stream_inv_def Stream_new_def)
  from stream_buffer_bounded[OF this, of "[1]" 5 False] show ?thesis by simp
qed

text \<open>
  C28: Sending puts the data on the stream in order, within the peer's credit. A closed sending side
  hands out nothing. Otherwise every call hands out a prefix of its data; the bytes handed out
  together are exactly the data of the calls, one after the other, up to the credit that was left;
  they are consecutive segments that start where the stream stood, and the next offset is where they
  end and never passes the limit the peer granted.
\<close>

theorem send_ready_segments:
  assumes "st_next_send_offset s \<le> st_max_stream_data_remote s" and "send_run s datas = (outs, s')"
  shows "if st_send_state s \<in> {DataAcked, ResetAcked, ResetSent} then outs = [] \<and> s' = s
    else list_all2 prefix (map snd outs) datas
      \<and> concat (map snd outs) =
          take (unat (st_max_stream_data_remote s) - unat (st_next_send_offset s)) (concat datas)
      \<and> outs = segments (unat (st_next_send_offset s)) (map snd outs)
      \<and> unat (st_next_send_offset s') = unat (st_next_send_offset s) + length (concat (map snd outs))
      \<and> st_next_send_offset s' \<le> st_max_stream_data_remote s"
proof (cases "send_closed s")
  case True
  then show ?thesis using assms(2) by (auto simp: send_run_closed send_closed_def)
next
  case False
  have "list_all2 prefix (map snd outs) datas
      \<and> concat (map snd outs) =
          take (unat (st_max_stream_data_remote s) - unat (st_next_send_offset s)) (concat datas)
      \<and> outs = segments (unat (st_next_send_offset s)) (map snd outs)
      \<and> unat (st_next_send_offset s') = unat (st_next_send_offset s) + length (concat (map snd outs))
      \<and> st_next_send_offset s' \<le> st_max_stream_data_remote s"
    using False assms
  proof (induction s datas arbitrary: outs rule: send_run.induct)
    case (2 s data datas)
    obtain r t where t: "send_ready s data = (r, t)" by fastforce
    note st = send_ready_open[OF 2(2,3) t]
    obtain outs' where run: "send_run t datas = (outs', s')"
      and outs: "outs = (st_next_send_offset s,
        take (unat (st_max_stream_data_remote s) - unat (st_next_send_offset s)) data) # outs'"
      using 2(4) t st(1) by (auto split: prod.splits)
    have "st_next_send_offset t \<le> st_max_stream_data_remote t" using st(3,5) by simp
    note IH = 2(1)[OF t[symmetric] refl st(2) this run]
    have "m - (k + min n (m - k)) = m - (k + n)" for m k n :: nat by simp
    then show ?case using IH st(3,4) by (simp add: outs take_is_prefix)
  qed simp
  with False show ?thesis by (simp add: send_closed_def)
qed

theorem send_ready_segments_witness:
  "\<exists>s'. send_run (Stream_new 0 [] 3) [[1, 2], [3, 4], [5]] = ([(0, [1, 2]), (2, [3]), (3, [])], s')
     \<and> concat [[1, 2], [3], []] = take 3 (concat [[1, 2], [3, 4], [5 :: u8]])
     \<and> st_next_send_offset s' \<le> 3"
proof -
  obtain s' where s: "send_run (Stream_new 0 [] 3) [[1, 2], [3, 4], [5]] =
      ([(0, [1, 2]), (2, [3]), (3, [])], s')"
    by (simp add: send_ready_def Stream_new_def u64_saturating_sub_def word_le_nat_alt)
  have "st_next_send_offset (Stream_new 0 [] 3) \<le> st_max_stream_data_remote (Stream_new 0 [] 3)"
    by (simp add: Stream_new_def)
  from send_ready_segments[OF this s] s show ?thesis by (auto simp: Stream_new_def)
qed

end
