(* ===== verification/Varint.thy ===== *)
theory Varint
  imports Umc_Prelude
begin

text \<open>
  \<open>crates/umc-wire/src/varint.rs\<close>: the canonical variable-length integers every frame and
  header field is written with. The two top bits of the first byte select a width of 1, 2, 4 or
  8 bytes; the rest is the value, big-endian. The lemmas show that the decoder accepts exactly
  the encoder's output: a value has one encoding, and a decoded prefix is that encoding.
\<close>

section \<open>Model\<close>

definition MAX_VARINT :: u64 where
  "MAX_VARINT = 4611686018427387903"

datatype EncodeError = ValueTooLarge

datatype DecodeError = Truncated | NonCanonical | InvalidWidth | Overflow

definition varint_encode_into :: "bytes \<Rightarrow> u64 \<Rightarrow> EncodeError + bytes" where
  "varint_encode_into out v =
     (if v \<le> 63 then
        Inr (out @ [ucast (v AND 0x3F)])
      else if v \<le> 16383 then
        Inr (out @ [0x40 OR ucast (drop_bit 8 v AND 0x3F)] @ [ucast (v AND 0xFF)])
      else if v \<le> 1073741823 then
        Inr (out @ [0x80 OR ucast (drop_bit 24 v AND 0x3F)]
                 @ drop 1 (to_be_bytes32 (ucast (v AND 0x00FFFFFF))))
      else if v \<le> MAX_VARINT then
        Inr (out @ [0xC0 OR ucast (drop_bit 56 v AND 0x3F)] @ drop 1 (to_be_bytes64 v))
      else Inl ValueTooLarge)"

definition varint_encode :: "u64 \<Rightarrow> EncodeError + bytes" where
  "varint_encode v = varint_encode_into [] v"

definition varint_width :: "u8 \<Rightarrow> nat" where
  "varint_width first =
     (let t = drop_bit 6 first in
      if t = 0 then 1 else if t = 1 then 2 else if t = 2 then 4 else 8)"

definition varint_decode :: "bytes \<Rightarrow> DecodeError + u64 \<times> nat" where
  "varint_decode buf =
     (case buf of
        [] \<Rightarrow> Inl DecodeError.Truncated
      | first # _ \<Rightarrow>
        (let width = varint_width first in
         if length buf < width then Inl DecodeError.Truncated
         else
           (let raw = take width buf @ replicate (8 - width) 0;
                raw = raw[0 := raw ! 0 AND 0x3F];
                v = drop_bit ((8 - width) * 8) (from_be_bytes64 raw);
                fits_width = (if width = 1 then v \<le> 63
                              else if width = 2 then v \<le> 16383
                              else if width = 4 then v \<le> 1073741823
                              else v \<le> MAX_VARINT) in
            if \<not> fits_width then Inl InvalidWidth
            else if width = 2 \<and> v \<le> 63 then Inl NonCanonical
            else if width = 4 \<and> v \<le> 16383 then Inl NonCanonical
            else if width = 8 \<and> v \<le> 1073741823 then Inl NonCanonical
            else Inr (v, width))))"

text \<open>The encoding of a value in range, as a function; used to state the laws.\<close>

definition varint_bytes :: "u64 \<Rightarrow> bytes" where
  "varint_bytes v = projr (varint_encode v)"

section \<open>Tag bits\<close>

lemma take_bit_6_eq: "take_bit 6 (w :: 'a::len word) = w AND 63"
  by (simp add: take_bit_eq_mask mask_eq_exp_minus_1)

lemma ucast_and_63: "(ucast (w AND 63) :: u8) = take_bit 6 (ucast w)"
  by (simp only: take_bit_6_eq [symmetric] unsigned_take_bit_eq)

lemma tag_drop_bit: "drop_bit 6 ((k :: u8) OR take_bit 6 x) = drop_bit 6 k"
  by (simp add: drop_bit_or drop_bit_take_bit)

lemma tag_and_63: "((k :: u8) OR take_bit 6 x) AND 63 = take_bit 6 k OR take_bit 6 x"
  by (simp only: take_bit_6_eq [symmetric] take_bit_or take_bit_take_bit) simp

lemma unat_take_bit_6: "unat (take_bit 6 (ucast (w :: u64)) :: u8) = unat w mod 64"
proof -
  have "unat (take_bit 6 (ucast w :: u8)) = take_bit 6 (unat (ucast w :: u8))"
    by (rule unsigned_take_bit_eq)
  then show ?thesis
    by (simp add: unat_ucast_u8 take_bit_eq_mod mod_mod_cancel)
qed

lemma varint_width_cases: "varint_width b \<in> {1, 2, 4, 8}"
  by (simp add: varint_width_def Let_def)

lemma varint_width_inj:
  assumes "varint_width b = varint_width c" and "b AND 63 = c AND 63"
  shows "b = c"
proof -
  have three: "drop_bit 6 x = 0 \<or> drop_bit 6 x = 1 \<or> drop_bit 6 x = 2 \<or> drop_bit 6 x = 3"
    for x :: u8
  proof -
    have "unat (drop_bit 6 x) < 4" using unat_u8_less[of x] by (simp add: unat_drop_bit)
    then have "unat (drop_bit 6 x) \<in> {0, 1, 2, 3}" by auto
    then show ?thesis by (simp add: word_unat_eq_iff)
  qed
  have "drop_bit 6 b = drop_bit 6 c"
    using three[of b] three[of c] assms(1) by (auto simp: varint_width_def Let_def)
  then have "unat b div 64 = unat c div 64"
    using unat_drop_bit[of 6 b] unat_drop_bit[of 6 c] by simp
  moreover have "unat b mod 64 = unat c mod 64"
    using unat_and_63[of b] unat_and_63[of c] assms(2) by simp
  ultimately have "unat b = unat c" by (metis div_mult_mod_eq)
  then show ?thesis by (simp add: word_unat_eq_iff)
qed

lemma unat_le_simps:
  fixes v :: u64
  shows "v \<le> 63 \<longleftrightarrow> unat v \<le> 63" and "v \<le> 16383 \<longleftrightarrow> unat v \<le> 16383"
    and "v \<le> 1073741823 \<longleftrightarrow> unat v \<le> 1073741823"
    and "v \<le> MAX_VARINT \<longleftrightarrow> unat v \<le> 4611686018427387903"
  by (simp_all add: word_le_nat_alt MAX_VARINT_def)

section \<open>The decoder on a buffer of sufficient length\<close>

lemma varint_raw_value:
  assumes "length bs + 1 = w" and "w \<le> 8"
  shows "unat (drop_bit ((8 - w) * 8) (from_be_bytes64 ((b AND 63) # bs @ replicate (8 - w) 0)))
         = be_nat ((b AND 63) # bs)"
proof -
  have "be_nat ((b AND 63) # bs @ replicate (8 - w) 0)
      = be_nat (((b AND 63) # bs) @ replicate (8 - w) 0)"
    by simp
  also have "\<dots> = be_nat ((b AND 63) # bs) * 256 ^ (8 - w)"
    by (simp only: be_nat_append be_nat_replicate_0 length_replicate)
  also have "\<dots> = be_nat ((b AND 63) # bs) * 2 ^ ((8 - w) * 8)"
    by (simp add: power_mult flip: power_mult[of 2 8] mult.commute[of 8])
  finally show ?thesis
    using assms by (simp add: unat_drop_bit unat_from_be_bytes64)
qed

lemma varint_tail_bound:
  assumes "length bs + 1 = w"
  shows "be_nat ((b AND 63) # bs) < 64 * 256 ^ (w - 1)"
proof -
  have len: "length bs = w - 1" using assms by simp
  then have "be_nat bs < 256 ^ (w - 1)" using be_nat_less[of bs] by simp
  moreover have "unat (b AND 63) * 256 ^ (w - 1) \<le> 63 * 256 ^ (w - 1)"
    by (rule mult_le_mono1) (simp add: unat_and_63)
  ultimately show ?thesis by (simp only: be_nat_Cons len)
qed

lemma varint_decode_Cons:
  assumes w: "varint_width b = w" and len: "length bs + 1 = w"
  shows "varint_decode (b # bs @ rest) =
    (let n = be_nat ((b AND 63) # bs) in
     if w = 2 \<and> n \<le> 63 \<or> w = 4 \<and> n \<le> 16383 \<or> w = 8 \<and> n \<le> 1073741823
     then Inl NonCanonical else Inr (of_nat n, w))"
proof -
  have w8: "w \<le> 8" "w \<in> {1, 2, 4, 8}" using varint_width_cases[of b] w by auto
  define v where
    "v = drop_bit ((8 - w) * 8) (from_be_bytes64 ((b AND 63) # bs @ replicate (8 - w) 0))"
  define n where "n = be_nat ((b AND 63) # bs)"
  have v: "unat v = n"
    using varint_raw_value[OF len w8(1)] by (simp only: v_def n_def)
  then have vn: "v = of_nat n" by (metis of_nat_unat ucast_id)
  have "n < 64 * 256 ^ (w - 1)" unfolding n_def by (rule varint_tail_bound) (rule len)
  then have fits: "w = 1 \<longrightarrow> n \<le> 63" "w = 2 \<longrightarrow> n \<le> 16383"
     "w = 4 \<longrightarrow> n \<le> 1073741823" "w = 8 \<longrightarrow> n \<le> 4611686018427387903"
    by auto
  have raw: "(take w (b # bs @ rest) @ replicate (8 - w) 0)
       [0 := (take w (b # bs @ rest) @ replicate (8 - w) 0) ! 0 AND 63]
     = (b AND 63) # bs @ replicate (8 - w) 0"
    using len by (cases w) auto
  have "varint_decode (b # bs @ rest) =
    (if w = 2 \<and> n \<le> 63 \<or> w = 4 \<and> n \<le> 16383 \<or> w = 8 \<and> n \<le> 1073741823
     then Inl NonCanonical else Inr (v, w))"
    unfolding varint_decode_def list.case Let_def w raw v_def [symmetric]
    using fits w8 len by (auto simp: word_le_nat_alt v MAX_VARINT_def)
  then show ?thesis by (simp add: vn n_def Let_def)
qed

lemma varint_decode_short:
  "length buf < varint_width (hd buf) \<Longrightarrow> varint_decode buf = Inl DecodeError.Truncated"
  by (cases buf) (simp_all add: varint_decode_def Let_def)

section \<open>The encoder's output\<close>

lemma varint_shape:
  assumes "v \<le> MAX_VARINT"
  obtains c cs where "varint_bytes v = c # cs" and "varint_width c = length cs + 1"
    and "be_nat ((c AND 63) # cs) = unat v"
    and "varint_width c = (if unat v \<le> 63 then 1 else if unat v \<le> 16383 then 2
                           else if unat v \<le> 1073741823 then 4 else 8)"
proof -
  note enc = varint_bytes_def varint_encode_def varint_encode_into_def unat_le_simps ucast_and_63
  note val = be_nat_Cons tag_and_63 unat_take_bit_6 unat_drop_bit drop_be_bytes be_nat_be_bytes
  consider (one) "unat v \<le> 63" | (two) "63 < unat v" "unat v \<le> 16383"
    | (four) "16383 < unat v" "unat v \<le> 1073741823"
    | (eight) "1073741823 < unat v" "unat v \<le> 4611686018427387903"
    using assms unat_le_simps by force
  then show thesis
  proof cases
    case one
    have w: "varint_width (take_bit 6 (ucast v)) = 1"
      using tag_drop_bit[of 0 "ucast v"] by (simp add: varint_width_def)
    moreover have "be_nat [take_bit 6 (ucast v) AND 63] = unat v"
      using one tag_and_63[of 0 "ucast v"] by (simp add: be_nat_Cons unat_take_bit_6)
    ultimately show thesis
      using one by (intro that[of "take_bit 6 (ucast v)" "[]"]) (simp_all add: enc)
  next
    case two
    let ?b = "0x40 OR take_bit 6 (ucast (drop_bit 8 v)) :: u8" and ?c = "[ucast (v AND 0xFF)] :: bytes"
    have w: "varint_width ?b = 2"
      by (simp only: varint_width_def tag_drop_bit Let_def) simp
    show thesis
      by (rule that[of ?b ?c]) (use two w in \<open>simp_all add: enc val unat_ucast_u8 unat_and_255\<close>)
  next
    case four
    let ?b = "0x80 OR take_bit 6 (ucast (drop_bit 24 v)) :: u8"
      and ?c = "drop 1 (to_be_bytes32 (ucast (v AND 0x00FFFFFF)))"
    have w: "varint_width ?b = 4"
      by (simp only: varint_width_def tag_drop_bit Let_def) simp
    show thesis
      by (rule that[of ?b ?c])
        (use four w in \<open>simp_all add: enc val to_be_bytes32_def unat_ucast_u32 unat_and_24\<close>)
  next
    case eight
    let ?b = "0xC0 OR take_bit 6 (ucast (drop_bit 56 v)) :: u8" and ?c = "drop 1 (to_be_bytes64 v)"
    have w: "varint_width ?b = 8"
      by (simp only: varint_width_def tag_drop_bit Let_def) simp
    show thesis
      by (rule that[of ?b ?c]) (use eight w in \<open>simp_all add: enc val to_be_bytes64_def\<close>)
  qed
qed

lemma varint_encode_into_eq:
  "varint_encode_into out v =
     (if v \<le> MAX_VARINT then Inr (out @ varint_bytes v) else Inl ValueTooLarge)"
  by (auto simp: varint_encode_into_def varint_bytes_def varint_encode_def unat_le_simps)

lemma varint_bytes_nonempty: "v \<le> MAX_VARINT \<Longrightarrow> varint_bytes v \<noteq> []"
  by (metis list.distinct(1) varint_shape)

lemma varint_bytes_length: "v \<le> MAX_VARINT \<Longrightarrow> length (varint_bytes v) \<in> {1, 2, 4, 8}"
  by (metis One_nat_def add.right_neutral add_Suc_right list.size(4) varint_shape varint_width_cases)

section \<open>Decoding and encoding are inverse\<close>

lemma varint_decode_bytes [codec_run]:
  assumes "v \<le> MAX_VARINT"
  shows "varint_decode (varint_bytes v @ rest) = Inr (v, length (varint_bytes v))"
proof -
  obtain c cs where shape: "varint_bytes v = c # cs" "varint_width c = length cs + 1"
    "be_nat ((c AND 63) # cs) = unat v"
    "varint_width c = (if unat v \<le> 63 then 1 else if unat v \<le> 16383 then 2
                       else if unat v \<le> 1073741823 then 4 else 8)"
    by (rule varint_shape[OF assms])
  then show ?thesis
    using varint_decode_Cons[OF shape(2) refl, of rest] by (auto simp: Let_def split: if_splits)
qed

lemma varint_decode_split:
  assumes "varint_decode buf = Inr (v, n)"
  obtains b bs rest where "buf = b # bs @ rest" and "varint_width b = n" and "length bs + 1 = n"
proof (cases buf)
  case (Cons b xs)
  let ?w = "varint_width b"
  have "n = ?w" and long: "?w \<le> length buf"
    using assms Cons by (auto simp: varint_decode_def Let_def split: if_splits)
  then show thesis
    using varint_width_cases[of b] Cons
    by (intro that[of b "take (?w - 1) xs" "drop (?w - 1) xs"]) auto
qed (use assms in \<open>simp add: varint_decode_def\<close>)

lemma varint_decode_canonical:
  assumes "varint_decode buf = Inr (v, n)"
  shows "v \<le> MAX_VARINT \<and> n = length (varint_bytes v) \<and> buf = varint_bytes v @ drop n buf"
proof -
  obtain b bs rest where buf: "buf = b # bs @ rest" and w: "varint_width b = n"
    and len: "length bs + 1 = n"
    by (rule varint_decode_split[OF assms])
  define m where "m = be_nat ((b AND 63) # bs)"
  have bound: "m < 64 * 256 ^ (n - 1)" unfolding m_def by (rule varint_tail_bound) (rule len)
  have n: "n \<in> {1, 2, 4, 8}" using varint_width_cases[of b] w by simp
  then have small: "m < 2 ^ 62" using bound by auto
  have v: "v = of_nat m"
    and canon: "\<not> (n = 2 \<and> m \<le> 63 \<or> n = 4 \<and> m \<le> 16383 \<or> n = 8 \<and> m \<le> 1073741823)"
    using assms varint_decode_Cons[OF w len, of rest]
    by (auto simp: buf m_def Let_def split: if_splits)
  have um: "unat v = m" using small by (simp add: v unat_of_nat take_bit_nat_eq_self)
  then have le: "v \<le> MAX_VARINT" using small by (simp add: unat_le_simps)
  obtain c cs where shape: "varint_bytes v = c # cs" "varint_width c = length cs + 1"
    "be_nat ((c AND 63) # cs) = unat v"
    "varint_width c = (if unat v \<le> 63 then 1 else if unat v \<le> 16383 then 2
                       else if unat v \<le> 1073741823 then 4 else 8)"
    by (rule varint_shape[OF le])
  have "varint_width c = n"
    using n canon bound unfolding shape(4) um by auto
  then have "(b AND 63) # bs = (c AND 63) # cs"
    using shape len um by (intro be_nat_inj) (simp_all add: m_def)
  then have "b = c" "bs = cs"
    using varint_width_inj[of b c] w \<open>varint_width c = n\<close> by simp_all
  then show ?thesis using le len [symmetric] by (simp add: buf shape(1))
qed

lemma varint_decode_iff:
  "varint_decode buf = Inr (v, n) \<longleftrightarrow>
     v \<le> MAX_VARINT \<and> n = length (varint_bytes v) \<and> buf = varint_bytes v @ drop n buf"
  using varint_decode_canonical varint_decode_bytes by metis

lemma varint_decode_progress: "varint_decode buf = Inr (v, n) \<Longrightarrow> 0 < n \<and> n \<le> length buf"
  by (metis length_append length_greater_0_conv le_add1 varint_bytes_nonempty varint_decode_canonical)

section \<open>Properties\<close>

text \<open>
  Varint round trip: a value up to the 62-bit maximum is encoded, and decoding that encoding
  in front of any bytes returns the value and exactly the number of bytes written.
\<close>

theorem varint_roundtrip:
  assumes "v \<le> MAX_VARINT"
  shows "\<exists>bs. varint_encode v = Inr bs \<and> length bs \<in> {1, 2, 4, 8}
    \<and> varint_decode (bs @ rest) = Inr (v, length bs)"
  using assms varint_bytes_length[of v]
  by (auto simp: varint_encode_def varint_encode_into_eq codec_run)

theorem varint_roundtrip_witness:
  "\<exists>bs. varint_encode 16384 = Inr bs \<and> length bs \<in> {1, 2, 4, 8}
    \<and> varint_decode (bs @ [7]) = Inr (16384, length bs)"
  by (rule varint_roundtrip[of 16384 "[7]"]) (simp add: MAX_VARINT_def)

text \<open>
  C33: Varints are canonical: the decoder accepts a buffer with value \<open>v\<close> and width \<open>n\<close> exactly
  when the encoder's bytes for \<open>v\<close>, \<open>n\<close> of them, are a prefix of it. No value has a second
  accepted encoding.
\<close>

theorem varint_canonical:
  "varint_decode buf = Inr (v, n) \<longleftrightarrow>
     (\<exists>bs rest. varint_encode v = Inr bs \<and> n = length bs \<and> buf = bs @ rest)"
proof
  assume "varint_decode buf = Inr (v, n)"
  then have "v \<le> MAX_VARINT" and "n = length (varint_bytes v)" and "buf = varint_bytes v @ drop n buf"
    using varint_decode_canonical by blast+
  moreover from this(1) have "varint_encode v = Inr (varint_bytes v)"
    by (simp add: varint_encode_def varint_encode_into_eq)
  ultimately show "\<exists>bs rest. varint_encode v = Inr bs \<and> n = length bs \<and> buf = bs @ rest" by blast
qed (auto simp: varint_encode_def varint_encode_into_eq codec_run split: if_splits)

text \<open>
  The decoder fails in two ways only: \<open>Truncated\<close>, exactly when the buffer is shorter than
  the width its first byte announces, and otherwise \<open>NonCanonical\<close>. The \<open>InvalidWidth\<close> branch
  the documentation names can never be taken and \<open>Overflow\<close> is never built.
\<close>

theorem varint_decode_errors:
  "varint_decode buf = Inl e \<Longrightarrow>
     (if buf = [] \<or> length buf < varint_width (hd buf) then e = DecodeError.Truncated
      else e = NonCanonical)"
proof (cases buf)
  case (Cons b xs)
  assume e: "varint_decode buf = Inl e"
  let ?w = "varint_width b"
  show ?thesis
  proof (cases "length buf < ?w")
    case True
    then show ?thesis using e varint_decode_short[of buf] by (simp add: Cons)
  next
    case False
    have "buf = b # take (?w - 1) xs @ drop (?w - 1) xs" "length (take (?w - 1) xs) + 1 = ?w"
      using False varint_width_cases[of b] by (auto simp: Cons)
    then show ?thesis
      using e False varint_decode_Cons[of b ?w "take (?w - 1) xs" "drop (?w - 1) xs"]
      by (auto simp: Cons Let_def split: if_splits)
  qed
qed (simp add: varint_decode_def)

theorem varint_decode_errors_witness:
  "varint_decode [0x40, 0x3F] = Inl NonCanonical \<and>
   (if [0x40, 0x3F] = ([] :: bytes) \<or> length [0x40, 0x3F :: u8] < varint_width (hd [0x40, 0x3F])
    then NonCanonical = DecodeError.Truncated else NonCanonical = NonCanonical)"
proof -
  have d: "varint_decode [0x40, 0x3F] = Inl NonCanonical" by code_simp
  show ?thesis using d varint_decode_errors[OF d] by blast
qed

end
