(* ===== verification/Packet_Number.thy ===== *)
theory Packet_Number
  imports Varint
begin

text \<open>
  \<open>crates/umc-wire/src/pn.rs\<close>: reconstruction of a truncated packet number from the number the
  receiver expects next.
\<close>

section \<open>Model\<close>

datatype PnError = InvalidBits | TruncatedTooLarge | Overflow

definition MAX_PACKET_NUMBER :: u64 where
  "MAX_PACKET_NUMBER = push_bit 62 1 - 1"

definition reconstruct :: "u64 \<Rightarrow> u32 \<Rightarrow> u64 \<Rightarrow> PnError + u64" where
  "reconstruct truncated bits expected =
     (if bits = 0 \<or> bits > 62 then Inl InvalidBits
      else if truncated \<ge> push_bit (unat bits) 1 then Inl TruncatedTooLarge
      else
        let window = push_bit (unat bits) 1;
            half = drop_bit 1 window in
        if expected > MAX_PACKET_NUMBER - half then Inl PnError.Overflow
        else
          let mask = window - 1;
              candidate = (expected AND NOT mask) OR truncated;
              candidate =
                (if u64_saturating_add candidate half < expected
                    \<and> u64_saturating_add candidate window \<le> MAX_PACKET_NUMBER
                 then u64_saturating_add candidate window
                 else if candidate > u64_saturating_add expected half \<and> candidate \<ge> window
                 then u64_saturating_sub candidate window
                 else candidate) in
          if candidate > MAX_PACKET_NUMBER then Inl PnError.Overflow else Inr candidate)"

section \<open>The candidate in natural numbers\<close>

text \<open>
  \<open>nearest E t W\<close>: the number congruent to \<open>t\<close> modulo the window \<open>W\<close> that the three branches
  of the code settle on.
\<close>

definition nearest :: "nat \<Rightarrow> nat \<Rightarrow> nat \<Rightarrow> nat" where
  "nearest E t W =
     (let c = E div W * W + t; H = W div 2 in
      if c + H < E then c + W
      else if c > E + H \<and> c \<ge> W then c - W
      else c)"

lemma nearest_mod: "t < W \<Longrightarrow> nearest E t W mod W = t"
  using le_mod_geq[of W "E div W * W + t"] by (auto simp: nearest_def Let_def)

lemma nearest_window:
  assumes "t < W" and "even W"
  shows "E \<le> nearest E t W + W div 2" and "nearest E t W \<le> E + W div 2 \<or> nearest E t W < W"
proof -
  define q where "q = E div W * W"
  define H where "H = W div 2"
  have *: "q \<le> E" "E < q + W"
    using assms(1) dividend_less_div_times[of W E] by (auto simp: q_def)
  have W: "W = 2 * H" using assms(2) by (simp add: H_def)
  have n: "nearest E t W = (if q + t + H < E then q + t + W
      else if E + H < q + t \<and> W \<le> q + t then q + t - W else q + t)"
    by (simp add: nearest_def q_def H_def Let_def)
  show "E \<le> nearest E t W + W div 2" "nearest E t W \<le> E + W div 2 \<or> nearest E t W < W"
    using * assms(1) unfolding n H_def[symmetric] by (auto simp: W)
qed

text \<open>No other number with the same low bits is closer to the expected one.\<close>

lemma mod_eq_far:
  assumes "n mod W = r mod W" and "n \<noteq> r"
  shows "n + W \<le> r \<or> r + W \<le> (n :: nat)"
proof -
  have *: "b + W \<le> a" if "a mod W = b mod W" and "b < a" for a b :: nat
  proof -
    from that obtain k where k: "a = b + W * k" by (auto elim: mod_eq_nat1E)
    with that(2) have "W * 1 \<le> W * k" by (intro mult_le_mono2) (cases k; simp)
    then show ?thesis using k by simp
  qed
  show ?thesis using *[of r n] *[of n r] assms by linarith
qed

lemma nearest_is_nearest:
  assumes "t < W" and "even W" and "n mod W = t"
  shows "\<bar>int (nearest E t W) - int E\<bar> \<le> \<bar>int n - int E\<bar>"
proof (cases "n = nearest E t W")
  case False
  have "W = W div 2 + W div 2" using assms(2) by (metis dvd_mult_div_cancel mult_2)
  moreover have "n + W \<le> nearest E t W \<or> nearest E t W + W \<le> n"
    using mod_eq_far[OF _ False, of W] nearest_mod[OF assms(1), of E] assms(3) by auto
  ultimately show ?thesis
    using nearest_window[OF assms(1,2), of E] by linarith
qed simp

lemma nearest_unique:
  assumes "n mod W = t" and "even W" and "0 < W"
    and "E < n + W div 2" and "n < E + W div 2"
  shows "nearest E t W = n"
proof (rule ccontr)
  assume *: "nearest E t W \<noteq> n"
  have t: "t < W" using assms(1,3) by auto
  have W: "W = W div 2 + W div 2" using assms(2) by (metis dvd_mult_div_cancel mult_2)
  have "nearest E t W + W \<le> n \<or> n + W \<le> nearest E t W"
    using mod_eq_far[OF _ *, of W] nearest_mod[OF t, of E] assms(1) by auto
  then show False
    using nearest_window[OF t assms(2), of E] W assms(4,5) by linarith
qed

section \<open>The code computes it\<close>

lemma unat_pow2: "b \<le> 62 \<Longrightarrow> unat (2 ^ b :: u64) = 2 ^ b"
proof -
  assume "b \<le> 62"
  then have "(2::nat) ^ b < 2 ^ 64" by (intro power_strict_increasing) auto
  then have "unat (of_nat (2 ^ b) :: u64) = 2 ^ b"
    unfolding unat_of_nat by (simp add: take_bit_nat_eq_self)
  then show ?thesis by simp
qed

lemma unat_MAX_PACKET_NUMBER: "unat MAX_PACKET_NUMBER = 2 ^ 62 - 1"
  by (simp add: MAX_PACKET_NUMBER_def)

lemma unat_candidate:
  assumes "b \<le> 62" and "unat t < 2 ^ b"
  shows "unat ((E AND NOT (2 ^ b - 1)) OR t :: u64) = unat E div 2 ^ b * 2 ^ b + unat t"
proof -
  have m: "(2 ^ b - 1 :: u64) = mask b" by (simp add: mask_eq_exp_minus_1)
  have t: "take_bit b t = t"
    using assms by (simp add: word_unat_eq_iff unsigned_take_bit_eq take_bit_nat_eq_self)
  have hi: "E AND NOT (mask b) = push_bit b (drop_bit b E)"
    by (rule bit_word_eqI) (auto simp: bit_simps)
  have "unat E < 2 ^ (64 - b) * 2 ^ b"
    using unat_u64_less[of E] assms(1) by (simp flip: power_add)
  then have "unat E div 2 ^ b < 2 ^ (64 - b)" by (simp add: div_less_iff_less_mult)
  then have "(unat E div 2 ^ b + 1) * 2 ^ b \<le> 2 ^ (64 - b) * 2 ^ b" by (intro mult_le_mono1) simp
  also have "\<dots> = 2 ^ 64" using assms(1) by (simp flip: power_add)
  finally have sum: "unat E div 2 ^ b * 2 ^ b + unat t < 2 ^ 64" using assms(2) by simp
  then have uhi: "unat (push_bit b (drop_bit b E)) = unat E div 2 ^ b * 2 ^ b"
    unfolding unsigned_push_bit_eq
    by (simp add: unat_drop_bit take_bit_nat_eq_self push_bit_eq_mult)
  have add: "push_bit b (drop_bit b E) OR t = push_bit b (drop_bit b E) + t"
    by (subst disjunctive_add) (use t in \<open>metis bit_push_bit_iff bit_take_bit_iff not_le\<close>, simp)
  show ?thesis
    using sum unfolding m hi add by (simp add: unat_word_ariths uhi)
qed

text \<open>
  Within its guards \<open>reconstruct\<close> never reaches the last \<open>Overflow\<close> test: the nearest candidate
  is a packet number.
\<close>

lemma reconstruct_eq:
  assumes "bits \<noteq> 0" and "bits \<le> 62" and "unat t < 2 ^ unat bits"
    and "unat E + 2 ^ (unat bits - 1) < 2 ^ 62"
  shows "\<exists>r. reconstruct t bits E = Inr r \<and> unat r = nearest (unat E) (unat t) (2 ^ unat bits)
    \<and> unat r < 2 ^ 62"
proof -
  define b h where "b = unat bits" and "h = (2 :: nat) ^ (b - 1)"
  have b: "0 < b" "b \<le> 62"
    using assms(1,2) by (auto simp: b_def word_le_nat_alt unat_gt_0)
  have W: "(2 :: nat) ^ b = 2 * h" using b(1) by (simp add: h_def flip: power_Suc)
  have "(2 :: nat) ^ b \<le> 2 ^ 62" using b(2) by (intro power_increasing) auto
  then have le: "2 * h \<le> 2 ^ 62" by (simp add: W)
  have E: "unat E + h < 2 ^ 62" using assms(4) by (simp add: h_def b_def)
  have t: "unat t < 2 * h" using assms(3) by (simp add: b_def[symmetric] W)
  define c where "c = (E AND NOT (2 ^ b - 1)) OR t"
  have uc: "unat c = unat E div (2 * h) * (2 * h) + unat t"
    using unat_candidate[OF b(2), of t E] t by (simp add: c_def W)
  then have cb: "unat c < unat E + 2 * h" using t by (simp add: add_le_less_mono)
  have uw: "unat (2 ^ b :: u64) = 2 * h" using b(2) by (simp add: unat_pow2 W)
  then have uh: "unat (drop_bit (Suc 0) (2 ^ b) :: u64) = h" by (simp add: unat_drop_bit)
  define r where "r = (if u64_saturating_add c (drop_bit 1 (2 ^ b)) < E
      \<and> u64_saturating_add c (2 ^ b) \<le> MAX_PACKET_NUMBER then u64_saturating_add c (2 ^ b)
    else if c > u64_saturating_add E (drop_bit 1 (2 ^ b)) \<and> c \<ge> 2 ^ b
    then u64_saturating_sub c (2 ^ b) else c)"
  have ur: "unat r = nearest (unat E) (unat t) (2 * h)"
    using E le cb
    by (auto simp: r_def nearest_def Let_def word_less_nat_alt word_le_nat_alt
        unat_u64_saturating_add unat_u64_saturating_sub unat_MAX_PACKET_NUMBER uw uh uc[symmetric])
  moreover have lt: "unat r < 2 ^ 62"
    using nearest_window[of "unat t" "2 * h" "unat E"] t E le by (auto simp: ur)
  moreover have "reconstruct t bits E = Inr r"
  proof -
    have "push_bit (unat bits) 1 = (2 ^ b :: u64)" by (simp add: b_def push_bit_eq_mult)
    moreover have "\<not> (bits = 0 \<or> 62 < bits)" "\<not> 2 ^ b \<le> t" "\<not> MAX_PACKET_NUMBER < r"
      "\<not> MAX_PACKET_NUMBER - drop_bit 1 (2 ^ b) < E"
      using assms(1,2) t E le lt
      by (auto simp: word_less_nat_alt word_le_nat_alt unat_sub uw uh unat_MAX_PACKET_NUMBER)
    ultimately show ?thesis
      unfolding reconstruct_def Let_def by (simp only: c_def[symmetric] r_def[symmetric] if_False)
  qed
  ultimately show ?thesis by (auto simp: b_def[symmetric] W)
qed

lemma reconstruct_overflow:
  assumes "bits \<noteq> 0" and "bits \<le> 62" and "unat t < 2 ^ unat bits"
    and "2 ^ 62 \<le> unat E + 2 ^ (unat bits - 1)"
  shows "reconstruct t bits E = Inl PnError.Overflow"
proof -
  have b: "0 < unat bits" "unat bits \<le> 62"
    using assms(1,2) by (auto simp: word_le_nat_alt unat_gt_0)
  define w :: u64 where "w = push_bit (unat bits) 1"
  have uw: "unat w = 2 ^ unat bits" using b by (simp add: w_def push_bit_eq_mult unat_pow2)
  have uh: "unat (drop_bit (Suc 0) w) = 2 ^ (unat bits - 1)"
    using b(1) by (simp add: unat_drop_bit uw power_diff)
  have "(2 :: nat) ^ (unat bits - 1) \<le> 2 ^ 61" using b(2) by (intro power_increasing) auto
  then have "MAX_PACKET_NUMBER - drop_bit 1 w < E" "\<not> w \<le> t" "\<not> (bits = 0 \<or> 62 < bits)"
    using assms by (auto simp: word_less_nat_alt word_le_nat_alt unat_sub uh uw unat_MAX_PACKET_NUMBER)
  then show ?thesis unfolding reconstruct_def Let_def w_def[symmetric] by simp
qed

lemma reconstruct_back:
  assumes "bits \<noteq> 0" and "bits \<le> 62" and "unat E + 2 ^ (unat bits - 1) < 2 ^ 62"
    and "unat E < unat n + 2 ^ (unat bits - 1)" and "unat n < unat E + 2 ^ (unat bits - 1)"
  shows "reconstruct (of_nat (unat n mod 2 ^ unat bits)) bits E = Inr n"
proof -
  let ?t = "of_nat (unat n mod 2 ^ unat bits) :: u64"
  have b: "0 < unat bits" using assms(1) by (simp add: unat_gt_0)
  then have half: "2 ^ unat bits div 2 = (2 :: nat) ^ (unat bits - 1)" by (simp add: power_diff)
  have "unat n mod 2 ^ unat bits < 2 ^ 64"
    using unat_u64_less[of n] by (rule le_less_trans[OF mod_less_eq_dividend])
  then have t: "unat ?t = unat n mod 2 ^ unat bits"
    unfolding unat_of_nat by (simp add: take_bit_nat_eq_self)
  then have "unat ?t < 2 ^ unat bits" by simp
  from reconstruct_eq[OF assms(1,2) this assms(3)] obtain r where
    "reconstruct ?t bits E = Inr r" and "unat r = nearest (unat E) (unat ?t) (2 ^ unat bits)"
    by blast
  moreover have "nearest (unat E) (unat ?t) (2 ^ unat bits) = unat n"
    using assms(4,5) b by (intro nearest_unique) (simp_all add: t half)
  ultimately show ?thesis by (simp add: word_unat_eq_iff)
qed

section \<open>Properties\<close>

lemma reconstruct_guards:
  "reconstruct t bits E = Inr r \<Longrightarrow> bits \<noteq> 0 \<and> bits \<le> 62 \<and> t < push_bit (unat bits) 1"
  by (simp add: reconstruct_def Let_def not_le not_less split: if_splits)

text \<open>
  C7: A truncated packet number is reconstructed to the nearest candidate. Whenever \<open>reconstruct\<close>
  succeeds its result is a packet number, has the truncated value as its low bits, and no number
  with the same low bits is closer to the expected one.
\<close>

theorem reconstruct_nearest:
  assumes "reconstruct t bits E = Inr r"
  shows "unat r < 2 ^ 62 \<and> unat r mod 2 ^ unat bits = unat t
    \<and> (\<forall>n. n mod 2 ^ unat bits = unat t \<longrightarrow>
          \<bar>int (unat r) - int (unat E)\<bar> \<le> \<bar>int n - int (unat E)\<bar>)"
proof -
  have bits: "bits \<noteq> 0" "bits \<le> 62" and "t < push_bit (unat bits) 1"
    using reconstruct_guards[OF assms] by blast+
  then have b: "0 < unat bits" "unat bits \<le> 62" by (simp_all add: word_le_nat_alt unat_gt_0)
  have t: "unat t < 2 ^ unat bits"
    using \<open>t < _\<close> b(2) by (simp add: push_bit_eq_mult word_less_nat_alt unat_pow2)
  have E: "unat E + 2 ^ (unat bits - 1) < 2 ^ 62"
    using reconstruct_overflow[OF bits t, of E] assms by (cases "2 ^ 62 \<le> unat E + 2 ^ (unat bits - 1)") simp_all
  have even: "even ((2 :: nat) ^ unat bits)" using b(1) by simp
  have r: "unat r = nearest (unat E) (unat t) (2 ^ unat bits)" "unat r < 2 ^ 62"
    using reconstruct_eq[OF bits t E] assms by auto
  show ?thesis
    using r(2) nearest_mod[OF t] nearest_is_nearest[OF t even] unfolding r(1) by blast
qed

theorem reconstruct_nearest_witness:
  "reconstruct 0x9B32 16 0xA82F30EB = Inr 0xA82F9B32
   \<and> unat (0xA82F9B32 :: u64) mod 2 ^ unat (16 :: u32) = unat (0x9B32 :: u64)"
proof -
  have r: "reconstruct 0x9B32 16 0xA82F30EB = Inr 0xA82F9B32"
    by (simp add: reconstruct_def MAX_PACKET_NUMBER_def Let_def u64_saturating_add_def
        u64_saturating_sub_def)
  show ?thesis using r reconstruct_nearest[OF r] by blast
qed

text \<open>
  C38: Packet-number round trip: a number within half a window of the expected one is recovered
  from its low bits, for every width from 1 to 62 bits.
\<close>

theorem reconstruct_roundtrip:
  assumes "bits \<noteq> 0" and "bits \<le> 62" and "unat E + 2 ^ (unat bits - 1) < 2 ^ 62"
    and "unat E < unat n + 2 ^ (unat bits - 1)" and "unat n < unat E + 2 ^ (unat bits - 1)"
  shows "reconstruct (of_nat (unat n mod 2 ^ unat bits)) bits E = Inr n"
  by (rule reconstruct_back[OF assms])

theorem reconstruct_roundtrip_witness:
  "reconstruct (of_nat (unat (1000003 :: u64) mod 2 ^ unat (8 :: u32))) 8 1000000 = Inr 1000003"
  by (rule reconstruct_roundtrip) simp_all

end
