(* ===== verification/Byte_String.thy ===== *)
theory Byte_String
  imports Varint
begin

text \<open>
  \<open>crates/umc-wire/src/bytes.rs\<close>: length-prefixed byte strings with a per-field limit.
  \<open>usize\<close> is 64 bits wide, so \<open>len as usize\<close> is the value of the word.
\<close>

section \<open>Model\<close>

datatype BytesError = VarintTooLarge | LengthExceedsLimit | Truncated

definition bytes_encode :: "bytes \<Rightarrow> bytes \<Rightarrow> nat \<Rightarrow> BytesError + bytes" where
  "bytes_encode out value limit =
     (if length value > limit then Inl BytesError.LengthExceedsLimit
      else bindR (map_err (\<lambda>_. VarintTooLarge) (varint_encode_into out (of_nat (length value))))
             (\<lambda>out. Inr (out @ value)))"

definition bytes_decode :: "bytes \<Rightarrow> nat \<Rightarrow> BytesError + bytes \<times> nat" where
  "bytes_decode buf limit =
     bindR (map_err (\<lambda>_. BytesError.Truncated) (varint_decode buf)) (\<lambda>(len, n).
       if len > of_nat limit then Inl BytesError.LengthExceedsLimit
       else let len = unat len in
         bindR (ok_or (usize_checked_add n len) BytesError.Truncated) (\<lambda>total.
           if length buf < total then Inl BytesError.Truncated
           else Inr (take (total - n) (drop n buf), total)))"

text \<open>The field a value in range is written as.\<close>

definition bytes_field :: "bytes \<Rightarrow> bytes" where
  "bytes_field value = varint_bytes (of_nat (length value)) @ value"

section \<open>Laws\<close>

lemma of_nat_le_MAX_VARINT: "n < 2 ^ 62 \<Longrightarrow> (of_nat n :: u64) \<le> MAX_VARINT"
  by (simp add: unat_le_simps unat_of_nat take_bit_nat_eq_self)

lemma unat_of_nat_62: "n < 2 ^ 62 \<Longrightarrow> unat (of_nat n :: u64) = n"
  by (simp add: unat_of_nat take_bit_nat_eq_self)

lemma not_of_nat_less: "n < 2 ^ 62 \<Longrightarrow> \<not> of_nat n < (x :: u64) \<longleftrightarrow> unat x \<le> n"
  by (auto simp: word_less_nat_alt unat_of_nat_62)

lemma bytes_encode_eq:
  assumes "limit < 2 ^ 62"
  shows "bytes_encode out value limit =
    (if length value \<le> limit then Inr (out @ bytes_field value)
     else Inl BytesError.LengthExceedsLimit)"
  using assms of_nat_le_MAX_VARINT[of "length value"]
  by (auto simp: bytes_encode_def varint_encode_into_eq bytes_field_def)

lemma bytes_decode_field [codec_run]:
  assumes "limit < 2 ^ 62" and "length value \<le> limit"
  shows "bytes_decode (bytes_field value @ rest) limit = Inr (value, length (bytes_field value))"
proof -
  let ?l = "of_nat (length value) :: u64"
  have small: "length value < 2 ^ 62" using assms by simp
  have "length (varint_bytes ?l) \<le> 8"
    using varint_bytes_length[OF of_nat_le_MAX_VARINT[OF small]] by auto
  then have "usize_checked_add (length (varint_bytes ?l)) (length value)
           = Some (length (varint_bytes ?l) + length value)"
    using small by (simp add: usize_checked_add_def)
  then show ?thesis
    using assms small
    by (simp add: bytes_decode_def bytes_field_def codec_run of_nat_le_MAX_VARINT
        unat_of_nat_62 word_less_nat_alt)
qed

lemma bytes_decode_canonical:
  assumes "limit < 2 ^ 62" and "bytes_decode buf limit = Inr (value, n)"
  shows "length value \<le> limit \<and> n = length (bytes_field value) \<and> buf = bytes_field value @ drop n buf"
proof -
  obtain len k where dec: "varint_decode buf = Inr (len, k)"
    and lim: "\<not> of_nat limit < len" and tot: "k + unat len \<le> length buf"
    and val: "value = take (unat len) (drop k buf)" and n: "n = k + unat len"
    using assms(2)
    by (auto simp: bytes_decode_def bindR_Inr_iff Let_def usize_checked_add_def split: if_splits)
  have canon: "len \<le> MAX_VARINT" "k = length (varint_bytes len)"
    "buf = varint_bytes len @ drop k buf"
    using varint_decode_canonical[OF dec] by auto
  have lv: "length value = unat len" using tot by (simp add: val)
  then have ll: "of_nat (length value) = len" by simp
  have "unat len \<le> limit" using lim assms(1) by (simp add: word_less_nat_alt unat_of_nat_62)
  moreover have "drop k buf = value @ drop n buf"
    unfolding val n using append_take_drop_id[of "unat len" "drop k buf"] by (simp add: add.commute)
  ultimately show ?thesis
    using canon lv by (simp add: bytes_field_def ll n)
qed

lemma bytes_decode_iff:
  assumes "limit < 2 ^ 62"
  shows "bytes_decode buf limit = Inr (value, n) \<longleftrightarrow>
    length value \<le> limit \<and> n = length (bytes_field value) \<and> buf = bytes_field value @ drop n buf"
  using bytes_decode_canonical[OF assms] bytes_decode_field[OF assms] by metis

lemma bytes_decode_bound:
  assumes "limit < 2 ^ 62" and "bytes_decode buf limit = Inr (value, n)"
  shows "0 < n \<and> n \<le> length buf \<and> length value \<le> n"
proof -
  have *: "length value \<le> limit" "n = length (bytes_field value)"
    "buf = bytes_field value @ drop n buf"
    using bytes_decode_canonical[OF assms] by auto
  have "length value < 2 ^ 62" using * assms(1) by simp
  then have "varint_bytes (of_nat (length value)) \<noteq> []"
    by (intro varint_bytes_nonempty of_nat_le_MAX_VARINT)
  moreover have "n \<le> length buf" using arg_cong[OF *(3), of length] *(2) by simp
  ultimately show ?thesis using *(2) by (simp add: bytes_field_def)
qed

section \<open>Properties\<close>

text \<open>
  Byte strings: for any limit below \<open>2 ^ 62\<close> the decoder returns a string and a length exactly
  when the encoder, with the same limit, accepts that string and its output of that length stands
  at the front of the buffer.
\<close>

theorem bytes_codec_exact:
  assumes "limit < 2 ^ 62"
  shows "bytes_decode buf limit = Inr (value, n) \<longleftrightarrow>
      (\<exists>bs rest. bytes_encode [] value limit = Inr bs \<and> n = length bs \<and> buf = bs @ rest)"
proof
  assume "bytes_decode buf limit = Inr (value, n)"
  then have "length value \<le> limit" and "n = length (bytes_field value)"
      and "buf = bytes_field value @ drop n buf"
    using bytes_decode_canonical[OF assms] by blast+
  moreover from this(1) have "bytes_encode [] value limit = Inr (bytes_field value)"
    by (simp add: bytes_encode_eq[OF assms])
  ultimately show "\<exists>bs rest. bytes_encode [] value limit = Inr bs \<and> n = length bs \<and> buf = bs @ rest"
    by blast
qed (auto simp: bytes_encode_eq[OF assms] bytes_decode_field[OF assms] split: if_splits)

theorem bytes_codec_exact_witness:
  "bytes_decode [2, 9, 8, 7] 16 = Inr ([9, 8], 3)"
proof -
  have e: "bytes_encode [] [9, 8] 16 = Inr [2, 9, 8]" by code_simp
  show ?thesis
    by (rule bytes_codec_exact[of 16, THEN iffD2]) (auto intro!: exI[of _ "[2, 9, 8]"] simp: e)
qed

end
