(* ===== verification/Packet_Spaces.thy ===== *)
theory Packet_Spaces
  imports Packet_Number Byte_String
begin

text \<open>
  \<open>crates/umc-session/src/spaces.rs\<close>: packet-number spaces, their allocation counter and the
  replay window. An operation that mutates its receiver returns the new state with its result.
  The window is only ever built with \<open>DEFAULT_REPLAY_WINDOW\<close> slots; indexing panics for no
  window of positive size, which the invariant \<open>replay_inv\<close> records.
\<close>

section \<open>Model\<close>

datatype PacketSpace = Initial | Handshake | SessionData | PathControl | RelayData

definition DEFAULT_REPLAY_WINDOW :: u64 where "DEFAULT_REPLAY_WINDOW = 4096"

record ReplayWindow =
  rw_size :: u64
  rw_bits :: "u8 list"
  rw_largest :: u64

definition u64_div_ceil :: "u64 \<Rightarrow> u64 \<Rightarrow> u64" where
  "u64_div_ceil a b = (if a mod b > 0 then a div b + 1 else a div b)"

definition ReplayWindow_new :: "u64 \<Rightarrow> ReplayWindow" where
  "ReplayWindow_new n =
     \<lparr>rw_size = n, rw_bits = replicate (unat (u64_div_ceil n 8)) 0, rw_largest = 0\<rparr>"

definition ReplayWindow_get :: "ReplayWindow \<Rightarrow> u64 \<Rightarrow> bool" where
  "ReplayWindow_get w pn =
     (let pos = unat (pn mod rw_size w) in
      drop_bit (pos mod 8) (rw_bits w ! (pos div 8)) AND 1 = 1)"

definition ReplayWindow_set :: "ReplayWindow \<Rightarrow> u64 \<Rightarrow> ReplayWindow" where
  "ReplayWindow_set w pn =
     (let pos = unat (pn mod rw_size w) in
      w\<lparr>rw_bits := (rw_bits w)[pos div 8 := rw_bits w ! (pos div 8) OR push_bit (pos mod 8) 1]\<rparr>)"

definition check_and_mark :: "ReplayWindow \<Rightarrow> u64 \<Rightarrow> bool \<times> ReplayWindow" where
  "check_and_mark w pn =
     (if u64_saturating_add pn (rw_size w) \<le> rw_largest w then (False, w)
      else if pn \<le> rw_largest w \<and> ReplayWindow_get w pn then (False, w)
      else
        let w = (if pn > rw_largest w then w\<lparr>rw_largest := pn\<rparr> else w) in
        (True, ReplayWindow_set w pn))"

record PacketSpaceState =
  pss_space :: PacketSpace
  pss_next_packet_number :: u64
  pss_largest_received :: u64
  pss_replay :: ReplayWindow

datatype SpaceError = PacketNumberExhausted | Pn PnError | DuplicateOrStale

definition PacketSpaceState_new :: "PacketSpace \<Rightarrow> PacketSpaceState" where
  "PacketSpaceState_new space =
     \<lparr>pss_space = space, pss_next_packet_number = 0, pss_largest_received = 0,
      pss_replay = ReplayWindow_new DEFAULT_REPLAY_WINDOW\<rparr>"

definition allocate_packet_number :: "PacketSpaceState \<Rightarrow> (SpaceError + u64) \<times> PacketSpaceState" where
  "allocate_packet_number s =
     (if pss_next_packet_number s > MAX_PACKET_NUMBER then (Inl PacketNumberExhausted, s)
      else (Inr (pss_next_packet_number s),
            s\<lparr>pss_next_packet_number := pss_next_packet_number s + 1\<rparr>))"

definition admit_reconstructed ::
    "PacketSpaceState \<Rightarrow> u64 \<Rightarrow> (SpaceError + u64) \<times> PacketSpaceState" where
  "admit_reconstructed s pn =
     (let (ok, replay) = check_and_mark (pss_replay s) pn;
          s = s\<lparr>pss_replay := replay\<rparr> in
      if \<not> ok then (Inl DuplicateOrStale, s)
      else if pn > pss_largest_received s then (Inr pn, s\<lparr>pss_largest_received := pn\<rparr>)
      else (Inr pn, s))"

definition admit_received ::
    "PacketSpaceState \<Rightarrow> u64 \<Rightarrow> u32 \<Rightarrow> (SpaceError + u64) \<times> PacketSpaceState" where
  "admit_received s truncated bits =
     (let expected = u64_saturating_add (pss_largest_received s) 1 in
      case reconstruct truncated bits expected of
        Inl e \<Rightarrow> (Inl (Pn e), s)
      | Inr pn \<Rightarrow>
          (let (ok, replay) = check_and_mark (pss_replay s) pn;
               s = s\<lparr>pss_replay := replay\<rparr> in
           if \<not> ok then (Inl DuplicateOrStale, s)
           else if pn > pss_largest_received s then (Inr pn, s\<lparr>pss_largest_received := pn\<rparr>)
           else (Inr pn, s)))"

definition replay_bytes :: "PacketSpaceState \<Rightarrow> nat" where
  "replay_bytes s = length (rw_bits (pss_replay s))"

section \<open>Slots of the window\<close>

definition replay_inv :: "ReplayWindow \<Rightarrow> bool" where
  "replay_inv w \<longleftrightarrow> 0 < rw_size w \<and> length (rw_bits w) = unat (u64_div_ceil (rw_size w) 8)"

lemma div_ceil_8_bound:
  assumes "p < unat s"
  shows "p div 8 < unat (u64_div_ceil s 8)"
proof (cases "unat s mod 8 = 0")
  case True
  then have "p < unat s div 8 * 8" using assms by (simp add: mod_eq_0_iff_dvd)
  then have "p div 8 < unat s div 8" using div_less_iff_less_mult[of 8 p "unat s div 8"] by simp
  then show ?thesis using True by (simp add: u64_div_ceil_def word_less_nat_alt unat_mod unat_div)
next
  case False
  have "unat (s div 8 + 1) = Suc (unat s div 8)"
    using unat_u64_less[of s] by (simp add: unat_word_ariths unat_div)
  moreover have "p div 8 \<le> unat s div 8" using assms by (intro div_le_mono) simp
  ultimately show ?thesis using False by (simp add: u64_div_ceil_def word_less_nat_alt unat_mod)
qed

lemma replay_slot_bound:
  assumes "replay_inv w"
  shows "unat (pn mod rw_size w) div 8 < length (rw_bits w)"
proof -
  have "unat (pn mod rw_size w) < unat (rw_size w)"
    using assms by (simp add: replay_inv_def unat_mod word_less_nat_alt)
  from div_ceil_8_bound[OF this] show ?thesis using assms by (simp add: replay_inv_def)
qed

lemma slot_bit: "drop_bit k (b :: u8) AND 1 = 1 \<longleftrightarrow> bit b k"
  by (auto simp: bit_iff_odd_drop_bit and_one_eq odd_iff_mod_2_eq_one)

lemma ReplayWindow_get_bit:
  "ReplayWindow_get w pn \<longleftrightarrow>
     bit (rw_bits w ! (unat (pn mod rw_size w) div 8)) (unat (pn mod rw_size w) mod 8)"
  by (simp add: ReplayWindow_get_def Let_def slot_bit)

lemma ReplayWindow_get_set:
  assumes "replay_inv w"
  shows "ReplayWindow_get (ReplayWindow_set w pn) q \<longleftrightarrow>
     pn mod rw_size w = q mod rw_size w \<or> ReplayWindow_get w q"
proof -
  let ?p = "unat (pn mod rw_size w)" and ?q = "unat (q mod rw_size w)"
  have eq: "?p = ?q \<longleftrightarrow> ?p div 8 = ?q div 8 \<and> ?p mod 8 = ?q mod 8"
    by (metis div_mult_mod_eq)
  show ?thesis
    using replay_slot_bound[OF assms, of pn] replay_slot_bound[OF assms, of q] eq
    by (cases "?p div 8 = ?q div 8")
      (auto simp: ReplayWindow_get_bit ReplayWindow_set_def Let_def bit_simps word_unat_eq_iff)
qed

section \<open>The window and the packets it has let through\<close>

text \<open>
  \<open>replay_hist w A\<close>: \<open>w\<close> is the window after exactly the packet numbers \<open>A\<close> were accepted. A
  slot is set when some accepted number falls on it; no slot is ever cleared.
\<close>

definition replay_hist :: "ReplayWindow \<Rightarrow> u64 set \<Rightarrow> bool" where
  "replay_hist w A \<longleftrightarrow> replay_inv w
     \<and> (\<forall>q. ReplayWindow_get w q \<longleftrightarrow> (\<exists>a \<in> A. a mod rw_size w = q mod rw_size w))
     \<and> (\<forall>a \<in> A. a \<le> rw_largest w) \<and> rw_largest w \<in> insert 0 A"

lemma replay_hist_new: "0 < n \<Longrightarrow> replay_hist (ReplayWindow_new n) {}"
proof -
  assume "0 < n"
  then have inv: "replay_inv (ReplayWindow_new n)" by (simp add: replay_inv_def ReplayWindow_new_def)
  have "\<not> ReplayWindow_get (ReplayWindow_new n) q" for q
    using replay_slot_bound[OF inv, of q] by (simp add: ReplayWindow_get_bit ReplayWindow_new_def)
  with inv show ?thesis by (simp add: replay_hist_def ReplayWindow_new_def)
qed

lemma saturating_above: "(a :: u64) > l \<Longrightarrow> \<not> u64_saturating_add a b \<le> l"
proof -
  assume "a > l"
  moreover have "unat a \<le> unat (u64_saturating_add a b)"
    using unat_u64_less[of a] by (simp add: unat_u64_saturating_add)
  ultimately show ?thesis by (simp add: word_le_nat_alt word_less_nat_alt)
qed

lemma check_and_mark_accepts:
  assumes "replay_hist w A"
  shows "fst (check_and_mark w pn) \<longleftrightarrow>
    pn > rw_largest w
    \<or> \<not> u64_saturating_add pn (rw_size w) \<le> rw_largest w
      \<and> (\<forall>a \<in> A. a mod rw_size w \<noteq> pn mod rw_size w)"
  using assms saturating_above[of "rw_largest w" pn "rw_size w"]
  by (auto simp: check_and_mark_def replay_hist_def Let_def not_le)

lemma check_and_mark_reject: "check_and_mark w pn = (False, w') \<Longrightarrow> w' = w"
  by (auto simp: check_and_mark_def Let_def split: if_splits)

lemma check_and_mark_size: "rw_size (snd (check_and_mark w pn)) = rw_size w"
  by (simp add: check_and_mark_def ReplayWindow_set_def Let_def)

lemma check_and_mark_accept:
  assumes "replay_hist w A" and "check_and_mark w pn = (True, w')"
  shows "replay_hist w' (insert pn A)" and "pn \<notin> A"
proof -
  let ?w = "if pn > rw_largest w then w\<lparr>rw_largest := pn\<rparr> else w"
  have w': "w' = ReplayWindow_set ?w pn"
    using assms(2) by (auto simp: check_and_mark_def Let_def split: if_splits)
  have inv: "replay_inv ?w" using assms(1) by (simp add: replay_hist_def replay_inv_def)
  have "ReplayWindow_get ?w q = ReplayWindow_get w q" for q
    by (simp add: ReplayWindow_get_def)
  then have "ReplayWindow_get w' q \<longleftrightarrow> (\<exists>a \<in> insert pn A. a mod rw_size w = q mod rw_size w)" for q
    using assms(1) ReplayWindow_get_set[OF inv, of pn q]
    by (auto simp: w' replay_hist_def)
  moreover have "rw_size w' = rw_size w" "length (rw_bits w') = length (rw_bits w)"
      "rw_largest w' = max pn (rw_largest w)"
    by (auto simp: w' ReplayWindow_set_def Let_def max_def)
  ultimately show "replay_hist w' (insert pn A)"
    using assms(1) by (auto simp: replay_hist_def replay_inv_def max_def)
  have "fst (check_and_mark w pn)" using assms(2) by simp
  then show "pn \<notin> A"
    using assms(1) unfolding check_and_mark_accepts[OF assms(1)]
    by (auto simp: replay_hist_def)
qed

text \<open>
  A filter lets a key through at most once when each admission is new to the history and each
  refusal leaves the history as it was.
\<close>

fun run_filter :: "('s \<Rightarrow> 'a \<Rightarrow> 'k option \<times> 's) \<Rightarrow> 's \<Rightarrow> 'a list \<Rightarrow> 'k list \<times> 's" where
  "run_filter step s [] = ([], s)"
| "run_filter step s (a # as) =
     (let (r, s) = step s a; (acc, s) = run_filter step s as in
      (case r of None \<Rightarrow> acc | Some k \<Rightarrow> k # acc, s))"

locale at_most_once =
  fixes step :: "'s \<Rightarrow> 'a \<Rightarrow> 'k option \<times> 's"
    and hist :: "'s \<Rightarrow> 'k set \<Rightarrow> bool"
  assumes admitted: "hist s A \<Longrightarrow> step s a = (Some k, s') \<Longrightarrow> k \<notin> A \<and> hist s' (insert k A)"
    and refused: "hist s A \<Longrightarrow> step s a = (None, s') \<Longrightarrow> hist s' A"
begin

lemma run_once:
  "hist s A \<Longrightarrow> run_filter step s as = (acc, s') \<Longrightarrow>
   hist s' (A \<union> set acc) \<and> distinct acc \<and> set acc \<inter> A = {}"
proof (induction as arbitrary: s A acc)
  case (Cons a as)
  obtain r s1 acc1 where step: "step s a = (r, s1)" "run_filter step s1 as = (acc1, s')"
    and acc: "acc = (case r of None \<Rightarrow> acc1 | Some k \<Rightarrow> k # acc1)"
    using Cons.prems(2) by (auto split: prod.splits)
  show ?case
  proof (cases r)
    case (Some k)
    then show ?thesis
      using Cons.IH[of s1 "insert k A" acc1] admitted[OF Cons.prems(1), of a k s1] step acc by auto
  next
    case None
    then show ?thesis
      using Cons.IH[of s1 A acc1] refused[OF Cons.prems(1), of a s1] step acc by auto
  qed
qed simp

end

definition replay_step :: "ReplayWindow \<Rightarrow> u64 \<Rightarrow> u64 option \<times> ReplayWindow" where
  "replay_step w pn = (let (ok, w) = check_and_mark w pn in (if ok then Some pn else None, w))"

interpretation replay: at_most_once replay_step replay_hist
  by unfold_locales
    (auto simp: replay_step_def split: prod.splits if_splits
      dest: check_and_mark_accept check_and_mark_reject)

section \<open>Runs of a packet space\<close>

datatype SpaceOp = Allocate | Admit u64 u32 | AdmitReconstructed u64

text \<open>The packet numbers handed out and the packet numbers let in, in order, by a run.\<close>

fun space_run :: "PacketSpaceState \<Rightarrow> SpaceOp list \<Rightarrow> u64 list \<times> u64 list \<times> PacketSpaceState" where
  "space_run s [] = ([], [], s)"
| "space_run s (Allocate # ops) =
     (let (r, s) = allocate_packet_number s; (sent, recv, s) = space_run s ops in
      (case r of Inl _ \<Rightarrow> sent | Inr pn \<Rightarrow> pn # sent, recv, s))"
| "space_run s (Admit t bits # ops) =
     (let (r, s) = admit_received s t bits; (sent, recv, s) = space_run s ops in
      (sent, case r of Inl _ \<Rightarrow> recv | Inr pn \<Rightarrow> pn # recv, s))"
| "space_run s (AdmitReconstructed pn # ops) =
     (let (r, s) = admit_reconstructed s pn; (sent, recv, s) = space_run s ops in
      (sent, case r of Inl _ \<Rightarrow> recv | Inr pn \<Rightarrow> pn # recv, s))"

definition space_inv :: "PacketSpaceState \<Rightarrow> nat \<Rightarrow> u64 set \<Rightarrow> bool" where
  "space_inv s k A \<longleftrightarrow> unat (pss_next_packet_number s) = k \<and> k \<le> 2 ^ 62
     \<and> replay_hist (pss_replay s) A \<and> pss_largest_received s = rw_largest (pss_replay s)"

lemma space_inv_new: "space_inv (PacketSpaceState_new sp) 0 {}"
  using replay_hist_new[of DEFAULT_REPLAY_WINDOW]
  by (simp add: space_inv_def PacketSpaceState_new_def DEFAULT_REPLAY_WINDOW_def ReplayWindow_new_def)

lemma allocate_step:
  assumes "space_inv s k A"
  shows "allocate_packet_number s = (if k < 2 ^ 62
    then (Inr (of_nat k), s\<lparr>pss_next_packet_number := of_nat k + 1\<rparr>)
    else (Inl PacketNumberExhausted, s))"
    and "k < 2 ^ 62 \<Longrightarrow> space_inv (s\<lparr>pss_next_packet_number := of_nat k + 1\<rparr>) (Suc k) A"
proof -
  have n: "pss_next_packet_number s = of_nat k" using assms by (auto simp: space_inv_def)
  have "k \<le> 2 ^ 62" using assms by (simp add: space_inv_def)
  then have u: "unat (of_nat k :: u64) = k" by (simp add: unat_of_nat take_bit_nat_eq_self)
  then show "allocate_packet_number s = (if k < 2 ^ 62
      then (Inr (of_nat k), s\<lparr>pss_next_packet_number := of_nat k + 1\<rparr>)
      else (Inl PacketNumberExhausted, s))"
    by (auto simp: allocate_packet_number_def n word_less_nat_alt unat_MAX_PACKET_NUMBER)
  show "space_inv (s\<lparr>pss_next_packet_number := of_nat k + 1\<rparr>) (Suc k) A" if "k < 2 ^ 62"
    using assms that u by (simp add: space_inv_def unat_word_ariths)
qed

lemma check_and_mark_largest:
  "check_and_mark w pn = (True, w') \<Longrightarrow> rw_largest w' = max pn (rw_largest w)"
  by (auto simp: check_and_mark_def ReplayWindow_set_def Let_def max_def split: if_splits)

lemma admit_reconstructed_step:
  assumes "space_inv s k A" and "admit_reconstructed s pn = (r, s')"
  shows "case r of Inl e \<Rightarrow> e = DuplicateOrStale \<and> s' = s
    | Inr q \<Rightarrow> q = pn \<and> pn \<notin> A \<and> space_inv s' k (insert pn A)"
proof -
  obtain ok w where c: "check_and_mark (pss_replay s) pn = (ok, w)" by fastforce
  have hist: "replay_hist (pss_replay s) A" using assms(1) by (simp add: space_inv_def)
  show ?thesis
  proof (cases ok)
    case True
    then show ?thesis
      using assms c check_and_mark_accept[OF hist, of pn w] check_and_mark_largest[of "pss_replay s" pn w]
      by (auto simp: admit_reconstructed_def space_inv_def max_def Let_def split: if_splits)
  next
    case False
    then show ?thesis
      using assms c check_and_mark_reject[of "pss_replay s" pn w]
      by (auto simp: admit_reconstructed_def Let_def)
  qed
qed

lemma admit_received_reconstructed:
  "admit_received s t bits = (case reconstruct t bits (u64_saturating_add (pss_largest_received s) 1) of
     Inl e \<Rightarrow> (Inl (Pn e), s) | Inr pn \<Rightarrow> admit_reconstructed s pn)"
  by (cases "reconstruct t bits (u64_saturating_add (pss_largest_received s) 1)")
    (simp_all add: admit_received_def admit_reconstructed_def)

lemma admit_received_step:
  assumes "space_inv s k A" and "admit_received s t bits = (r, s')"
  shows "case r of Inl e \<Rightarrow> s' = s | Inr q \<Rightarrow> q \<notin> A \<and> space_inv s' k (insert q A)"
proof (cases "reconstruct t bits (u64_saturating_add (pss_largest_received s) 1)")
  case (Inr pn)
  then show ?thesis
    using assms(2) admit_reconstructed_step[OF assms(1), of pn r s']
    by (auto simp: admit_received_reconstructed split: sum.splits)
qed (use assms in \<open>auto simp: admit_received_reconstructed\<close>)

lemma space_run_inv:
  assumes "space_inv s k A" and "space_run s ops = (sent, recv, s')"
  shows "sent = map of_nat [k..<k + length sent] \<and> distinct recv \<and> set recv \<inter> A = {}
    \<and> space_inv s' (k + length sent) (A \<union> set recv)"
  using assms
proof (induction s ops arbitrary: k A sent recv rule: space_run.induct)
  case (2 s ops)
  show ?case
  proof (cases "k < 2 ^ 62")
    case True
    obtain sent' where r: "space_run (s\<lparr>pss_next_packet_number := of_nat k + 1\<rparr>) ops = (sent', recv, s')"
      and sent: "sent = of_nat k # sent'"
      using 2(3) True by (auto simp: allocate_step(1)[OF 2(2)] split: prod.splits)
    have "[k..<k + length sent] = k # [Suc k..<Suc k + length sent']"
      by (simp add: sent upt_conv_Cons del: upt_Suc)
    then show ?thesis
      using 2(1)[OF _ _ allocate_step(2)[OF 2(2) True] r] True
      by (simp add: allocate_step(1)[OF 2(2)] sent del: upt_Suc)
  next
    case False
    then show ?thesis
      using 2(1)[of "(Inl PacketNumberExhausted, s)" "Inl PacketNumberExhausted" s k A sent recv] 2(2,3)
      by (auto simp: allocate_step(1)[OF 2(2)] split: prod.splits)
  qed
next
  case (3 s t bits ops)
  obtain r s1 recv' where a: "admit_received s t bits = (r, s1)"
      and run: "space_run s1 ops = (sent, recv', s')"
      and recv: "recv = (case r of Inl _ \<Rightarrow> recv' | Inr pn \<Rightarrow> pn # recv')"
    using 3(3) by (auto split: prod.splits)
  show ?case
    using admit_received_step[OF 3(2) a] 3(1)[OF a[symmetric] refl, of k A sent recv']
      3(1)[OF a[symmetric] refl, of k "insert _ A" sent recv'] 3(2) run recv
    by (auto split: sum.splits)
next
  case (4 s pn ops)
  obtain r s1 recv' where a: "admit_reconstructed s pn = (r, s1)"
      and run: "space_run s1 ops = (sent, recv', s')"
      and recv: "recv = (case r of Inl _ \<Rightarrow> recv' | Inr pn \<Rightarrow> pn # recv')"
    using 4(3) by (auto split: prod.splits)
  show ?case
    using admit_reconstructed_step[OF 4(2) a] 4(1)[OF a[symmetric] refl, of k A sent recv']
      4(1)[OF a[symmetric] refl, of k "insert pn A" sent recv'] 4(2) run recv
    by (auto split: sum.splits)
qed simp

definition admit_step :: "PacketSpaceState \<Rightarrow> u64 \<times> u32 \<Rightarrow> u64 option \<times> PacketSpaceState" where
  "admit_step s p = (let (r, s) = admit_received s (fst p) (snd p) in
     (case r of Inl _ \<Rightarrow> None | Inr pn \<Rightarrow> Some pn, s))"

lemma admit_stepE:
  assumes "admit_step s p = (o', s')"
  obtains r where "admit_received s (fst p) (snd p) = (r, s')"
    and "o' = (case r of Inl _ \<Rightarrow> None | Inr pn \<Rightarrow> Some pn)"
  using assms by (cases "admit_received s (fst p) (snd p)") (simp add: admit_step_def)

interpretation admission: at_most_once admit_step "\<lambda>s A. \<exists>k. space_inv s k A"
proof
  fix s A p k s'
  assume inv: "\<exists>n. space_inv s n A" and "admit_step s p = (Some k, s')"
  then obtain r where "admit_received s (fst p) (snd p) = (r, s')" "r = Inr k"
    by (elim admit_stepE) (simp split: sum.splits)
  with inv show "k \<notin> A \<and> (\<exists>n. space_inv s' n (insert k A))"
    using admit_received_step by fastforce
next
  fix s A p s'
  assume inv: "\<exists>n. space_inv s n A" and "admit_step s p = (None, s')"
  then obtain r e where "admit_received s (fst p) (snd p) = (r, s')" "r = Inl e"
    by (elim admit_stepE) (simp split: sum.splits)
  with inv show "\<exists>n. space_inv s' n A"
    using admit_received_step by fastforce
qed

section \<open>Properties\<close>

text \<open>
  C9: Packet numbers are used once. In any run of a fresh packet space the numbers handed out for
  sending are 0, 1, 2 and so on, all of them packet numbers, and no number is let in from the
  network twice.
\<close>

theorem packet_numbers_once:
  assumes "space_run (PacketSpaceState_new sp) ops = (sent, recv, s)"
  shows "sent = map of_nat [0..<length sent] \<and> length sent \<le> 2 ^ 62
    \<and> distinct sent \<and> distinct recv"
proof -
  define n where "n = length sent"
  have run: "sent = map of_nat [0..<n] \<and> distinct recv \<and> set recv \<inter> {} = {}
      \<and> space_inv s n ({} \<union> set recv)"
    using space_run_inv[OF space_inv_new assms] unfolding n_def add_0 .
  then have n: "n \<le> 2 ^ 62" by (simp add: space_inv_def)
  have "inj_on (of_nat :: nat \<Rightarrow> u64) {0..<n}"
    using n unat_of_nat_62 by (intro inj_onI) (metis atLeastLessThan_iff order_less_le_trans)
  then have "distinct (map (of_nat :: nat \<Rightarrow> u64) [0..<n])" by (simp add: distinct_map)
  with run n show ?thesis unfolding n_def[symmetric] by simp
qed

theorem packet_numbers_once_witness:
  "\<exists>s. space_run (PacketSpaceState_new SessionData)
     [Allocate, AdmitReconstructed 5, Allocate, AdmitReconstructed 5, AdmitReconstructed 3]
       = ([0, 1], [5, 3], s)
   \<and> distinct [0, 1 :: u64] \<and> distinct [5, 3 :: u64]"
proof -
  let ?ops = "[Allocate, AdmitReconstructed 5, Allocate, AdmitReconstructed 5, AdmitReconstructed 3]"
  have "\<exists>s. space_run (PacketSpaceState_new SessionData) ?ops = ([0, 1], [5, 3], s)"
    by (simp add: PacketSpaceState_new_def allocate_packet_number_def admit_reconstructed_def
        check_and_mark_def ReplayWindow_new_def ReplayWindow_get_def ReplayWindow_set_def Let_def
        DEFAULT_REPLAY_WINDOW_def MAX_PACKET_NUMBER_def u64_saturating_add_def u64_div_ceil_def)
  then obtain s where s: "space_run (PacketSpaceState_new SessionData) ?ops = ([0, 1], [5, 3], s)"
    by blast
  show ?thesis using s packet_numbers_once[OF s] by blast
qed

text \<open>
  C32: What the replay window lets through. After any arrivals, of which it accepted \<open>acc\<close>, a packet
  number is accepted when it is above the largest accepted so far, or when it is within the window
  and no accepted number, however old, shares its slot. Slots are never cleared.
\<close>

theorem replay_window_accepts:
  assumes "run_filter replay_step (ReplayWindow_new DEFAULT_REPLAY_WINDOW) pns = (acc, w)"
  shows "fst (check_and_mark w pn) \<longleftrightarrow>
    pn > rw_largest w
    \<or> \<not> u64_saturating_add pn (rw_size w) \<le> rw_largest w
      \<and> (\<forall>a \<in> set acc. a mod rw_size w \<noteq> pn mod rw_size w)"
proof -
  have "replay_hist (ReplayWindow_new DEFAULT_REPLAY_WINDOW) {}"
    by (rule replay_hist_new) (simp add: DEFAULT_REPLAY_WINDOW_def)
  from replay.run_once[OF this assms] have "replay_hist w (set acc)" by simp
  from check_and_mark_accepts[OF this] show ?thesis .
qed

theorem replay_window_accepts_witness:
  "\<exists>w. run_filter replay_step (ReplayWindow_new DEFAULT_REPLAY_WINDOW) [5, 4106] = ([5, 4106], w)
     \<and> rw_largest w = 4106 \<and> \<not> fst (check_and_mark w 4101)"
proof -
  have "\<exists>w. run_filter replay_step (ReplayWindow_new DEFAULT_REPLAY_WINDOW) [5, 4106] = ([5, 4106], w)
      \<and> rw_largest w = 4106 \<and> rw_size w = 4096"
    by (simp add: replay_step_def check_and_mark_def ReplayWindow_new_def ReplayWindow_get_def
        ReplayWindow_set_def Let_def DEFAULT_REPLAY_WINDOW_def u64_saturating_add_def u64_div_ceil_def)
  then obtain w where w: "run_filter replay_step (ReplayWindow_new DEFAULT_REPLAY_WINDOW) [5, 4106]
      = ([5, 4106], w)" "rw_largest w = 4106" "rw_size w = 4096"
    by blast
  have "\<not> fst (check_and_mark w 4101)" using replay_window_accepts[OF w(1), of 4101] w(2,3) by simp
  with w show ?thesis by blast
qed

end
