(* ===== verification/Session_Ack.thy ===== *)
theory Session_Ack
  imports Packet_Spaces "HOL-Library.Multiset"
begin

text \<open>
  \<open>crates/umc-session/src/ack.rs\<close> and \<open>sent_packet.rs\<close>: what a receiver remembers of the packet
  numbers it has seen, the ACK it builds from that, and what a sender makes of an ACK. The
  instants and durations of \<open>crates/umc-types/src/runtime.rs\<close> are milliseconds in a 64-bit word.
\<close>

section \<open>Model\<close>

type_synonym Instant = u64

type_synonym Duration = u64

definition instant_add :: "Instant \<Rightarrow> Duration \<Rightarrow> Instant" where
  "instant_add t d = u64_saturating_add t d"

definition duration_since :: "Instant \<Rightarrow> Instant \<Rightarrow> Duration" where
  "duration_since t earlier = u64_saturating_sub t earlier"

record SentPacket =
  sp_packet_number :: u64
  sp_space :: PacketSpace
  sp_sent_at :: Instant
  sp_size :: nat
  sp_ack_eliciting :: bool
  sp_in_flight :: bool
  sp_key_phase :: u8

definition SentPacket_new ::
    "u64 \<Rightarrow> PacketSpace \<Rightarrow> Instant \<Rightarrow> nat \<Rightarrow> bool \<Rightarrow> u8 \<Rightarrow> SentPacket" where
  "SentPacket_new pn space sent_at sz eliciting phase =
     \<lparr>sp_packet_number = pn, sp_space = space, sp_sent_at = sent_at, sp_size = sz,
      sp_ack_eliciting = eliciting, sp_in_flight = eliciting, sp_key_phase = phase\<rparr>"

definition mark_acked :: "SentPacket \<Rightarrow> SentPacket" where
  "mark_acked p = p\<lparr>sp_in_flight := False\<rparr>"

definition MAX_STORED_RANGES :: nat where [simp]: "MAX_STORED_RANGES = 256"

definition MAX_OUTSTANDING_PACKETS :: nat where [simp]: "MAX_OUTSTANDING_PACKETS = 16384"

record AckReceiveState =
  ars_ranges :: "(u64 \<times> u64) list"
  ars_largest :: "u64 option"
  ars_needs_ack :: bool

definition AckReceiveState_new :: AckReceiveState where
  "AckReceiveState_new = \<lparr>ars_ranges = [], ars_largest = None, ars_needs_ack = False\<rparr>"

text \<open>\<open>VecDeque::insert\<close> and \<open>VecDeque::remove\<close>.\<close>

definition insert_at :: "nat \<Rightarrow> 'a \<Rightarrow> 'a list \<Rightarrow> 'a list" where
  "insert_at i x xs = take i xs @ x # drop i xs"

definition remove_at :: "nat \<Rightarrow> 'a list \<Rightarrow> 'a list" where
  "remove_at i xs = take i xs @ drop (Suc i) xs"

text \<open>The position the scanning loop stops at.\<close>

definition range_index :: "(u64 \<times> u64) list \<Rightarrow> u64 \<Rightarrow> nat" where
  "range_index ranges pn = length (takeWhile (\<lambda>r. snd r < pn) ranges)"

definition merge_left :: "(u64 \<times> u64) list \<Rightarrow> nat \<Rightarrow> (u64 \<times> u64) list" where
  "merge_left rs i =
     (if i > 0 \<and> snd (rs ! (i - 1)) + 1 \<ge> fst (rs ! i) then
        let lo = fst (rs ! (i - 1)); hi = max (snd (rs ! i)) (snd (rs ! (i - 1))) in
        (remove_at i rs)[i - 1 := (lo, hi)]
      else rs)"

definition merge_right :: "(u64 \<times> u64) list \<Rightarrow> nat \<Rightarrow> (u64 \<times> u64) list" where
  "merge_right rs i =
     (if i + 1 < length rs \<and> snd (rs ! i) + 1 \<ge> fst (rs ! (i + 1)) then
        let lo = fst (rs ! i); hi = snd (rs ! (i + 1)) in
        (remove_at i rs)[i := (lo, hi)]
      else rs)"

definition ack_record :: "AckReceiveState \<Rightarrow> u64 \<Rightarrow> AckReceiveState" where
  "ack_record s pn =
     (let s = s\<lparr>ars_needs_ack := True\<rparr>;
          s = (if (case ars_largest s of Some largest \<Rightarrow> pn > largest | None \<Rightarrow> True)
               then s\<lparr>ars_largest := Some pn\<rparr> else s);
          ranges = ars_ranges s;
          i = range_index ranges pn in
      if i < length ranges \<and> fst (ranges ! i) \<le> pn \<and> pn \<le> snd (ranges ! i) then s
      else
        let ranges = insert_at i (pn, pn) ranges;
            ranges = merge_left ranges i;
            ranges = merge_right ranges i in
        s\<lparr>ars_ranges := drop (length ranges - MAX_STORED_RANGES) ranges\<rparr>)"

definition take_needs_ack :: "AckReceiveState \<Rightarrow> bool \<times> AckReceiveState" where
  "take_needs_ack s = (ars_needs_ack s, s\<lparr>ars_needs_ack := False\<rparr>)"

type_synonym AckFields = "u64 \<times> u64 \<times> u64 \<times> (u64 \<times> u64) list"

fun ack_gaps :: "u64 \<Rightarrow> (u64 \<times> u64) list \<Rightarrow> (u64 \<times> u64) list" where
  "ack_gaps prev_low [] = []"
| "ack_gaps prev_low ((low, high) # rs) =
     (u64_saturating_sub prev_low (high + 1), high - low + 1) # ack_gaps low rs"

definition build_ack :: "AckReceiveState \<Rightarrow> u64 \<Rightarrow> AckFields option" where
  "build_ack s ack_delay_ms =
     (case ars_largest s of
        None \<Rightarrow> None
      | Some largest \<Rightarrow>
          if ars_ranges s = [] then None
          else
            let highest = last (ars_ranges s);
                first_len = largest - fst highest + 1 in
            Some (largest, ack_delay_ms, first_len,
                  ack_gaps (fst highest) (drop 1 (rev (ars_ranges s)))))"

type_synonym AckSendState = "SentPacket list"

definition AckSendState_new :: AckSendState where
  "AckSendState_new = []"

definition record_sent :: "AckSendState \<Rightarrow> SentPacket \<Rightarrow> (u64 \<times> nat) option \<times> AckSendState" where
  "record_sent sent p =
     (let (evicted, sent) =
        (if length sent \<ge> MAX_OUTSTANDING_PACKETS then
           (case sent of
              [] \<Rightarrow> (None, sent)
            | oldest # sent \<Rightarrow>
                (if sp_ack_eliciting oldest then Some (sp_packet_number oldest, sp_size oldest) else None, sent))
         else (None, sent)) in
      (evicted, sent @ [p]))"

datatype AckError = AcknowledgesUnsent | EmptyRange

text \<open>The walk over the additional ranges, downwards from the cursor.\<close>

fun in_additional :: "u64 \<Rightarrow> u64 \<Rightarrow> (u64 \<times> u64) list \<Rightarrow> bool" where
  "in_additional pn cursor [] = False"
| "in_additional pn cursor ((gap, len) # ranges) =
     (if cursor = 0 then False
      else
        let cursor = u64_saturating_sub cursor gap in
        if pn \<ge> u64_saturating_sub cursor (len - 1) \<and> pn \<le> cursor then True
        else in_additional pn (u64_saturating_sub cursor len) ranges)"

definition in_range :: "u64 \<Rightarrow> u64 \<Rightarrow> u64 \<Rightarrow> (u64 \<times> u64) list \<Rightarrow> bool" where
  "in_range largest pn first_len ranges =
     (if pn \<ge> u64_saturating_sub largest (first_len - 1) \<and> pn \<le> largest then True
      else in_additional pn (u64_saturating_sub largest first_len) ranges)"

text \<open>The loop that drains the queue, with the acknowledged numbers and the packets kept.\<close>

fun drain_acked :: "(u64 \<Rightarrow> bool) \<Rightarrow> SentPacket list \<Rightarrow> u64 list \<times> SentPacket list" where
  "drain_acked hit [] = ([], [])"
| "drain_acked hit (p # ps) =
     (let (acked, keep) = drain_acked hit ps in
      if hit (sp_packet_number p)
      then (sp_packet_number (mark_acked p) # acked, keep)
      else (acked, p # keep))"

definition apply_ack ::
    "AckSendState \<Rightarrow> u64 \<Rightarrow> (u64 \<times> u64) list \<Rightarrow> (AckError + u64 list) \<times> AckSendState" where
  "apply_ack sent largest ranges =
     (let first_len = (case ranges of [] \<Rightarrow> 0 | r # _ \<Rightarrow> fst r) in
      if first_len = 0 then (Inl EmptyRange, sent)
      else if list_ex (\<lambda>r. snd r = 0) (drop 1 ranges) then (Inl EmptyRange, sent)
      else
        let max_sent = (if sent = [] then 0 else sp_packet_number (last sent)) in
        if largest > max_sent then (Inl AcknowledgesUnsent, sent)
        else
          let extra = drop 1 ranges;
              (acked, keep) = drain_acked (\<lambda>pn. in_range largest pn first_len extra) sent in
          (Inr acked, keep))"

section \<open>Packet numbers and their successors\<close>

lemma pn_unat_less: "pn \<le> MAX_PACKET_NUMBER \<Longrightarrow> unat pn < 2 ^ 62"
  by (simp add: word_le_nat_alt unat_MAX_PACKET_NUMBER)

lemma pn_unat_Suc: "pn \<le> MAX_PACKET_NUMBER \<Longrightarrow> unat (pn + 1) = Suc (unat pn)"
  using pn_unat_less[of pn] by (simp add: unat_word_ariths)

lemma pn_less_Suc: "pn \<le> MAX_PACKET_NUMBER \<Longrightarrow> pn < pn + 1"
  by (simp add: word_less_nat_alt pn_unat_Suc)

lemma pn_Suc_le: "pn \<le> MAX_PACKET_NUMBER \<Longrightarrow> pn < x \<Longrightarrow> x \<le> pn + 1 \<longleftrightarrow> x = pn + 1"
  by (auto simp: word_less_nat_alt word_le_nat_alt pn_unat_Suc word_unat_eq_iff)

lemma pn_atMost_Suc: "l \<le> pn \<Longrightarrow> pn \<le> MAX_PACKET_NUMBER \<Longrightarrow> {l..pn + 1} = insert (pn + 1) {l..pn}"
  by (auto simp: word_less_nat_alt word_le_nat_alt pn_unat_Suc word_unat_eq_iff)

lemma pn_atLeast_pred: "pn \<le> MAX_PACKET_NUMBER \<Longrightarrow> pn + 1 \<le> h \<Longrightarrow> {pn..h} = insert pn {pn + 1..h}"
  by (auto simp: word_less_nat_alt word_le_nat_alt pn_unat_Suc word_unat_eq_iff)

lemma pn_join: "l \<le> h \<Longrightarrow> h \<le> MAX_PACKET_NUMBER \<Longrightarrow> h + 1 \<le> h' \<Longrightarrow> {l..h} \<union> {h + 1..h'} = {l..h'}"
  by (auto simp: word_less_nat_alt word_le_nat_alt pn_unat_Suc)


section \<open>The ranges of a receiver\<close>

definition range_ok :: "u64 \<times> u64 \<Rightarrow> bool" where
  "range_ok r \<longleftrightarrow> fst r \<le> snd r \<and> snd r \<le> MAX_PACKET_NUMBER"

text \<open>
  Ascending and disjoint. Two ranges may touch, since a number that joins its left neighbour is not
  joined with its right one; then the lower one has at least two elements.
\<close>

definition touching_ok :: "u64 \<times> u64 \<Rightarrow> u64 \<times> u64 \<Rightarrow> bool" where
  "touching_ok a b \<longleftrightarrow> (snd a + 1 = fst b \<longrightarrow> fst a < snd a)"

definition ranges_ok :: "(u64 \<times> u64) list \<Rightarrow> bool" where
  "ranges_ok rs \<longleftrightarrow> list_all range_ok rs \<and> sorted_wrt (\<lambda>a b. snd a < fst b) rs
     \<and> successively touching_ok rs"

definition range_set :: "(u64 \<times> u64) list \<Rightarrow> u64 set" where
  "range_set rs = (\<Union>r \<in> set rs. {fst r..snd r})"

lemma range_set_simps [simp]:
  "range_set [] = {}"
  "range_set (r # rs) = {fst r..snd r} \<union> range_set rs"
  "range_set (rs @ rs') = range_set rs \<union> range_set rs'"
  by (auto simp: range_set_def)

text \<open>The scan splits the ranges around the new number.\<close>

lemma range_index_split:
  assumes ok: "ranges_ok rs"
    and new: "\<not> (range_index rs pn < length rs \<and> fst (rs ! range_index rs pn) \<le> pn
                 \<and> pn \<le> snd (rs ! range_index rs pn))"
  obtains L R where "rs = L @ R" "range_index rs pn = length L"
    "list_all (\<lambda>r. snd r < pn) L" "list_all (\<lambda>r. pn < fst r) R"
proof -
  let ?P = "\<lambda>r. snd r < pn"
  define L where "L = takeWhile ?P rs"
  define R where "R = dropWhile ?P rs"
  have rs: "rs = L @ R" and idx: "range_index rs pn = length L"
    by (simp_all add: L_def R_def range_index_def)
  have L: "list_all ?P L" by (auto simp: L_def list_all_iff dest: set_takeWhileD)
  have hd: "R \<noteq> [] \<Longrightarrow> \<not> ?P (hd R)" unfolding R_def by (rule hd_dropWhile)
  have R: "list_all (\<lambda>r. pn < fst r) R"
  proof (cases R)
    case (Cons r R')
    have "\<not> snd r < pn" using hd Cons by simp
    then have "pn < fst r" using new[unfolded idx] Cons by (auto simp: rs)
    moreover have "sorted_wrt (\<lambda>a b. snd a < fst b) (r # R')" "list_all range_ok (r # R')"
      using ok Cons by (auto simp: rs ranges_ok_def sorted_wrt_append)
    ultimately show ?thesis using Cons by (auto simp: list_all_iff range_ok_def)
  qed simp
  show ?thesis by (rule that[OF rs idx L R])
qed

lemma insert_at_length [simp]: "insert_at (length L) x (L @ R) = L @ x # R"
  by (simp add: insert_at_def)

lemma merge_left_Nil [simp]: "merge_left rs 0 = rs"
  by (simp add: merge_left_def)

lemma merge_left_snoc:
  "merge_left (L @ a # b # R) (Suc (length L)) =
     (if snd a + 1 \<ge> fst b then L @ (fst a, max (snd b) (snd a)) # R else L @ a # b # R)"
  by (simp add: merge_left_def remove_at_def nth_append list_update_append)

lemma merge_right_at:
  "merge_right (L @ a # b # R) (length L) =
     (if snd a + 1 \<ge> fst b then L @ (fst a, snd b) # R else L @ a # b # R)"
  by (simp add: merge_right_def remove_at_def nth_append list_update_append)

lemma merge_right_last [simp]: "merge_right (L @ [a]) (length L) = L @ [a]" "merge_right L (length L) = L"
  by (simp_all add: merge_right_def)


lemma ranges_ok_append:
  "ranges_ok (L @ R) \<longleftrightarrow> ranges_ok L \<and> ranges_ok R
     \<and> (\<forall>a \<in> set L. \<forall>b \<in> set R. snd a < fst b)
     \<and> (L \<noteq> [] \<and> R \<noteq> [] \<longrightarrow> touching_ok (last L) (hd R))"
  by (auto simp: ranges_ok_def sorted_wrt_append successively_append_iff)

lemma ranges_ok_simps [simp]:
  "ranges_ok []"
  "ranges_ok [r] \<longleftrightarrow> range_ok r"
  by (simp_all add: ranges_ok_def)

lemma ranges_ok_Cons:
  "ranges_ok (r # R) \<longleftrightarrow> range_ok r \<and> ranges_ok R \<and> (\<forall>b \<in> set R. snd r < fst b)
     \<and> (R \<noteq> [] \<longrightarrow> touching_ok r (hd R))"
  using ranges_ok_append[of "[r]" R] by simp

text \<open>A range that replaces its neighbours keeps the list in order.\<close>

lemma ranges_ok_replace:
  assumes "ranges_ok L" "ranges_ok R" "range_ok r"
    and "\<forall>a \<in> set L. snd a < fst r" "\<forall>b \<in> set R. snd r < fst b"
    and "L \<noteq> [] \<Longrightarrow> touching_ok (last L) r" "R \<noteq> [] \<Longrightarrow> touching_ok r (hd R)"
  shows "ranges_ok (L @ r # R)"
  using assms by (fastforce simp: ranges_ok_append ranges_ok_Cons range_ok_def)

definition merged :: "(u64 \<times> u64) list \<Rightarrow> u64 \<Rightarrow> (u64 \<times> u64) list \<Rightarrow> (u64 \<times> u64) list" where
  "merged L pn R = merge_right (merge_left (L @ (pn, pn) # R) (length L)) (length L)"

lemma merge_right_ok:
  assumes "ranges_ok (L @ R)"
  shows "ranges_ok (merge_right (L @ R) (length L))
    \<and> range_set (merge_right (L @ R) (length L)) = range_set (L @ R)"
proof (cases R rule: remdups_adj.cases)
  case (3 a b R')
  show ?thesis
  proof (cases "snd a + 1 \<ge> fst b")
    case True
    have ab: "range_ok a" "range_ok b" "snd a < fst b"
      using assms 3 by (auto simp: ranges_ok_append ranges_ok_Cons)
    then have "fst b = snd a + 1" using True by (simp add: range_ok_def pn_Suc_le)
    then have "{fst a..snd a} \<union> {fst b..snd b} = {fst a..snd b}" "fst a < snd b"
      using ab pn_join[of "fst a" "snd a" "snd b"] by (auto simp: range_ok_def)
    moreover have "ranges_ok (L @ (fst a, snd b) # R')"
      using assms 3 \<open>fst a < snd b\<close> ab
      by (auto simp: ranges_ok_append ranges_ok_Cons range_ok_def touching_ok_def)
    ultimately show ?thesis using 3 True by (auto simp: merge_right_at)
  qed (use assms 3 in \<open>simp add: merge_right_at\<close>)
qed (use assms in simp_all)

lemma merged_ok:
  assumes ok: "ranges_ok (L @ R)" and pn: "pn \<le> MAX_PACKET_NUMBER"
    and L: "list_all (\<lambda>r. snd r < pn) L" and R: "list_all (\<lambda>r. pn < fst r) R"
  shows "ranges_ok (merged L pn R) \<and> range_set (merged L pn R) = insert pn (range_set (L @ R))"
proof -
  have okL: "ranges_ok L" and okR: "ranges_ok R" using ok by (auto simp: ranges_ok_append)
  consider (join) L' a where "L = L' @ [a]" "snd a + 1 = pn"
    | (apart) "L \<noteq> [] \<longrightarrow> snd (last L) + 1 \<noteq> pn"
    by (metis append_butlast_last_id)
  then show ?thesis
  proof cases
    case join
    have a: "range_ok a" using okL join by (simp add: ranges_ok_append)
    have m: "merge_left (L @ (pn, pn) # R) (length L) = (L' @ [(fst a, pn)]) @ R"
      using join a pn_less_Suc[of "snd a"] merge_left_snoc[of L' a "(pn, pn)" R]
      by (auto simp: max_def range_ok_def)
    have "ranges_ok ((L' @ [(fst a, pn)]) @ R)"
      using ok join a R pn pn_less_Suc[of "snd a"]
      by (auto simp: ranges_ok_append ranges_ok_Cons range_ok_def touching_ok_def list_all_iff)
    moreover have "{fst a..pn} = insert pn {fst a..snd a}"
      using pn_atMost_Suc[of "fst a" "snd a"] a join by (simp add: range_ok_def)
    ultimately show ?thesis
      using merge_right_ok[of "L' @ [(fst a, pn)]" R] m join by (auto simp: merged_def)
  next
    case apart
    have m: "merge_left (L @ (pn, pn) # R) (length L) = L @ (pn, pn) # R"
    proof (cases L rule: rev_cases)
      case (snoc L' a)
      then have "\<not> pn \<le> snd a + 1"
        using apart L okL pn_Suc_le[of "snd a" pn] by (auto simp: ranges_ok_append range_ok_def)
      then show ?thesis using snoc merge_left_snoc[of L' a "(pn, pn)" R] by simp
    qed simp
    have last: "touching_ok (last L) (pn, h)" if "L \<noteq> []" for h
      using apart that by (simp add: touching_ok_def)
    have below: "\<forall>a \<in> set L. snd a < pn" using L by (simp add: list_all_iff)
    show ?thesis
    proof (cases "R \<noteq> [] \<and> pn + 1 \<ge> fst (hd R)")
      case True
      then obtain b R' where R': "R = b # R'" by (cases R) auto
      have b: "range_ok b" "fst b = pn + 1" "pn < snd b"
        using R R' okR pn True pn_Suc_le[of pn "fst b"] by (auto simp: ranges_ok_Cons range_ok_def)
      have "ranges_ok (L @ (pn, snd b) # R')"
        using okL okR b R' below last
        by (intro ranges_ok_replace) (auto simp: ranges_ok_Cons range_ok_def touching_ok_def)
      then show ?thesis
        using m True R' b pn_atLeast_pred[OF pn, of "snd b"]
        by (auto simp: merged_def merge_right_at range_ok_def)
    next
      case False
      have "ranges_ok (L @ (pn, pn) # R)"
        using okL okR pn R False below last
        by (intro ranges_ok_replace) (auto simp: range_ok_def touching_ok_def list_all_iff)
      moreover have "merge_right (L @ (pn, pn) # R) (length L) = L @ (pn, pn) # R"
        using False by (cases R) (auto simp: merge_right_at)
      ultimately show ?thesis using m by (auto simp: merged_def)
    qed
  qed
qed


lemma length_merged: "length (merged L pn R) \<le> Suc (length L + length R)"
proof -
  have "length (remove_at i xs) \<le> length xs" for i and xs :: "(u64 \<times> u64) list"
    by (simp add: remove_at_def)
  then have "length (merge_right xs i) \<le> length xs" "length (merge_left xs i) \<le> length xs" for i xs
    by (simp_all add: merge_right_def merge_left_def Let_def)
  from this(1)[of "merge_left (L @ (pn, pn) # R) (length L)" "length L"]
    this(2)[of "L @ (pn, pn) # R" "length L"]
  show ?thesis by (simp add: merged_def)
qed

text \<open>
  The state of a receiver: its ranges are in order and within their bound, and it remembers the
  largest number, which the last range ends with.
\<close>

definition ack_recv_inv :: "AckReceiveState \<Rightarrow> bool" where
  "ack_recv_inv s \<longleftrightarrow> ranges_ok (ars_ranges s) \<and> length (ars_ranges s) \<le> MAX_STORED_RANGES
     \<and> ars_largest s = (if ars_ranges s = [] then None else Some (snd (last (ars_ranges s))))"

lemma ack_recv_inv_new: "ack_recv_inv AckReceiveState_new"
  by (simp add: ack_recv_inv_def AckReceiveState_new_def)

lemma ranges_ok_drop: "ranges_ok rs \<Longrightarrow> ranges_ok (drop k rs)"
  using ranges_ok_append[of "take k rs" "drop k rs"] by simp

lemma range_set_snd_last:
  assumes "ranges_ok rs" "x \<in> range_set rs"
  shows "x \<le> snd (last rs)"
proof (cases rs rule: rev_cases)
  case (snoc L r)
  then have "fst r \<le> snd r" "\<And>a. a \<in> set L \<Longrightarrow> snd a < fst r"
    using assms(1) by (auto simp: ranges_ok_append range_ok_def)
  then show ?thesis
    using assms(2) snoc by (fastforce simp: range_set_def)
qed (use assms in simp)

lemma snd_last_in_range_set:
  assumes "ranges_ok rs" "rs \<noteq> []"
  shows "snd (last rs) \<in> range_set rs"
  using assms by (cases rs rule: rev_cases) (auto simp: ranges_ok_append range_ok_def)

lemma last_by_max:
  assumes "ranges_ok rs" "rs \<noteq> []" "x \<in> range_set rs" "\<And>y. y \<in> range_set rs \<Longrightarrow> y \<le> x"
  shows "snd (last rs) = x"
  using assms range_set_snd_last[OF assms(1,3)] snd_last_in_range_set[OF assms(1,2)] by (simp add: antisym)


lemma merged_evict:
  assumes ok: "ranges_ok M"
  shows "ranges_ok (drop k M) \<and> range_set (drop k M) \<subseteq> range_set M
    \<and> (\<forall>x \<in> range_set M - range_set (drop k M). \<forall>y \<in> range_set (drop k M). x < y)"
proof -
  have "ranges_ok (take k M @ drop k M)" using ok by simp
  then have "\<forall>a \<in> set (take k M). \<forall>b \<in> set (drop k M). snd a < fst b"
    unfolding ranges_ok_append by blast
  then have "\<forall>x \<in> range_set (take k M). \<forall>y \<in> range_set (drop k M). x < y"
    by (fastforce simp: range_set_def)
  moreover have "range_set M = range_set (take k M) \<union> range_set (drop k M)"
    using range_set_simps(3)[of "take k M" "drop k M"] by simp
  ultimately show ?thesis using ranges_ok_drop[OF ok] by blast
qed

lemma ack_record_known:
  assumes "range_index (ars_ranges s) pn < length (ars_ranges s)"
    "fst (ars_ranges s ! range_index (ars_ranges s) pn) \<le> pn"
    "pn \<le> snd (ars_ranges s ! range_index (ars_ranges s) pn)"
  shows "pn \<in> range_set (ars_ranges s)" "ars_ranges (ack_record s pn) = ars_ranges s"
  using assms by (auto simp: ack_record_def Let_def range_set_def intro!: bexI[OF _ nth_mem])

lemma ack_record_new:
  assumes "ars_ranges s = L @ R" "range_index (ars_ranges s) pn = length L"
    "\<not> (range_index (ars_ranges s) pn < length (ars_ranges s)
        \<and> fst (ars_ranges s ! range_index (ars_ranges s) pn) \<le> pn
        \<and> pn \<le> snd (ars_ranges s ! range_index (ars_ranges s) pn))"
  shows "ars_ranges (ack_record s pn) =
    drop (length (merged L pn R) - MAX_STORED_RANGES) (merged L pn R)"
  using assms by (auto simp: ack_record_def Let_def merged_def)

lemma ack_record_largest:
  "ars_largest (ack_record s pn) =
     Some (case ars_largest s of None \<Rightarrow> pn | Some l \<Rightarrow> max l pn)"
  by (auto simp: ack_record_def Let_def max_def split: option.splits)

lemma ack_record_ranges:
  assumes inv: "ack_recv_inv s" and pn: "pn \<le> MAX_PACKET_NUMBER"
  defines "rs \<equiv> ars_ranges s" and "rs' \<equiv> ars_ranges (ack_record s pn)"
  shows "ranges_ok rs' \<and> rs' \<noteq> [] \<and> length rs' \<le> MAX_STORED_RANGES \<and> length rs' \<le> Suc (length rs)
    \<and> range_set rs' \<subseteq> insert pn (range_set rs)
    \<and> (\<forall>x \<in> insert pn (range_set rs) - range_set rs'. \<forall>y \<in> range_set rs'. x < y)
    \<and> (length rs < MAX_STORED_RANGES \<longrightarrow> range_set rs' = insert pn (range_set rs))"
proof -
  let ?i = "range_index rs pn"
  have ok: "ranges_ok rs" "length rs \<le> MAX_STORED_RANGES" using inv by (simp_all add: ack_recv_inv_def rs_def)
  show ?thesis
  proof (cases "?i < length rs \<and> fst (rs ! ?i) \<le> pn \<and> pn \<le> snd (rs ! ?i)")
    case True
    then show ?thesis
      using ok ack_record_known[of s pn] by (fastforce simp: rs_def rs'_def insert_absorb)
  next
    case False
    obtain L R where LR: "rs = L @ R" "?i = length L"
      "list_all (\<lambda>r. snd r < pn) L" "list_all (\<lambda>r. pn < fst r) R"
      using range_index_split[OF ok(1) False] by blast
    define M where "M = merged L pn R"
    have M: "ranges_ok M" "range_set M = insert pn (range_set rs)" "length M \<le> Suc (length rs)"
      using merged_ok[OF _ pn LR(3,4)] ok(1) length_merged[of L pn R] by (simp_all add: M_def LR(1))
    have "rs' = drop (length M - MAX_STORED_RANGES) M"
      using ack_record_new[of s L R pn] LR(1,2) False by (simp add: rs_def rs'_def M_def)
    moreover have "length M - MAX_STORED_RANGES < length M" using M(2) by (cases M) auto
    ultimately show ?thesis
      using merged_evict[OF M(1), of "length M - MAX_STORED_RANGES"] M by (auto simp: M(2))
  qed
qed

lemma ack_record_inv:
  assumes inv: "ack_recv_inv s" and pn: "pn \<le> MAX_PACKET_NUMBER"
  shows "ack_recv_inv (ack_record s pn)"
proof -
  let ?rs = "ars_ranges s" and ?rs' = "ars_ranges (ack_record s pn)"
  note step = ack_record_ranges[OF inv pn]
  let ?m = "case ars_largest s of None \<Rightarrow> pn | Some l \<Rightarrow> max l pn"
  have ub: "y \<le> ?m" if "y \<in> insert pn (range_set ?rs)" for y
    using that inv range_set_snd_last[of ?rs y] by (auto simp: ack_recv_inv_def max_def split: if_splits)
  have "?m \<in> insert pn (range_set ?rs)"
    using inv snd_last_in_range_set[of ?rs] by (auto simp: ack_recv_inv_def max_def)
  moreover have "?m \<in> range_set ?rs'"
  proof (rule ccontr)
    assume "?m \<notin> range_set ?rs'"
    moreover obtain y where "y \<in> range_set ?rs'"
      using step snd_last_in_range_set[of ?rs'] by blast
    ultimately have "?m < y" "y \<le> ?m" using step \<open>?m \<in> _\<close> ub by blast+
    then show False by simp
  qed
  ultimately have "snd (last ?rs') = ?m" using step ub by (intro last_by_max) blast+
  then show ?thesis using step by (simp add: ack_recv_inv_def ack_record_largest)
qed


section \<open>The sender and the ACK it is sent\<close>

lemma drain_acked_eq:
  "drain_acked hit ps = (filter hit (map sp_packet_number ps), filter (\<lambda>p. \<not> hit (sp_packet_number p)) ps)"
  by (induction ps) (auto simp: mark_acked_def)

lemma pn_diff_Suc:
  assumes "l \<le> h" "h \<le> MAX_PACKET_NUMBER"
  shows "unat (h - l + 1) = Suc (unat h - unat l)" "h - l + 1 - 1 = h - l" "h - l + 1 \<noteq> 0"
proof -
  have "unat (h - l) = unat h - unat l" using assms by (simp add: unat_sub)
  then show "unat (h - l + 1) = Suc (unat h - unat l)"
    using pn_unat_less[OF assms(2)] by (simp add: unat_word_ariths)
  then show "h - l + 1 \<noteq> 0" by (metis unat_0 nat.distinct(1))
qed simp

lemma pn_range_back:
  assumes "l \<le> h" "h \<le> MAX_PACKET_NUMBER"
  shows "u64_saturating_sub h (h - l + 1 - 1) = l"
    and "unat (u64_saturating_sub h (h - l + 1)) = unat l - 1"
  using assms pn_diff_Suc[OF assms]
  by (auto simp: word_unat_eq_iff unat_u64_saturating_sub word_le_nat_alt unat_sub)

lemma in_additional_gaps:
  assumes "ranges_ok (rev rs @ [r])" "unat cursor = unat (fst r) - 1"
  shows "in_additional pn cursor (ack_gaps (fst r) rs) \<longleftrightarrow> pn \<in> range_set rs"
  using assms
proof (induction rs arbitrary: r cursor)
  case (Cons a rs)
  obtain l h where a: "a = (l, h)" by fastforce
  have ok: "l \<le> h" "h \<le> MAX_PACKET_NUMBER" "h < fst r" "touching_ok a r"
    using Cons.prems(1) a by (auto simp: ranges_ok_append ranges_ok_Cons range_ok_def)
  have c0: "cursor \<noteq> 0"
  proof
    assume "cursor = 0"
    then have "unat (fst r) = 1" "unat h = 0"
      using Cons.prems(2) ok(3) by (auto simp: word_less_nat_alt)
    then have "h = 0" "unat (fst r) = 1" by (simp_all add: unat_eq_zero)
    then have "h + 1 = fst r" using pn_unat_Suc[OF ok(2)] by (simp add: word_unat_eq_iff)
    then show False using ok(1,4) \<open>h = 0\<close> by (simp add: touching_ok_def a)
  qed
  have c: "u64_saturating_sub cursor (u64_saturating_sub (fst r) (h + 1)) = h"
    using Cons.prems(2) ok(2,3) pn_unat_Suc[OF ok(2)]
    by (auto simp: word_unat_eq_iff unat_u64_saturating_sub word_less_nat_alt)
  have "ranges_ok (rev rs @ [a])" using Cons.prems(1) by (simp add: ranges_ok_append ranges_ok_Cons)
  then have IH: "in_additional pn (u64_saturating_sub h (h - l + 1)) (ack_gaps l rs) \<longleftrightarrow> pn \<in> range_set rs"
    using Cons.IH[of a] pn_range_back(2)[OF ok(1,2)] by (simp add: a)
  show ?case
    unfolding a ack_gaps.simps in_additional.simps Let_def c pn_range_back(1)[OF ok(1,2)]
    using c0 IH by auto
qed simp

lemma range_set_rev [simp]: "range_set (rev rs) = range_set rs"
  by (simp add: range_set_def)

lemma ack_gaps_positive:
  "list_all range_ok rs \<Longrightarrow> \<not> list_ex (\<lambda>r. snd r = 0) (ack_gaps l rs)"
  by (induction l rs rule: ack_gaps.induct) (auto simp: range_ok_def pn_diff_Suc)

lemma build_ack_cases:
  assumes inv: "ack_recv_inv s" and "build_ack s delay = Some (largest, d, first, additional)"
  obtains L l where "ars_ranges s = L @ [(l, largest)]" "d = delay" "first = largest - l + 1"
    "additional = ack_gaps l (rev L)" "ranges_ok (L @ [(l, largest)])"
proof -
  have "ars_ranges s \<noteq> []" using assms(2) by (auto simp: build_ack_def split: option.splits if_splits)
  then obtain L l h where s: "ars_ranges s = L @ [(l, h)]" by (metis rev_exhaust surj_pair)
  then show ?thesis
    using assms that[of L l] by (auto simp: build_ack_def ack_recv_inv_def)
qed

lemma in_range_build_ack:
  assumes "ranges_ok (L @ [(l, largest)])"
  shows "in_range largest pn (largest - l + 1) (ack_gaps l (rev L)) \<longleftrightarrow> pn \<in> range_set (L @ [(l, largest)])"
proof -
  have ok: "l \<le> largest" "largest \<le> MAX_PACKET_NUMBER"
    using assms by (simp_all add: ranges_ok_append range_ok_def)
  then show ?thesis
    using assms in_additional_gaps[of "rev L" "(l, largest)" _ pn] pn_range_back[OF ok]
    by (auto simp: in_range_def)
qed

text \<open>
  What an ACK denotes, over the natural numbers: the \<open>first\<close> numbers up to \<open>largest\<close>, and for each
  further pair the numbers of its length that end its gap below everything before it. The pairs stop
  counting once the numbers before them reach down to zero, and no number falls below zero.
\<close>

definition ack_covers :: "nat \<Rightarrow> nat \<Rightarrow> (u64 \<times> u64) list \<Rightarrow> nat \<Rightarrow> bool" where
  "ack_covers largest first extra n \<longleftrightarrow>
     n \<le> largest \<and> largest < n + first
     \<or> (\<exists>i < length extra.
          let used = first + (\<Sum>r\<leftarrow>take i extra. unat (fst r) + unat (snd r));
              high = largest - (used + unat (fst (extra ! i))) in
          used < largest \<and> n \<le> high \<and> high < n + unat (snd (extra ! i)))"

lemma ack_covers_Nil: "ack_covers largest first [] n \<longleftrightarrow> n \<le> largest \<and> largest < n + first"
  by (simp add: ack_covers_def)

lemma ack_covers_Cons:
  "ack_covers largest first (r # rs) n \<longleftrightarrow>
     n \<le> largest \<and> largest < n + first
     \<or> first < largest
       \<and> (let cursor = largest - (first + unat (fst r)) in
          ack_covers cursor (unat (snd r)) rs n)"
  (is "?l \<longleftrightarrow> ?r")
proof -
  let ?P = "\<lambda>largest first extra i.
    let used = first + (\<Sum>r\<leftarrow>take i extra. unat (fst r) + unat (snd r));
        high = largest - (used + unat (fst ((extra :: (u64 \<times> u64) list) ! i))) in
    used < largest \<and> n \<le> high \<and> high < n + unat (snd (extra ! i))"
  let ?c = "largest - (first + unat (fst r))"
  have "(\<exists>i < length (r # rs). ?P largest first (r # rs) i) \<longleftrightarrow>
      ?P largest first (r # rs) 0 \<or> (\<exists>i < length rs. ?P largest first (r # rs) (Suc i))"
    by (simp only: list.size add_0_right add_Suc_right Ex_less_Suc2)
  moreover have "?P largest first (r # rs) 0 \<longleftrightarrow>
      first < largest \<and> n \<le> ?c \<and> ?c < n + unat (snd r)"
    by (simp add: Let_def)
  moreover have "?P largest first (r # rs) (Suc i) \<longleftrightarrow>
      first < largest \<and> ?P ?c (unat (snd r)) rs i" for i
    by (simp add: Let_def diff_diff_left ac_simps) linarith
  ultimately show ?thesis unfolding ack_covers_def Let_def by blast
qed

lemma in_additional_covers:
  assumes "list_all (\<lambda>r. snd r \<noteq> 0) ranges" "unat cursor = largest - first" "n = unat pn"
  shows "n \<le> largest \<and> largest < n + first \<or> in_additional pn cursor ranges \<longleftrightarrow>
    ack_covers largest first ranges n"
  using assms
proof (induction ranges arbitrary: cursor largest first)
  case Nil
  then show ?case by (simp add: ack_covers_Nil)
next
  case (Cons r rs)
  obtain gap len where r: "r = (gap, len)" by (cases r)
  let ?c = "u64_saturating_sub cursor gap"
  have c: "unat ?c = largest - (first + unat gap)"
    using Cons.prems by (simp add: unat_u64_saturating_sub)
  have len: "unat (len - 1) = unat len - 1" "0 < unat len"
    using Cons.prems r by (simp_all add: unat_minus_one unat_gt_0)
  have hit: "u64_saturating_sub ?c (len - 1) \<le> pn \<and> pn \<le> ?c \<longleftrightarrow> n \<le> unat ?c \<and> unat ?c < n + unat len"
    using len Cons.prems by (auto simp: word_le_nat_alt unat_u64_saturating_sub)
  have zero: "cursor = 0 \<longleftrightarrow> \<not> first < largest"
    using Cons.prems by (auto simp: unat_eq_0[symmetric])
  have IH: "n \<le> unat ?c \<and> unat ?c < n + unat len \<or> in_additional pn (u64_saturating_sub ?c len) rs \<longleftrightarrow>
      ack_covers (unat ?c) (unat len) rs n"
    using Cons.prems r by (intro Cons.IH) (auto simp: unat_u64_saturating_sub)
  have step: "in_additional pn cursor (r # rs) \<longleftrightarrow> cursor \<noteq> 0 \<and>
      (n \<le> unat ?c \<and> unat ?c < n + unat len \<or> in_additional pn (u64_saturating_sub ?c len) rs)"
    unfolding r in_additional.simps Let_def hit by auto
  show ?case
    using IH unfolding step zero ack_covers_Cons Let_def c by (simp add: r)
qed

lemma in_range_covers:
  assumes "first_len \<noteq> 0" "list_all (\<lambda>r. snd r \<noteq> 0) ranges"
  shows "in_range largest pn first_len ranges \<longleftrightarrow>
    ack_covers (unat largest) (unat first_len) ranges (unat pn)"
proof -
  have len: "unat (first_len - 1) = unat first_len - 1" "0 < unat first_len"
    using assms(1) by (simp_all add: unat_minus_one unat_gt_0)
  have "u64_saturating_sub largest (first_len - 1) \<le> pn \<and> pn \<le> largest \<longleftrightarrow>
      unat pn \<le> unat largest \<and> unat largest < unat pn + unat first_len"
    using len by (auto simp: word_le_nat_alt unat_u64_saturating_sub)
  then show ?thesis
    using in_additional_covers[OF assms(2), of "u64_saturating_sub largest first_len" "unat largest"
        "unat first_len" "unat pn" pn]
    by (auto simp: in_range_def unat_u64_saturating_sub)
qed

section \<open>Properties\<close>

text \<open>
  C10: The receiver's record of packet numbers. Recording a packet number keeps the ranges ascending,
  disjoint and at most 256, keeps the largest number at the end, and adds exactly that number;
  when the bound is reached only numbers below everything kept are forgotten.
\<close>

theorem ack_record_correct:
  assumes "ack_recv_inv s" and "pn \<le> MAX_PACKET_NUMBER"
  shows "ack_recv_inv (ack_record s pn)
    \<and> range_set (ars_ranges (ack_record s pn)) \<subseteq> insert pn (range_set (ars_ranges s))
    \<and> (\<forall>x \<in> insert pn (range_set (ars_ranges s)) - range_set (ars_ranges (ack_record s pn)).
         \<forall>y \<in> range_set (ars_ranges (ack_record s pn)). x < y)
    \<and> (length (ars_ranges s) < MAX_STORED_RANGES \<longrightarrow>
         range_set (ars_ranges (ack_record s pn)) = insert pn (range_set (ars_ranges s)))"
  using ack_record_inv[OF assms] ack_record_ranges[OF assms] by blast

theorem ack_record_correct_witness:
  "range_set (ars_ranges (ack_record \<lparr>ars_ranges = [(1, 1), (3, 3)], ars_largest = Some 3, ars_needs_ack = True\<rparr> 2))
     = {1, 2, 3}"
proof -
  let ?s = "\<lparr>ars_ranges = [(1, 1), (3, 3)], ars_largest = Some 3, ars_needs_ack = True\<rparr>"
  have "ack_recv_inv ?s"
    by (simp add: ack_recv_inv_def ranges_ok_def range_ok_def touching_ok_def MAX_PACKET_NUMBER_def)
  then show ?thesis
    using ack_record_correct[of ?s 2] by (auto simp: MAX_PACKET_NUMBER_def)
qed

text \<open>
  C8: An ACK means the same to both sides. The fields a receiver builds from its record are
  accepted by a sender that has sent the largest number, and acknowledge exactly the outstanding
  packets the receiver has on record, in the order they were sent; the others stay outstanding.
\<close>

theorem ack_round_trip:
  assumes "ack_recv_inv s" and "build_ack s delay = Some (largest, d, first, additional)"
    and "sent \<noteq> []" and "largest \<le> sp_packet_number (last sent)"
  shows "apply_ack sent largest ((first, 0) # additional) =
    (Inr (filter (\<lambda>pn. pn \<in> range_set (ars_ranges s)) (map sp_packet_number sent)),
     filter (\<lambda>p. sp_packet_number p \<notin> range_set (ars_ranges s)) sent)"
proof -
  obtain L l where s: "ars_ranges s = L @ [(l, largest)]" "first = largest - l + 1"
    "additional = ack_gaps l (rev L)" and ok: "ranges_ok (L @ [(l, largest)])"
    using build_ack_cases[OF assms(1,2)] by metis
  then have "first \<noteq> 0" "\<not> list_ex (\<lambda>r. snd r = 0) additional"
    using ack_gaps_positive[of "rev L" l]
    by (auto simp: ranges_ok_def range_ok_def pn_diff_Suc)
  then show ?thesis
    using assms(3,4) ok s in_range_build_ack[OF ok]
    by (simp add: apply_ack_def drain_acked_eq Let_def linorder_not_less)
qed


theorem ack_round_trip_witness:
  "apply_ack (map (\<lambda>pn. SentPacket_new pn PacketSpace.SessionData 0 64 True 0) [0, 1, 2, 3, 4]) 3
     [(2, 0), (1, 1)] =
   (Inr [0, 2, 3], map (\<lambda>pn. SentPacket_new pn PacketSpace.SessionData 0 64 True 0) [1, 4])"
proof -
  let ?s = "\<lparr>ars_ranges = [(0, 0), (2, 3)], ars_largest = Some 3, ars_needs_ack = True\<rparr>"
  let ?p = "\<lambda>pn. SentPacket_new pn PacketSpace.SessionData 0 64 True 0"
  have s: "ack_recv_inv ?s"
    by (simp add: ack_recv_inv_def ranges_ok_def range_ok_def touching_ok_def MAX_PACKET_NUMBER_def)
  have "build_ack ?s 0 = Some (3, 0, 2, [(1, 1)])"
    by (simp add: build_ack_def u64_saturating_sub_def)
  from ack_round_trip[OF s this, of "map ?p [0, 1, 2, 3, 4]"] show ?thesis
    by (simp add: SentPacket_new_def word_le_nat_alt)
qed


text \<open>
  C11: Any ACK a peer sends, honest or not, is answered exactly as its numbers say. It is refused as
  empty, changing nothing, when it has no range, an empty first range or an empty additional range.
  Otherwise it is refused, changing nothing, when it goes beyond the last packet sent. Otherwise the
  numbers returned are the outstanding ones it denotes, in the order they were sent, and the packets
  kept are all the others. What an ACK denotes is \<open>ack_covers\<close>, over the natural numbers.
\<close>

theorem apply_ack_consistent:
  "apply_ack sent largest ranges =
     (let covered = (\<lambda>pn. ack_covers (unat largest) (unat (fst (hd ranges))) (tl ranges) (unat pn)) in
      if ranges = [] \<or> fst (hd ranges) = 0 \<or> list_ex (\<lambda>r. snd r = 0) (tl ranges)
      then (Inl EmptyRange, sent)
      else if (case rev sent of [] \<Rightarrow> 0 | p # _ \<Rightarrow> unat (sp_packet_number p)) < unat largest
      then (Inl AcknowledgesUnsent, sent)
      else (Inr (filter covered (map sp_packet_number sent)),
            filter (\<lambda>p. \<not> covered (sp_packet_number p)) sent))"
proof (cases "ranges = [] \<or> fst (hd ranges) = 0 \<or> list_ex (\<lambda>r. snd r = 0) (tl ranges)")
  case True
  then show ?thesis by (cases ranges) (auto simp: apply_ack_def Let_def)
next
  case False
  then obtain r rs where r: "ranges = r # rs" by (cases ranges) auto
  have "in_range largest pn (fst r) rs \<longleftrightarrow> ack_covers (unat largest) (unat (fst r)) rs (unat pn)" for pn
    using False r by (intro in_range_covers) (auto simp: list_all_iff list_ex_iff)
  then show ?thesis
    using False r
    by (cases sent rule: rev_cases)
      (simp_all add: apply_ack_def drain_acked_eq Let_def word_less_nat_alt)
qed

theorem apply_ack_consistent_witness:
  "let sent = map (\<lambda>pn. SentPacket_new pn PacketSpace.SessionData 0 64 True 0) [0, 1, 2, 3, 4, 5, 6, 7] in
    fst (apply_ack sent 7 [(2, 0), (1, 3)]) = Inr [2, 3, 4, 6, 7]
    \<and> map sp_packet_number (snd (apply_ack sent 7 [(2, 0), (1, 3)])) = [0, 1, 5]
    \<and> apply_ack sent 7 [(0, 0)] = (Inl EmptyRange, sent)
    \<and> apply_ack sent 7 [(1, 0), (1, 0)] = (Inl EmptyRange, sent)
    \<and> apply_ack sent 8 [(1, 0)] = (Inl AcknowledgesUnsent, sent)"
  by (simp add: apply_ack_consistent ack_covers_def SentPacket_new_def Let_def)

end
