(* ===== verification/Session_Loss.thy ===== *)
theory Session_Loss
  imports Session_Ack
begin

text \<open>
  \<open>crates/umc-session/src/rtt.rs\<close> and \<open>loss.rs\<close>: the round-trip estimate, the probe timeout with
  its backoff, and loss detection over the queue of sent packets. The arithmetic is that of 64-bit
  words and wraps where the code does not saturate.
\<close>

section \<open>Model\<close>

record RttEstimator =
  latest_rtt :: u64
  min_rtt :: u64
  smoothed_rtt :: u64
  rtt_variance :: u64
  rtt_initialized :: bool

definition RttEstimator_new :: RttEstimator where
  "RttEstimator_new =
     \<lparr>latest_rtt = 0, min_rtt = 0, smoothed_rtt = 0, rtt_variance = 0, rtt_initialized = False\<rparr>"

definition u64_abs_diff :: "u64 \<Rightarrow> u64 \<Rightarrow> u64" where
  "u64_abs_diff a b = (if a < b then b - a else a - b)"

definition rtt_sample :: "RttEstimator \<Rightarrow> u64 \<Rightarrow> RttEstimator" where
  "rtt_sample r sample_ms =
     (if \<not> rtt_initialized r then
        r\<lparr>latest_rtt := sample_ms, min_rtt := sample_ms, smoothed_rtt := sample_ms,
          rtt_variance := sample_ms div 2, rtt_initialized := True\<rparr>
      else
        let abs_diff = u64_abs_diff (smoothed_rtt r) sample_ms in
        r\<lparr>latest_rtt := sample_ms, min_rtt := min (min_rtt r) sample_ms,
          rtt_variance := (3 * rtt_variance r + abs_diff) div 4,
          smoothed_rtt := (7 * smoothed_rtt r + sample_ms) div 8\<rparr>)"

definition TIMER_GRANULARITY_MS :: u64 where "TIMER_GRANULARITY_MS = 1"
definition DEFAULT_PTO_MS :: u64 where "DEFAULT_PTO_MS = 1000"
definition PACKET_THRESHOLD :: u64 where "PACKET_THRESHOLD = 3"
definition MAX_PTO_BACKOFF_EXPONENT :: u32 where "MAX_PTO_BACKOFF_EXPONENT = 6"

record PtoState =
  consecutive :: u32

definition PtoState_default :: PtoState where
  "PtoState_default = \<lparr>consecutive = 0\<rparr>"

definition multiplier :: "PtoState \<Rightarrow> u32" where
  "multiplier s = push_bit (unat (consecutive s)) 1"

definition next_deadline :: "PtoState \<Rightarrow> Duration \<Rightarrow> Instant \<Rightarrow> Instant" where
  "next_deadline s pto_ms now = instant_add now (u64_saturating_mul pto_ms (ucast (multiplier s)))"

definition on_expiry :: "PtoState \<Rightarrow> PtoState" where
  "on_expiry s = s\<lparr>consecutive := min (consecutive s + 1) MAX_PTO_BACKOFF_EXPONENT\<rparr>"

definition pto_on_ack :: "PtoState \<Rightarrow> PtoState" where
  "pto_on_ack s = s\<lparr>consecutive := 0\<rparr>"

record LossDetector =
  max_ack_delay_ms :: u64

definition LossDetector_new :: "u64 \<Rightarrow> LossDetector" where
  "LossDetector_new d = \<lparr>max_ack_delay_ms = d\<rparr>"

definition pto :: "LossDetector \<Rightarrow> RttEstimator \<Rightarrow> Duration" where
  "pto d rtt =
     (if \<not> rtt_initialized rtt then DEFAULT_PTO_MS
      else
        let variance_term = max (4 * rtt_variance rtt) TIMER_GRANULARITY_MS in
        smoothed_rtt rtt + variance_term + max_ack_delay_ms d)"

definition packet_threshold_lost :: "u64 \<Rightarrow> u64 \<Rightarrow> bool" where
  "packet_threshold_lost sent_pn largest_acked \<longleftrightarrow> largest_acked \<ge> sent_pn + PACKET_THRESHOLD"

definition time_threshold_lost :: "RttEstimator \<Rightarrow> Instant \<Rightarrow> Instant \<Rightarrow> bool \<Rightarrow> bool" where
  "time_threshold_lost rtt sent_at now higher_acked =
     (if \<not> higher_acked \<or> \<not> rtt_initialized rtt then False
      else
        let threshold = (9 * max (latest_rtt rtt) (smoothed_rtt rtt)) div 8 in
        duration_since now sent_at \<ge> threshold)"

definition persistent_congestion :: "Duration \<Rightarrow> Instant \<Rightarrow> Instant \<Rightarrow> bool" where
  "persistent_congestion pto_ms oldest_lost_at newest_lost_at =
     (let span = duration_since newest_lost_at oldest_lost_at in span \<ge> 3 * pto_ms)"

text \<open>The loop over a copy of the queue: the numbers lost and the packets kept.\<close>

fun split_lost ::
    "RttEstimator \<Rightarrow> Instant \<Rightarrow> u64 \<Rightarrow> SentPacket list \<Rightarrow> u64 list \<times> SentPacket list" where
  "split_lost rtt now largest_acked [] = ([], [])"
| "split_lost rtt now largest_acked (p # ps) =
     (let (lost, keep) = split_lost rtt now largest_acked ps;
          pn = sp_packet_number p;
          packet_lost = (packet_threshold_lost pn largest_acked
            \<or> time_threshold_lost rtt (sp_sent_at p) now (largest_acked > pn)) in
      if packet_lost then (pn # lost, keep) else (lost, p # keep))"

definition detect_lost_packets ::
    "AckSendState \<Rightarrow> RttEstimator \<Rightarrow> Instant \<Rightarrow> u64 \<Rightarrow> u64 list \<times> AckSendState" where
  "detect_lost_packets sent_state rtt now largest_acked =
     (let (lost, keep) = split_lost rtt now largest_acked sent_state in
      (lost, foldl (\<lambda>st p. snd (record_sent st p)) AckSendState_new keep))"

section \<open>The estimate\<close>

lemma rtt_sample_uninit [simp]:
  "\<not> rtt_initialized r \<Longrightarrow> rtt_sample r x =
     \<lparr>latest_rtt = x, min_rtt = x, smoothed_rtt = x, rtt_variance = x div 2, rtt_initialized = True\<rparr>"
  by (cases r) (simp add: rtt_sample_def)

lemma smoothed_average:
  fixes s x :: u64
  assumes "lo \<le> unat s" "unat s \<le> hi" "lo \<le> unat x" "unat x \<le> hi" "hi < 2 ^ 60"
  shows "lo \<le> unat ((7 * s + x) div 8) \<and> unat ((7 * s + x) div 8) \<le> hi"
proof -
  have "unat (7 * s) = 7 * unat s" using assms by (simp add: unat_word_ariths)
  then have "unat (7 * s + x) = 7 * unat s + unat x" using assms by (simp add: unat_word_ariths)
  then have "unat ((7 * s + x) div 8) = (7 * unat s + unat x) div 8" by (simp add: unat_div)
  then show ?thesis using assms by linarith
qed

lemma variance_average:
  fixes v s x :: u64
  assumes "unat v \<le> hi" "unat s \<le> hi" "unat x \<le> hi" "hi < 2 ^ 60"
  shows "unat ((3 * v + u64_abs_diff s x) div 4) \<le> hi"
proof -
  have d: "unat (u64_abs_diff s x) \<le> hi"
    using assms by (auto simp: u64_abs_diff_def word_less_nat_alt unat_sub_if')
  have "unat (3 * v) = 3 * unat v" using assms by (simp add: unat_word_ariths)
  then have "unat (3 * v + u64_abs_diff s x) = 3 * unat v + unat (u64_abs_diff s x)"
    using assms d by (simp add: unat_word_ariths)
  then have "unat ((3 * v + u64_abs_diff s x) div 4) = (3 * unat v + unat (u64_abs_diff s x)) div 4"
    by (simp add: unat_div)
  then show ?thesis using assms d by linarith
qed

definition rtt_within :: "nat \<Rightarrow> nat \<Rightarrow> RttEstimator \<Rightarrow> bool" where
  "rtt_within lo hi r \<longleftrightarrow> rtt_initialized r
     \<and> lo \<le> unat (smoothed_rtt r) \<and> unat (smoothed_rtt r) \<le> hi \<and> unat (rtt_variance r) \<le> hi
     \<and> lo \<le> unat (min_rtt r) \<and> min_rtt r \<le> latest_rtt r \<and> unat (latest_rtt r) \<le> hi"

lemma rtt_within_sample:
  assumes "rtt_within lo hi r \<or> \<not> rtt_initialized r" "lo \<le> unat x" "unat x \<le> hi" "hi < 2 ^ 60"
  shows "rtt_within lo hi (rtt_sample r x)"
proof (cases "rtt_initialized r")
  case True
  then show ?thesis
    using assms smoothed_average[of lo "smoothed_rtt r" hi x]
      variance_average[of "rtt_variance r" hi "smoothed_rtt r" x]
    by (auto simp: rtt_sample_def rtt_within_def Let_def min_def)
next
  case False
  then show ?thesis using assms div_le_dividend[of "unat x" 2] by (auto simp: rtt_within_def unat_div)
qed

lemma rtt_within_samples:
  assumes "rtt_within lo hi r" "list_all (\<lambda>x. lo \<le> unat x \<and> unat x \<le> hi) xs" "hi < 2 ^ 60"
  shows "rtt_within lo hi (foldl rtt_sample r xs)"
  using assms by (induction xs arbitrary: r) (auto simp: rtt_within_sample)

lemma min_rtt_samples:
  "rtt_initialized r \<Longrightarrow> min_rtt (foldl rtt_sample r xs) = foldl min (min_rtt r) xs
     \<and> latest_rtt (foldl rtt_sample r xs) = (if xs = [] then latest_rtt r else last xs)"
  by (induction xs arbitrary: r) (auto simp: rtt_sample_def Let_def)

lemma pto_value:
  assumes "rtt_within lo hi r" "hi < 2 ^ 60" "unat delay < 2 ^ 60"
  shows "unat (pto (LossDetector_new delay) r) =
    unat (smoothed_rtt r) + max (4 * unat (rtt_variance r)) 1 + unat delay"
proof -
  have r: "unat (smoothed_rtt r) \<le> hi" "unat (rtt_variance r) \<le> hi"
    using assms(1) by (simp_all add: rtt_within_def)
  then have "unat (4 * rtt_variance r) = 4 * unat (rtt_variance r)"
    using assms(2) by (simp add: unat_u64_mult)
  then have v: "unat (max (4 * rtt_variance r) TIMER_GRANULARITY_MS) = max (4 * unat (rtt_variance r)) 1"
    by (auto simp: max_def TIMER_GRANULARITY_MS_def word_le_nat_alt)
  then have s: "unat (smoothed_rtt r + max (4 * rtt_variance r) TIMER_GRANULARITY_MS) =
      unat (smoothed_rtt r) + max (4 * unat (rtt_variance r)) 1"
    using r assms(2) by (subst unat_u64_add) (simp_all add: max_def)
  have "unat (smoothed_rtt r + max (4 * rtt_variance r) TIMER_GRANULARITY_MS + delay) =
      unat (smoothed_rtt r) + max (4 * unat (rtt_variance r)) 1 + unat delay"
    using r assms(2,3) s by (subst unat_u64_add) (simp_all add: max_def)
  then show ?thesis using assms(1) by (simp add: pto_def LossDetector_new_def rtt_within_def Let_def)
qed

section \<open>The backoff\<close>

definition pto_inv :: "PtoState \<Rightarrow> bool" where
  "pto_inv s \<longleftrightarrow> consecutive s \<le> 6"

lemma multiplier_pow:
  assumes "pto_inv s"
  shows "unat (multiplier s) = 2 ^ unat (consecutive s)"
proof -
  have k: "unat (consecutive s) \<le> 6" using assms by (simp add: pto_inv_def word_le_nat_alt)
  then have "(2 :: nat) ^ unat (consecutive s) \<le> 2 ^ 6" by (intro power_increasing) auto
  then have "(2 :: nat) ^ unat (consecutive s) < 2 ^ 32" by simp
  moreover have "multiplier s = of_nat (2 ^ unat (consecutive s))"
    by (simp add: multiplier_def push_bit_eq_mult)
  ultimately show ?thesis by (simp add: unat_of_nat take_bit_nat_eq_self del: of_nat_power)
qed

lemma on_expiry_count:
  assumes "pto_inv s"
  shows "unat (consecutive (on_expiry s)) = min 6 (Suc (unat (consecutive s)))" "pto_inv (on_expiry s)"
proof -
  have "unat (consecutive s) \<le> 6" using assms by (simp add: pto_inv_def word_le_nat_alt)
  then have "unat (consecutive s + 1) = Suc (unat (consecutive s))" by (simp add: unat_word_ariths)
  then show "unat (consecutive (on_expiry s)) = min 6 (Suc (unat (consecutive s)))"
    by (auto simp: on_expiry_def MAX_PTO_BACKOFF_EXPONENT_def min_def word_le_nat_alt)
  then show "pto_inv (on_expiry s)" by (simp add: pto_inv_def word_le_nat_alt)
qed

datatype PtoEvent = Expiry | AckSeen

fun pto_step :: "PtoState \<Rightarrow> PtoEvent \<Rightarrow> PtoState" where
  "pto_step s Expiry = on_expiry s"
| "pto_step s AckSeen = pto_on_ack s"

definition trailing_expiries :: "PtoEvent list \<Rightarrow> nat" where
  "trailing_expiries evs = length (takeWhile (\<lambda>e. e = Expiry) (rev evs))"

lemma pto_run:
  "pto_inv (foldl pto_step PtoState_default evs)
   \<and> unat (consecutive (foldl pto_step PtoState_default evs)) = min 6 (trailing_expiries evs)"
proof (induction evs rule: rev_induct)
  case Nil
  then show ?case by (simp add: PtoState_default_def pto_inv_def trailing_expiries_def)
next
  case (snoc e evs)
  then show ?case
    using on_expiry_count[of "foldl pto_step PtoState_default evs"]
    by (cases e) (auto simp: trailing_expiries_def pto_on_ack_def pto_inv_def)
qed

lemma unat_next_deadline:
  "unat (next_deadline s pto_ms now) =
     min (unat now + min (unat pto_ms * unat (multiplier s)) (2 ^ 64 - 1)) (2 ^ 64 - 1)"
  by (simp add: next_deadline_def instant_add_def unat_u64_saturating_add unat_u64_saturating_mul
      unat_ucast_32_64)

section \<open>Loss detection\<close>

definition packet_lost :: "RttEstimator \<Rightarrow> Instant \<Rightarrow> u64 \<Rightarrow> SentPacket \<Rightarrow> bool" where
  "packet_lost rtt now largest_acked p \<longleftrightarrow>
     packet_threshold_lost (sp_packet_number p) largest_acked
     \<or> time_threshold_lost rtt (sp_sent_at p) now (largest_acked > sp_packet_number p)"

lemma split_lost_eq:
  "split_lost rtt now largest ps =
     (map sp_packet_number (filter (packet_lost rtt now largest) ps),
      filter (\<lambda>p. \<not> packet_lost rtt now largest p) ps)"
  by (induction ps) (auto simp: packet_lost_def Let_def)

lemma record_all:
  "length st + length ps \<le> MAX_OUTSTANDING_PACKETS \<Longrightarrow>
     foldl (\<lambda>st p. snd (record_sent st p)) st ps = st @ ps"
  by (induction ps arbitrary: st) (auto simp: record_sent_def)

lemma detect_lost_eq:
  assumes "length sent \<le> MAX_OUTSTANDING_PACKETS"
  shows "detect_lost_packets sent rtt now largest =
    (map sp_packet_number (filter (packet_lost rtt now largest) sent),
     filter (\<lambda>p. \<not> packet_lost rtt now largest p) sent)"
proof -
  let ?keep = "filter (\<lambda>p. \<not> packet_lost rtt now largest p) sent"
  have "length ([] :: SentPacket list) + length ?keep \<le> MAX_OUTSTANDING_PACKETS"
    using assms by (auto intro: order_trans[OF length_filter_le])
  from record_all[OF this] show ?thesis
    by (simp add: detect_lost_packets_def split_lost_eq AckSendState_new_def)
qed

text \<open>The thresholds over the natural numbers, where the 64-bit arithmetic does not wrap.\<close>

lemma packet_threshold_nat:
  assumes "pn \<le> MAX_PACKET_NUMBER"
  shows "packet_threshold_lost pn largest \<longleftrightarrow> unat pn + 3 \<le> unat largest"
proof -
  have "unat (pn + 3) = unat pn + 3"
    using pn_unat_less[OF assms] by (simp add: unat_word_ariths)
  then show ?thesis by (simp add: packet_threshold_lost_def PACKET_THRESHOLD_def word_le_nat_alt)
qed

lemma time_threshold_nat:
  assumes "unat (latest_rtt rtt) < 2 ^ 60" "unat (smoothed_rtt rtt) < 2 ^ 60"
  shows "time_threshold_lost rtt sent_at now higher \<longleftrightarrow> higher \<and> rtt_initialized rtt
    \<and> 9 * max (unat (latest_rtt rtt)) (unat (smoothed_rtt rtt)) div 8 \<le> unat now - unat sent_at"
proof -
  let ?m = "max (latest_rtt rtt) (smoothed_rtt rtt)"
  have m: "unat ?m = max (unat (latest_rtt rtt)) (unat (smoothed_rtt rtt))"
    by (simp add: max_def word_le_nat_alt)
  then have "unat ?m < 2 ^ 60" using assms by simp
  then have "unat (9 * ?m) = 9 * unat ?m" by (simp add: unat_u64_mult)
  then have "unat (9 * ?m div 8) = 9 * max (unat (latest_rtt rtt)) (unat (smoothed_rtt rtt)) div 8"
    using m by (simp add: unat_div)
  then show ?thesis
    by (auto simp: time_threshold_lost_def duration_since_def Let_def word_le_nat_alt
        unat_u64_saturating_sub)
qed

section \<open>Properties\<close>

text \<open>
  C30: The estimate stays within what was measured. For any samples between \<open>lo\<close> and \<open>hi\<close>
  milliseconds, \<open>hi\<close> below \<open>2 ^ 60\<close>, no step overflows: the smoothed value lies between \<open>lo\<close> and
  \<open>hi\<close>, the variance is at most \<open>hi\<close>, the minimum and the latest value are those of the samples,
  and the probe timeout lies between \<open>lo + delay\<close> and \<open>5 * hi + 1 + delay\<close>.
\<close>

theorem rtt_estimate_bounds:
  assumes "list_all (\<lambda>x. lo \<le> unat x \<and> unat x \<le> hi) (x # xs)" and "hi < 2 ^ 60"
    and "unat delay < 2 ^ 60"
  shows "let r = foldl rtt_sample RttEstimator_new (x # xs); t = pto (LossDetector_new delay) r in
    lo \<le> unat (smoothed_rtt r) \<and> unat (smoothed_rtt r) \<le> hi \<and> unat (rtt_variance r) \<le> hi
    \<and> min_rtt r = foldl min x xs \<and> latest_rtt r = last (x # xs)
    \<and> lo + unat delay \<le> unat t \<and> unat t \<le> 5 * hi + 1 + unat delay"
proof -
  let ?first = "rtt_sample RttEstimator_new x" and ?r = "foldl rtt_sample RttEstimator_new (x # xs)"
  have "rtt_within lo hi ?first"
    using assms by (intro rtt_within_sample) (auto simp: RttEstimator_new_def)
  then have w: "rtt_within lo hi ?r" using assms rtt_within_samples[of lo hi ?first xs] by simp
  have "unat (pto (LossDetector_new delay) ?r) =
      unat (smoothed_rtt ?r) + max (4 * unat (rtt_variance ?r)) 1 + unat delay"
    by (rule pto_value[OF w assms(2,3)])
  then show ?thesis
    using w min_rtt_samples[of ?first xs] by (auto simp: Let_def rtt_within_def RttEstimator_new_def)
qed


theorem rtt_estimate_bounds_witness:
  "let r = foldl rtt_sample RttEstimator_new [100, 300, 200]; t = pto (LossDetector_new 25) r in
    100 \<le> unat (smoothed_rtt r) \<and> unat (smoothed_rtt r) \<le> 300 \<and> unat (rtt_variance r) \<le> 300
    \<and> min_rtt r = foldl min 100 [300, 200] \<and> latest_rtt r = last [100, 300, 200]
    \<and> 100 + unat (25 :: u64) \<le> unat t \<and> unat t \<le> 5 * 300 + 1 + unat (25 :: u64)"
  by (rule rtt_estimate_bounds) simp_all

text \<open>
  C31: Probe backoff. After any sequence of expiries and acknowledgements the deadline is the base
  timeout times \<open>2 ^ min 6 n\<close> after \<open>now\<close>, for the \<open>n\<close> expiries since the last acknowledgement; it
  saturates at the end of the clock instead of wrapping.
\<close>

theorem pto_backoff_deadline:
  "unat (next_deadline (foldl pto_step PtoState_default evs) pto_ms now) =
     min (unat now + unat pto_ms * 2 ^ min 6 (trailing_expiries evs)) (2 ^ 64 - 1)"
  using pto_run[of evs] by (simp add: unat_next_deadline multiplier_pow)

text \<open>
  C12: Loss detection splits the queue by the two thresholds, written out over the natural numbers.
  A packet is lost when its number is at least three below the largest acknowledged one, or when it
  is below that number, a round-trip time has been measured, and it was sent at least 9/8 of the
  larger of the latest and the smoothed round-trip time ago, rounded down. Exactly the lost packets
  are reported and exactly the others are kept, in the order they were sent; the largest
  acknowledged number and those above it are never reported. The estimates are below \<open>2 ^ 60\<close>
  milliseconds, so that nothing wraps.
\<close>

theorem detect_lost_exact:
  assumes "length sent \<le> MAX_OUTSTANDING_PACKETS"
    and "list_all (\<lambda>p. sp_packet_number p \<le> MAX_PACKET_NUMBER) sent"
    and "unat (latest_rtt rtt) < 2 ^ 60" "unat (smoothed_rtt rtt) < 2 ^ 60"
    and "detect_lost_packets sent rtt now largest = (lost, keep)"
  shows "let is_lost = (\<lambda>p.
          unat (sp_packet_number p) + 3 \<le> unat largest
          \<or> sp_packet_number p < largest \<and> rtt_initialized rtt
            \<and> 9 * max (unat (latest_rtt rtt)) (unat (smoothed_rtt rtt)) div 8
                \<le> unat now - unat (sp_sent_at p)) in
      lost = map sp_packet_number (filter is_lost sent)
      \<and> keep = filter (\<lambda>p. \<not> is_lost p) sent
      \<and> list_all (\<lambda>pn. pn < largest) lost"
proof -
  let ?L = "\<lambda>p. unat (sp_packet_number p) + 3 \<le> unat largest
    \<or> sp_packet_number p < largest \<and> rtt_initialized rtt
      \<and> 9 * max (unat (latest_rtt rtt)) (unat (smoothed_rtt rtt)) div 8 \<le> unat now - unat (sp_sent_at p)"
  have eq: "packet_lost rtt now largest p \<longleftrightarrow> ?L p" if "p \<in> set sent" for p
    using assms(2) that
    by (simp add: packet_lost_def packet_threshold_nat time_threshold_nat[OF assms(3,4)] list_all_iff)
  have below: "?L p \<Longrightarrow> sp_packet_number p < largest" for p
    by (auto simp: word_less_nat_alt)
  have "filter (packet_lost rtt now largest) sent = filter ?L sent"
    "filter (\<lambda>p. \<not> packet_lost rtt now largest p) sent = filter (\<lambda>p. \<not> ?L p) sent"
    by (rule filter_cong[OF refl], use eq in blast)+
  then have "lost = map sp_packet_number (filter ?L sent)" "keep = filter (\<lambda>p. \<not> ?L p) sent"
    using assms(1,5) by (simp_all add: detect_lost_eq)
  moreover from this have "list_all (\<lambda>pn. pn < largest) lost"
    using below by (auto simp: list_all_iff)
  ultimately show ?thesis unfolding Let_def by blast
qed

text \<open>
  Six packets, the largest acknowledged number 4, a latest round-trip time of 80 and a smoothed one
  of 40 milliseconds: 0 and 1 are three below, 2 is 90 milliseconds old and 3 is one younger.
\<close>

theorem detect_lost_exact_witness:
  "let p = (\<lambda>(pn, at). SentPacket_new pn PacketSpace.SessionData at 64 True 0);
       sent = map p [(0, 99), (1, 99), (2, 10), (3, 11), (4, 0), (5, 0)];
       rtt = \<lparr>latest_rtt = 80, min_rtt = 40, smoothed_rtt = 40, rtt_variance = 20, rtt_initialized = True\<rparr> in
    detect_lost_packets sent rtt 100 4 = ([0, 1, 2], map p [(3, 11), (4, 0), (5, 0)])"
proof -
  let ?p = "\<lambda>(pn, at). SentPacket_new pn PacketSpace.SessionData at 64 True 0"
  let ?sent = "map ?p [(0, 99), (1, 99), (2, 10), (3, 11), (4, 0), (5, 0)]"
  let ?rtt = "\<lparr>latest_rtt = 80, min_rtt = 40, smoothed_rtt = 40, rtt_variance = 20, rtt_initialized = True\<rparr>"
  obtain lost keep where d: "detect_lost_packets ?sent ?rtt 100 4 = (lost, keep)" by fastforce
  have "length ?sent \<le> MAX_OUTSTANDING_PACKETS"
    "list_all (\<lambda>p. sp_packet_number p \<le> MAX_PACKET_NUMBER) ?sent"
    "unat (latest_rtt ?rtt) < 2 ^ 60" "unat (smoothed_rtt ?rtt) < 2 ^ 60"
    by (simp_all add: SentPacket_new_def MAX_PACKET_NUMBER_def)
  from detect_lost_exact[OF this d] have "lost = [0, 1, 2] \<and> keep = map ?p [(3, 11), (4, 0), (5, 0)]"
    by (simp add: Let_def SentPacket_new_def)
  with d show ?thesis by (simp add: Let_def)
qed

end
