(* ===== verification/Frame_Codec.thy ===== *)
theory Frame_Codec
  imports Byte_String
begin

text \<open>
  What every frame codec of \<open>crates/umc-wire\<close> is built from: the registered frame types and
  their extension behaviour (\<open>crates/umc-types/src/frame.rs\<close>), the error type of
  \<open>frame.rs\<close>, and the reads and writes the frame modules repeat as closures. A read takes the
  body and the current position \<open>pos\<close> and returns the value with the next position.

  The locale \<open>frame_codec\<close> is the contract between one frame's \<open>encode\<close> and \<open>decode\<close>
  and the packet parser that calls them; \<open>canonical_frame_codec\<close> adds that a frame has only
  one encoding. Every frame type is an interpretation of one of the two.
\<close>

section \<open>Frame types\<close>

type_synonym FrameType = u64

definition FT_PADDING :: FrameType where "FT_PADDING = 0x00"
definition FT_PING :: FrameType where "FT_PING = 0x04"
definition FT_ACK :: FrameType where "FT_ACK = 0x08"
definition FT_CONNECTION_CLOSE :: FrameType where "FT_CONNECTION_CLOSE = 0x0C"
definition FT_STREAM :: FrameType where "FT_STREAM = 0x10"
definition FT_RESET_STREAM :: FrameType where "FT_RESET_STREAM = 0x14"
definition FT_STOP_SENDING :: FrameType where "FT_STOP_SENDING = 0x18"
definition FT_MAX_DATA :: FrameType where "FT_MAX_DATA = 0x1C"
definition FT_MAX_STREAM_DATA :: FrameType where "FT_MAX_STREAM_DATA = 0x20"
definition FT_MAX_STREAMS :: FrameType where "FT_MAX_STREAMS = 0x24"
definition FT_DATAGRAM :: FrameType where "FT_DATAGRAM = 0x28"
definition FT_NEW_CONNECTION_ID :: FrameType where "FT_NEW_CONNECTION_ID = 0x2C"
definition FT_RETIRE_CONNECTION_ID :: FrameType where "FT_RETIRE_CONNECTION_ID = 0x30"
definition FT_PATH_CHALLENGE :: FrameType where "FT_PATH_CHALLENGE = 0x34"
definition FT_PATH_RESPONSE :: FrameType where "FT_PATH_RESPONSE = 0x38"
definition FT_PATH_STATUS :: FrameType where "FT_PATH_STATUS = 0x3C"
definition FT_MIGRATE :: FrameType where "FT_MIGRATE = 0x40"
definition FT_KEY_UPDATE :: FrameType where "FT_KEY_UPDATE = 0x44"
definition FT_ROUTE_REQUEST :: FrameType where "FT_ROUTE_REQUEST = 0x48"
definition FT_ROUTE_RESPONSE :: FrameType where "FT_ROUTE_RESPONSE = 0x4C"
definition FT_ROUTE_ERROR :: FrameType where "FT_ROUTE_ERROR = 0x50"
definition FT_RELAY_OPEN :: FrameType where "FT_RELAY_OPEN = 0x54"
definition FT_RELAY_DATA :: FrameType where "FT_RELAY_DATA = 0x58"
definition FT_RELAY_CLOSE :: FrameType where "FT_RELAY_CLOSE = 0x5C"
definition FT_BUNDLE :: FrameType where "FT_BUNDLE = 0x60"
definition FT_BUNDLE_ACK :: FrameType where "FT_BUNDLE_ACK = 0x64"
definition FT_PEER_HINT :: FrameType where "FT_PEER_HINT = 0x68"
definition FT_CAPABILITIES :: FrameType where "FT_CAPABILITIES = 0x6C"
definition FT_AUTH :: FrameType where "FT_AUTH = 0x70"
definition FT_HANDSHAKE_DATA :: FrameType where "FT_HANDSHAKE_DATA = 0x74"
definition FT_SESSION_TICKET :: FrameType where "FT_SESSION_TICKET = 0x78"
definition FT_SERVICE_HINT :: FrameType where "FT_SERVICE_HINT = 0x7C"
definition FT_DHT_LOOKUP :: FrameType where "FT_DHT_LOOKUP = 0x7F"
definition FT_RELAY_STATUS :: FrameType where "FT_RELAY_STATUS = 0x82"
definition FT_REVOCATION_BATCH :: FrameType where "FT_REVOCATION_BATCH = 0x83"

lemmas FT_defs =
  FT_PADDING_def FT_PING_def FT_ACK_def FT_CONNECTION_CLOSE_def FT_STREAM_def FT_RESET_STREAM_def
  FT_STOP_SENDING_def FT_MAX_DATA_def FT_MAX_STREAM_DATA_def FT_MAX_STREAMS_def FT_DATAGRAM_def
  FT_NEW_CONNECTION_ID_def FT_RETIRE_CONNECTION_ID_def FT_PATH_CHALLENGE_def FT_PATH_RESPONSE_def
  FT_PATH_STATUS_def FT_MIGRATE_def FT_KEY_UPDATE_def FT_ROUTE_REQUEST_def FT_ROUTE_RESPONSE_def
  FT_ROUTE_ERROR_def FT_RELAY_OPEN_def FT_RELAY_DATA_def FT_RELAY_CLOSE_def FT_BUNDLE_def
  FT_BUNDLE_ACK_def FT_PEER_HINT_def FT_CAPABILITIES_def FT_AUTH_def FT_HANDSHAKE_DATA_def
  FT_SESSION_TICKET_def FT_SERVICE_HINT_def FT_DHT_LOOKUP_def FT_RELAY_STATUS_def
  FT_REVOCATION_BATCH_def

datatype ExtensionBehavior =
  CriticalFixed | OptionalFixed | CriticalLengthDelimited | OptionalLengthDelimited

definition behavior :: "FrameType \<Rightarrow> ExtensionBehavior" where
  "behavior ty =
     (let b = ty AND 0b11 in
      if b = 0b00 then CriticalFixed
      else if b = 0b01 then OptionalFixed
      else if b = 0b10 then CriticalLengthDelimited
      else OptionalLengthDelimited)"

section \<open>Errors, reads and writes\<close>

datatype FrameError =
    UnknownCriticalFrame FrameType
  | UnknownOptionalFixedFrame FrameType
  | InvalidPadding
  | AckRangeUnderflow
  | TooManyAckRanges
  | AckDelayTooLarge
  | Varint DecodeError
  | VarintEncode EncodeError
  | Truncated
  | LengthExceedsLimit
  | UnsupportedLengthDelimited

definition read_varint :: "bytes \<Rightarrow> nat \<Rightarrow> FrameError + u64 \<times> nat" where
  "read_varint body p =
     bindR (map_err FrameError.Varint (varint_decode (drop p body))) (\<lambda>(v, n). Inr (v, p + n))"

definition read_bytes :: "bytes \<Rightarrow> nat \<Rightarrow> nat \<Rightarrow> FrameError + bytes \<times> nat" where
  "read_bytes body p limit =
     bindR (map_err (\<lambda>_. FrameError.Truncated) (bytes_decode (drop p body) limit))
       (\<lambda>(v, n). Inr (v, p + n))"

definition read_u8 :: "bytes \<Rightarrow> nat \<Rightarrow> FrameError + u8 \<times> nat" where
  "read_u8 body p = bindR (ok_or (get_at body p) FrameError.Truncated) (\<lambda>b. Inr (b, p + 1))"

definition read_exact :: "bytes \<Rightarrow> nat \<Rightarrow> nat \<Rightarrow> FrameError + bytes \<times> nat" where
  "read_exact body pos n =
     bindR (ok_or (usize_checked_add pos n) FrameError.Truncated) (\<lambda>end.
     bindR (ok_or (get_range body pos end) FrameError.Truncated) (\<lambda>data. Inr (data, end)))"

definition write_varint :: "bytes \<Rightarrow> u64 \<Rightarrow> FrameError + bytes" where
  "write_varint out v = map_err VarintEncode (varint_encode_into out v)"

definition write_bytes :: "bytes \<Rightarrow> bytes \<Rightarrow> nat \<Rightarrow> FrameError + bytes" where
  "write_bytes out v limit = map_err (\<lambda>_. FrameError.LengthExceedsLimit) (bytes_encode out v limit)"

text \<open>\<open>n\<close> rounds of a reader, the results collected in order: the counted \<open>for\<close> loops.\<close>

fun read_many :: "(nat \<Rightarrow> FrameError + 'a \<times> nat) \<Rightarrow> nat \<Rightarrow> nat \<Rightarrow> FrameError + 'a list \<times> nat" where
  "read_many rd 0 p = Inr ([], p)"
| "read_many rd (Suc k) p =
     bindR (rd p) (\<lambda>(x, p). bindR (read_many rd k p) (\<lambda>(xs, p). Inr (x # xs, p)))"

fun write_many :: "(bytes \<Rightarrow> 'a \<Rightarrow> FrameError + bytes) \<Rightarrow> bytes \<Rightarrow> 'a list \<Rightarrow> FrameError + bytes" where
  "write_many wr out [] = Inr out"
| "write_many wr out (x # xs) = bindR (wr out x) (\<lambda>out. write_many wr out xs)"

section \<open>Writes append, reads invert\<close>

lemma FT_in_range [simp]:
    "FT_PADDING \<le> MAX_VARINT"
    "FT_PING \<le> MAX_VARINT"
    "FT_ACK \<le> MAX_VARINT"
    "FT_CONNECTION_CLOSE \<le> MAX_VARINT"
    "FT_STREAM \<le> MAX_VARINT"
    "FT_RESET_STREAM \<le> MAX_VARINT"
    "FT_STOP_SENDING \<le> MAX_VARINT"
    "FT_MAX_DATA \<le> MAX_VARINT"
    "FT_MAX_STREAM_DATA \<le> MAX_VARINT"
    "FT_MAX_STREAMS \<le> MAX_VARINT"
    "FT_DATAGRAM \<le> MAX_VARINT"
    "FT_NEW_CONNECTION_ID \<le> MAX_VARINT"
    "FT_RETIRE_CONNECTION_ID \<le> MAX_VARINT"
    "FT_PATH_CHALLENGE \<le> MAX_VARINT"
    "FT_PATH_RESPONSE \<le> MAX_VARINT"
    "FT_PATH_STATUS \<le> MAX_VARINT"
    "FT_MIGRATE \<le> MAX_VARINT"
    "FT_KEY_UPDATE \<le> MAX_VARINT"
    "FT_ROUTE_REQUEST \<le> MAX_VARINT"
    "FT_ROUTE_RESPONSE \<le> MAX_VARINT"
    "FT_ROUTE_ERROR \<le> MAX_VARINT"
    "FT_RELAY_OPEN \<le> MAX_VARINT"
    "FT_RELAY_DATA \<le> MAX_VARINT"
    "FT_RELAY_CLOSE \<le> MAX_VARINT"
    "FT_BUNDLE \<le> MAX_VARINT"
    "FT_BUNDLE_ACK \<le> MAX_VARINT"
    "FT_PEER_HINT \<le> MAX_VARINT"
    "FT_CAPABILITIES \<le> MAX_VARINT"
    "FT_AUTH \<le> MAX_VARINT"
    "FT_HANDSHAKE_DATA \<le> MAX_VARINT"
    "FT_SESSION_TICKET \<le> MAX_VARINT"
    "FT_SERVICE_HINT \<le> MAX_VARINT"
    "FT_DHT_LOOKUP \<le> MAX_VARINT"
    "FT_RELAY_STATUS \<le> MAX_VARINT"
    "FT_REVOCATION_BATCH \<le> MAX_VARINT"
  by (simp_all add: FT_defs MAX_VARINT_def)

lemma bits_in_range [simp]: "0 \<le> MAX_VARINT" "1 \<le> MAX_VARINT"
  by (simp_all add: MAX_VARINT_def)

lemma write_varint_Inr [codec_enc]:
  "write_varint out v = Inr out' \<longleftrightarrow> v \<le> MAX_VARINT \<and> out' = out @ varint_bytes v"
  by (auto simp: write_varint_def varint_encode_into_eq)

lemma write_bytes_Inr [codec_enc]:
  "limit < 2 ^ 62 \<Longrightarrow>
     write_bytes out v limit = Inr out' \<longleftrightarrow> length v \<le> limit \<and> out' = out @ bytes_field v"
  by (auto simp: write_bytes_def bytes_encode_eq)

lemma read_varint_iff [codec_dec]:
  "read_varint body p = Inr (v, p') \<longleftrightarrow>
     v \<le> MAX_VARINT \<and> p' = p + length (varint_bytes v) \<and> at_pos body p (varint_bytes v)"
proof -
  have "(\<exists>rest. drop p body = varint_bytes v @ rest) \<longleftrightarrow>
        drop p body = varint_bytes v @ drop (length (varint_bytes v)) (drop p body)"
    by (auto simp del: drop_drop)
  then show ?thesis
    using varint_bytes_nonempty[of v]
    by (auto simp: read_varint_def bindR_Inr_iff varint_decode_iff at_pos_nonempty)
qed

lemma bytes_field_nonempty: "length v < 2 ^ 62 \<Longrightarrow> bytes_field v \<noteq> []"
  by (simp add: bytes_field_def varint_bytes_nonempty of_nat_le_MAX_VARINT)

lemma read_bytes_iff [codec_dec]:
  assumes "limit < 2 ^ 62"
  shows "read_bytes body p limit = Inr (v, p') \<longleftrightarrow>
     length v \<le> limit \<and> p' = p + length (bytes_field v) \<and> at_pos body p (bytes_field v)"
proof -
  have "(\<exists>rest. drop p body = bytes_field v @ rest) \<longleftrightarrow>
        drop p body = bytes_field v @ drop (length (bytes_field v)) (drop p body)"
    by (auto simp del: drop_drop)
  then show ?thesis
    using assms bytes_field_nonempty[of v]
    by (auto simp: read_bytes_def bindR_Inr_iff bytes_decode_iff at_pos_nonempty)
qed

lemma read_u8_iff [codec_dec]:
  "read_u8 body p = Inr (b, p') \<longleftrightarrow> p' = Suc p \<and> get_at body p = Some b"
  by (auto simp: read_u8_def bindR_Inr_iff)

lemma read_exact_dest [codec_dec]:
  "read_exact body p n = Inr (d, p') \<longleftrightarrow>
     p + n < 2 ^ 64 \<and> length d = n \<and> p' = p + length d \<and> at_pos body p d"
  using at_pos_length[of body p d] at_pos_get_range[of body p d]
  by (auto simp: read_exact_def bindR_Inr_iff usize_checked_add_def dest: get_range_at_pos
      split: if_splits)

text \<open>The same facts oriented for rewriting a decoder on a known buffer.\<close>

lemma read_varint_eq [codec_run]:
  "at_pos body p (varint_bytes v) \<Longrightarrow> v \<le> MAX_VARINT \<Longrightarrow>
   read_varint body p = Inr (v, p + length (varint_bytes v))"
  by (simp add: read_varint_iff)

lemma read_bytes_eq [codec_run]:
  "at_pos body p (bytes_field v) \<Longrightarrow> length v \<le> limit \<Longrightarrow> limit < 2 ^ 62 \<Longrightarrow>
   read_bytes body p limit = Inr (v, p + length (bytes_field v))"
  by (simp add: read_bytes_iff)

lemma read_u8_eq [codec_run]:
  "get_at body p = Some b \<Longrightarrow> read_u8 body p = Inr (b, Suc p)"
  by (simp add: read_u8_iff)

lemma read_exact_eq [codec_run]:
  "at_pos body p d \<Longrightarrow> length d = n \<Longrightarrow> p + n < 2 ^ 64 \<Longrightarrow> read_exact body p n = Inr (d, p + n)"
  by (simp add: read_exact_dest)

lemma varint_bytes_le_8: "v \<le> MAX_VARINT \<Longrightarrow> length (varint_bytes v) \<le> 8"
  using varint_bytes_length[of v] by auto

lemma bytes_field_length: "length v < 2 ^ 62 \<Longrightarrow> length (bytes_field v) \<le> 8 + length v"
  using varint_bytes_le_8[OF of_nat_le_MAX_VARINT, of "length v"] by (simp add: bytes_field_def)

lemma write_many_Inr:
  assumes "\<And>out x out'. wr out x = Inr out' \<longleftrightarrow> P x \<and> out' = out @ fld x"
  shows "write_many wr out xs = Inr out' \<longleftrightarrow> (\<forall>x \<in> set xs. P x) \<and> out' = out @ concat (map fld xs)"
  by (induction xs arbitrary: out) (auto simp: bindR_Inr_iff assms)

lemma read_many_iff:
  assumes rd: "\<And>p x p'. rd p = Inr (x, p') \<longleftrightarrow>
      P x \<and> p' = p + length (fld x) \<and> at_pos body p (fld x)"
    and "p \<le> length body"
  shows "read_many rd k p = Inr (xs, p') \<longleftrightarrow>
    length xs = k \<and> (\<forall>x \<in> set xs. P x) \<and> p' = p + length (concat (map fld xs))
    \<and> at_pos body p (concat (map fld xs))"
  using assms(2)
proof (induction k arbitrary: p p' xs)
  case (Suc k)
  have "read_many rd (Suc k) p = Inr (xs, p') \<longleftrightarrow>
    (\<exists>y ys q. xs = y # ys \<and> rd p = Inr (y, q) \<and> read_many rd k q = Inr (ys, p'))"
    by (auto simp: bindR_Inr_iff)
  also have "\<dots> \<longleftrightarrow> (\<exists>y ys. xs = y # ys \<and> P y \<and> at_pos body p (fld y)
      \<and> read_many rd k (p + length (fld y)) = Inr (ys, p'))"
    by (auto simp: rd)
  also have "\<dots> \<longleftrightarrow> length xs = Suc k \<and> (\<forall>x \<in> set xs. P x)
    \<and> p' = p + length (concat (map fld xs)) \<and> at_pos body p (concat (map fld xs))"
  proof (cases xs)
    case (Cons y ys)
    have IH: "read_many rd k (p + length (fld y)) = Inr (ys, p') \<longleftrightarrow>
        length ys = k \<and> (\<forall>x \<in> set ys. P x) \<and> p' = p + length (fld y) + length (concat (map fld ys))
        \<and> at_pos body (p + length (fld y)) (concat (map fld ys))" if "at_pos body p (fld y)"
      using Suc.IH[OF at_pos_length[OF that]] .
    show ?thesis unfolding Cons using IH by (simp add: add.assoc) blast
  qed simp
  finally show ?case .
qed auto

section \<open>The contract of a frame codec\<close>

locale frame_codec =
  fixes ty :: FrameType
    and ok :: "'f \<Rightarrow> bool"
    and enc :: "'f \<Rightarrow> FrameError + bytes"
    and dec :: "bytes \<Rightarrow> FrameError + 'f \<times> nat"
  assumes ty_in_range: "ty \<le> MAX_VARINT"
    and enc_dec: "ok f \<Longrightarrow> enc f = Inr bs \<Longrightarrow>
          \<exists>body. bs = varint_bytes ty @ body \<and> (\<forall>rest. dec (body @ rest) = Inr (f, length body))"
    and dec_bound: "dec body = Inr (f, n) \<Longrightarrow> n \<le> length body"
begin

lemma enc_inj: "ok f \<Longrightarrow> ok g \<Longrightarrow> enc f = Inr bs \<Longrightarrow> enc g = Inr bs \<Longrightarrow> f = g"
  using enc_dec[of f bs] enc_dec[of g bs] by (metis Pair_inject same_append_eq sum.inject(2))

lemma type_prefix:
  assumes "ok f" and "enc f = Inr bs"
  shows "varint_decode (bs @ rest) = Inr (ty, length (varint_bytes ty))"
    and "length (varint_bytes ty) \<le> length bs"
  using enc_dec[OF assms] ty_in_range by (auto simp: codec_run)

lemma decode_at:
  assumes "ok f" and "enc f = Inr bs"
  shows "dec (drop (length (varint_bytes ty)) (bs @ rest)) = Inr (f, length bs - length (varint_bytes ty))"
  using enc_dec[OF assms] by auto

end

locale canonical_frame_codec = frame_codec +
  assumes dec_enc: "dec body = Inr (f, n) \<Longrightarrow> ok f \<and> enc f = Inr (varint_bytes ty @ take n body)"
begin

lemma dec_iff:
  "dec body = Inr (f, n) \<longleftrightarrow>
     ok f \<and> n \<le> length body \<and> enc f = Inr (varint_bytes ty @ take n body)"
proof
  assume "ok f \<and> n \<le> length body \<and> enc f = Inr (varint_bytes ty @ take n body)"
  then have "ok f" and n: "n \<le> length body" and e: "enc f = Inr (varint_bytes ty @ take n body)"
    by auto
  from enc_dec[OF this(1) e]
  have "\<forall>rest. dec (take n body @ rest) = Inr (f, length (take n body))"
    by auto
  from spec[OF this, of "drop n body"] show "dec body = Inr (f, n)" using n by simp
qed (use dec_enc dec_bound in blast)

lemma dec_prefix: "dec body = Inr (f, n) \<Longrightarrow> dec (take n body @ rest) = Inr (f, n)"
  by (auto simp: dec_iff)

lemma dec_unique_bytes:
  "dec a = Inr (f, n) \<Longrightarrow> dec b = Inr (f, m) \<Longrightarrow> take n a = take m b"
  by (auto simp: dec_iff)

end

text \<open>
  A length-delimited frame: the encoder writes type, body length and body, and the decoder is
  handed exactly the body. It has to consume all of it.
\<close>

locale delimited_codec =
  fixes ty :: FrameType
    and ok :: "'f \<Rightarrow> bool"
    and enc :: "'f \<Rightarrow> FrameError + bytes"
    and dec :: "bytes \<Rightarrow> FrameError + 'f \<times> nat"
  assumes ty_in_range: "ty \<le> MAX_VARINT"
    and enc_dec: "ok f \<Longrightarrow> enc f = Inr bs \<Longrightarrow>
          \<exists>body. length body < 2 ^ 62
            \<and> bs = varint_bytes ty @ varint_bytes (of_nat (length body)) @ body
            \<and> dec body = Inr (f, length body)"
begin

lemma enc_inj:
  assumes "ok f" and "ok g" and "enc f = Inr bs" and "enc g = Inr bs"
  shows "f = g"
proof -
  obtain a b where a: "length a < 2 ^ 62" "dec a = Inr (f, length a)"
      and b: "length b < 2 ^ 62" "dec b = Inr (g, length b)"
      and eq: "varint_bytes (of_nat (length a)) @ a = varint_bytes (of_nat (length b)) @ b"
    using enc_dec[OF assms(1,3)] enc_dec[OF assms(2,4)] by auto
  have "varint_decode (varint_bytes (of_nat (length a)) @ a)
      = varint_decode (varint_bytes (of_nat (length b)) @ b)"
    using eq by simp
  then have "(of_nat (length a) :: u64) = of_nat (length b)"
    using a(1) b(1) by (simp add: varint_decode_bytes of_nat_le_MAX_VARINT)
  then have "a = b" using eq by simp
  then show ?thesis using a(2) b(2) by simp
qed

end

text \<open>
  Both contracts follow when the encoder's success and the decoder's success are characterised
  over the same body \<open>fld f\<close>.
\<close>

lemma frame_codecI:
  assumes "ty \<le> MAX_VARINT"
    and "\<And>f bs. ok f \<Longrightarrow> enc f = Inr bs \<Longrightarrow>
           bs = varint_bytes ty @ fld f \<and> (\<forall>rest. dec (fld f @ rest) = Inr (f, length (fld f)))"
    and "\<And>f n body. dec body = Inr (f, n) \<Longrightarrow> n \<le> length body"
  shows "frame_codec ty ok enc dec"
  using assms by unfold_locales blast+

lemma canonical_frame_codecI:
  assumes ty: "ty \<le> MAX_VARINT"
    and enc: "\<And>f bs. enc f = Inr bs \<longleftrightarrow> P f \<and> bs = varint_bytes ty @ fld f"
    and dec1: "\<And>f n body. dec body = Inr (f, n) \<Longrightarrow>
           ok f \<and> P f \<and> n = length (fld f) \<and> at_pos body 0 (fld f)"
    and dec2: "\<And>f body. ok f \<Longrightarrow> P f \<Longrightarrow> at_pos body 0 (fld f) \<Longrightarrow> dec body = Inr (f, length (fld f))"
  shows "canonical_frame_codec ty ok enc dec"
proof
  fix body f n
  assume "dec body = Inr (f, n)"
  then have *: "ok f" "P f" "n = length (fld f)" "at_pos body 0 (fld f)"
    using dec1 by auto
  then show "n \<le> length body" by (simp add: at_pos_0_iff)
  show "ok f \<and> enc f = Inr (varint_bytes ty @ take n body)"
    using * by (simp add: enc at_pos_0_iff)
qed (use ty dec2 in \<open>auto simp: enc\<close>)

end
