(* ===== verification/Frames_Control.thy ===== *)
theory Frames_Control
  imports Frame_Codec
begin

text \<open>
  The two frames defined in \<open>crates/umc-wire/src/frame.rs\<close> itself: acknowledgements and
  connection close.
\<close>

section \<open>Model\<close>

definition MAX_ACK_RANGES :: nat where [simp]: "MAX_ACK_RANGES = 64"
definition MAX_REASON_LEN :: nat where [simp]: "MAX_REASON_LEN = 1024"

record AckRange =
  ar_gap :: u64
  ar_length :: u64

record AckFrame =
  ack_largest_acknowledged :: u64
  ack_ack_delay :: u64
  ack_first_ack_range :: u64
  ack_additional_ranges :: "AckRange list"

definition AckRange_write :: "bytes \<Rightarrow> AckRange \<Rightarrow> FrameError + bytes" where
  "AckRange_write out r =
     bindR (write_varint out (ar_gap r)) (\<lambda>out. write_varint out (ar_length r))"

definition AckRange_read :: "bytes \<Rightarrow> nat \<Rightarrow> FrameError + AckRange \<times> nat" where
  "AckRange_read body pos =
     bindR (read_varint body pos) (\<lambda>(gap, pos).
     bindR (read_varint body pos) (\<lambda>(len, pos).
     if len = 0 then Inl AckRangeUnderflow
     else Inr (\<lparr>ar_gap = gap, ar_length = len\<rparr>, pos)))"

definition AckFrame_encode :: "AckFrame \<Rightarrow> FrameError + bytes" where
  "AckFrame_encode f =
     (if length (ack_additional_ranges f) > MAX_ACK_RANGES then Inl TooManyAckRanges
      else
        bindR (write_varint [] FT_ACK) (\<lambda>out.
        bindR (write_varint out (ack_largest_acknowledged f)) (\<lambda>out.
        bindR (write_varint out (ack_ack_delay f)) (\<lambda>out.
        bindR (write_varint out (of_nat (length (ack_additional_ranges f) + 1))) (\<lambda>out.
        bindR (write_varint out (ack_first_ack_range f)) (\<lambda>out.
        write_many AckRange_write out (ack_additional_ranges f)))))))"

definition AckFrame_decode :: "bytes \<Rightarrow> FrameError + AckFrame \<times> nat" where
  "AckFrame_decode body =
     bindR (read_varint body 0) (\<lambda>(largest, pos).
     bindR (read_varint body pos) (\<lambda>(delay, pos).
     bindR (read_varint body pos) (\<lambda>(range_count, pos).
     if range_count = 0 \<or> range_count > of_nat MAX_ACK_RANGES + 1 then Inl TooManyAckRanges
     else
       bindR (read_varint body pos) (\<lambda>(first, pos).
       if first = 0 then Inl AckRangeUnderflow
       else
         bindR (read_many (AckRange_read body) (unat range_count - 1) pos) (\<lambda>(ranges, pos).
         Inr (\<lparr>ack_largest_acknowledged = largest, ack_ack_delay = delay,
               ack_first_ack_range = first, ack_additional_ranges = ranges\<rparr>, pos))))))"

record ConnectionCloseFrame =
  cc_error_code :: u64
  cc_trigger_frame_type :: u64
  cc_reason :: bytes

definition ConnectionCloseFrame_encode :: "ConnectionCloseFrame \<Rightarrow> FrameError + bytes" where
  "ConnectionCloseFrame_encode f =
     (if length (cc_reason f) > MAX_REASON_LEN then Inl FrameError.LengthExceedsLimit
      else
        bindR (write_varint [] FT_CONNECTION_CLOSE) (\<lambda>out.
        bindR (write_varint out (cc_error_code f)) (\<lambda>out.
        bindR (write_varint out (cc_trigger_frame_type f)) (\<lambda>out.
        write_bytes out (cc_reason f) MAX_REASON_LEN))))"

definition ConnectionCloseFrame_decode :: "bytes \<Rightarrow> FrameError + ConnectionCloseFrame \<times> nat" where
  "ConnectionCloseFrame_decode body =
     bindR (read_varint body 0) (\<lambda>(code, pos).
     bindR (read_varint body pos) (\<lambda>(trigger, pos).
     bindR (read_bytes body pos MAX_REASON_LEN) (\<lambda>(reason, pos).
     Inr (\<lparr>cc_error_code = code, cc_trigger_frame_type = trigger, cc_reason = reason\<rparr>, pos))))"

section \<open>Laws\<close>

definition AckRange_fits :: "AckRange \<Rightarrow> bool" where
  "AckRange_fits r \<longleftrightarrow> ar_gap r \<le> MAX_VARINT \<and> ar_length r \<le> MAX_VARINT"

definition AckRange_fields :: "AckRange \<Rightarrow> bytes" where
  "AckRange_fields r = varint_bytes (ar_gap r) @ varint_bytes (ar_length r)"

lemma AckRange_write_Inr:
  "AckRange_write out r = Inr out' \<longleftrightarrow> AckRange_fits r \<and> out' = out @ AckRange_fields r"
  by (auto simp: AckRange_write_def codec_enc AckRange_fits_def AckRange_fields_def)

lemma AckRange_read_iff:
  "AckRange_read body p = Inr (r, p') \<longleftrightarrow>
     (AckRange_fits r \<and> ar_length r \<noteq> 0) \<and> p' = p + length (AckRange_fields r)
     \<and> at_pos body p (AckRange_fields r)"
  by (cases r) (auto simp: AckRange_read_def codec_dec AckRange_fits_def AckRange_fields_def)

lemmas AckRanges_write = write_many_Inr[OF AckRange_write_Inr]
lemmas AckRanges_read = read_many_iff[OF AckRange_read_iff]

text \<open>No range of an acknowledgement is empty: what every decoder checks and no encoder does.\<close>

definition ack_ok :: "AckFrame \<Rightarrow> bool" where
  "ack_ok f \<longleftrightarrow> ack_first_ack_range f \<noteq> 0 \<and> (\<forall>r \<in> set (ack_additional_ranges f). ar_length r \<noteq> 0)"

definition Ack_fits :: "AckFrame \<Rightarrow> bool" where
  "Ack_fits f \<longleftrightarrow> ack_largest_acknowledged f \<le> MAX_VARINT \<and> ack_ack_delay f \<le> MAX_VARINT
     \<and> ack_first_ack_range f \<le> MAX_VARINT \<and> length (ack_additional_ranges f) \<le> MAX_ACK_RANGES
     \<and> (\<forall>r \<in> set (ack_additional_ranges f). AckRange_fits r)"

definition Ack_fields :: "AckFrame \<Rightarrow> bytes" where
  "Ack_fields f = varint_bytes (ack_largest_acknowledged f) @ varint_bytes (ack_ack_delay f)
     @ varint_bytes (of_nat (length (ack_additional_ranges f) + 1))
     @ varint_bytes (ack_first_ack_range f)
     @ concat (map AckRange_fields (ack_additional_ranges f))"

lemma AckFrame_encode_iff:
  "AckFrame_encode f = Inr bs \<longleftrightarrow> Ack_fits f \<and> bs = varint_bytes FT_ACK @ Ack_fields f"
  using of_nat_le_MAX_VARINT[of "length (ack_additional_ranges f) + 1"]
  by (auto simp: AckFrame_encode_def codec_enc AckRanges_write Ack_fits_def Ack_fields_def
      simp del: of_nat_add of_nat_Suc)

lemma ack_range_count:
  assumes "c \<noteq> 0" and "c \<le> of_nat MAX_ACK_RANGES + (1 :: u64)"
  shows "unat c - Suc 0 \<le> MAX_ACK_RANGES" and "of_nat (unat c - Suc 0 + 1) = c"
proof -
  have "unat c \<noteq> 0" using assms(1) by (simp add: unat_eq_zero)
  then have "unat c - Suc 0 + 1 = unat c" by simp
  then show "of_nat (unat c - Suc 0 + 1) = c" by simp
  show "unat c - Suc 0 \<le> MAX_ACK_RANGES" using assms(2) by (simp add: word_le_nat_alt)
qed

lemma AckFrame_decode_fields:
  assumes "AckFrame_decode body = Inr (f, n)"
  shows "ack_ok f \<and> Ack_fits f \<and> n = length (Ack_fields f) \<and> at_pos body 0 (Ack_fields f)"
proof -
  obtain l p1 d p2 c p3 a p4 rs where
    rd: "read_varint body 0 = Inr (l, p1)" "read_varint body p1 = Inr (d, p2)"
      "read_varint body p2 = Inr (c, p3)" "read_varint body p3 = Inr (a, p4)"
    and c: "c \<noteq> 0" "c \<le> of_nat MAX_ACK_RANGES + 1" and a: "a \<noteq> 0"
    and rs: "read_many (AckRange_read body) (unat c - 1) p4 = Inr (rs, n)"
    and f: "f = \<lparr>ack_largest_acknowledged = l, ack_ack_delay = d, ack_first_ack_range = a,
      ack_additional_ranges = rs\<rparr>"
    using assms by (auto simp: AckFrame_decode_def bindR_Inr_iff not_less split: if_splits)
  have "p4 \<le> length body" using rd(4) by (auto simp: codec_dec dest: at_pos_length)
  from AckRanges_read[OF this, THEN iffD1, OF rs] ack_range_count[OF c]
  show ?thesis
    using rd a unfolding f
    by (auto simp: codec_dec ack_ok_def Ack_fits_def Ack_fields_def simp del: of_nat_Suc of_nat_add)
qed

lemma AckFrame_decode_run:
  assumes "ack_ok f" and "Ack_fits f" and "at_pos body 0 (Ack_fields f)"
  shows "AckFrame_decode body = Inr (f, length (Ack_fields f))"
proof -
  let ?rs = "ack_additional_ranges f"
  let ?c = "of_nat (length ?rs + 1) :: u64"
  let ?p = "length (varint_bytes (ack_largest_acknowledged f)) + length (varint_bytes (ack_ack_delay f))
    + length (varint_bytes ?c) + length (varint_bytes (ack_first_ack_range f))"
  have rs: "read_many (AckRange_read body) (length ?rs) ?p
      = Inr (?rs, ?p + length (concat (map AckRange_fields ?rs)))"
    using assms at_pos_length[of body _ "varint_bytes (ack_first_ack_range f)"]
    by (intro AckRanges_read[THEN iffD2])
      (auto simp: ack_ok_def Ack_fits_def Ack_fields_def simp del: of_nat_Suc of_nat_add)
  have u: "unat ?c = length ?rs + 1" and le: "?c \<le> MAX_VARINT"
    using assms(2) by (intro unat_of_nat_62 of_nat_le_MAX_VARINT; simp add: Ack_fits_def)+
  then have c: "?c \<noteq> 0" "?c \<le> of_nat MAX_ACK_RANGES + 1"
    using assms(2) by (auto simp: word_le_nat_alt Ack_fits_def)
  show ?thesis
    using assms rs u le c
    by (auto simp: AckFrame_decode_def codec_run ack_ok_def Ack_fits_def Ack_fields_def not_less
        simp del: of_nat_Suc of_nat_add)
qed

interpretation ack: canonical_frame_codec FT_ACK ack_ok AckFrame_encode AckFrame_decode
  by (rule canonical_frame_codecI[where P = Ack_fits and fld = Ack_fields])
    (auto simp: AckFrame_encode_iff dest: AckFrame_decode_fields intro: AckFrame_decode_run)

interpretation connection_close: canonical_frame_codec
  FT_CONNECTION_CLOSE "\<lambda>_. True" ConnectionCloseFrame_encode ConnectionCloseFrame_decode
proof (rule canonical_frame_codecI
    [where P = "\<lambda>f. cc_error_code f \<le> MAX_VARINT \<and> cc_trigger_frame_type f \<le> MAX_VARINT
        \<and> length (cc_reason f) \<le> MAX_REASON_LEN"
      and fld = "\<lambda>f. varint_bytes (cc_error_code f) @ varint_bytes (cc_trigger_frame_type f)
        @ bytes_field (cc_reason f)"], goal_cases)
  case 2 show ?case by (auto simp: ConnectionCloseFrame_encode_def codec_enc)
next
  case 3 then show ?case by (auto simp: ConnectionCloseFrame_decode_def codec_dec)
next
  case 4 then show ?case by (auto simp: ConnectionCloseFrame_decode_def codec_run)
qed simp

end
