(* ===== verification/Frames_Stream.thy ===== *)
theory Frames_Stream
  imports Frame_Codec
begin

text \<open>
  Application data frames of \<open>crates/umc-wire/src/frames\<close>: flow control (\<open>flow.rs\<close>),
  streams (\<open>stream.rs\<close>) and datagrams (\<open>datagram.rs\<close>). Each \<open>*_fields\<close> function is the
  body the encoder writes; the interpretations at the end of each section discharge the codec
  contract for the model's own \<open>encode\<close> and \<open>decode\<close>.
\<close>

section \<open>Flow control\<close>

record MaxDataFrame =
  md_maximum_data :: u64

definition MaxDataFrame_encode :: "MaxDataFrame \<Rightarrow> FrameError + bytes" where
  "MaxDataFrame_encode f =
     bindR (write_varint [] FT_MAX_DATA) (\<lambda>out.
     write_varint out (md_maximum_data f))"

definition MaxDataFrame_decode :: "bytes \<Rightarrow> FrameError + MaxDataFrame \<times> nat" where
  "MaxDataFrame_decode body =
     bindR (read_varint body 0) (\<lambda>(v, n). Inr (\<lparr>md_maximum_data = v\<rparr>, n))"

record MaxStreamDataFrame =
  msd_stream_id :: u64
  msd_maximum_stream_data :: u64

definition MaxStreamDataFrame_encode :: "MaxStreamDataFrame \<Rightarrow> FrameError + bytes" where
  "MaxStreamDataFrame_encode f =
     bindR (write_varint [] FT_MAX_STREAM_DATA) (\<lambda>out.
     bindR (write_varint out (msd_stream_id f)) (\<lambda>out.
     write_varint out (msd_maximum_stream_data f)))"

definition MaxStreamDataFrame_decode :: "bytes \<Rightarrow> FrameError + MaxStreamDataFrame \<times> nat" where
  "MaxStreamDataFrame_decode body =
     bindR (read_varint body 0) (\<lambda>(sid, n).
     bindR (read_varint body n) (\<lambda>(max, n).
     Inr (\<lparr>msd_stream_id = sid, msd_maximum_stream_data = max\<rparr>, n)))"

record MaxStreamsFrame =
  ms_bidirectional :: bool
  ms_maximum_streams :: u64

definition MaxStreamsFrame_encode :: "MaxStreamsFrame \<Rightarrow> FrameError + bytes" where
  "MaxStreamsFrame_encode f =
     bindR (write_varint [] FT_MAX_STREAMS) (\<lambda>out.
     bindR (write_varint out (of_bool (\<not> ms_bidirectional f))) (\<lambda>out.
     write_varint out (ms_maximum_streams f)))"

definition MaxStreamsFrame_decode :: "bytes \<Rightarrow> FrameError + MaxStreamsFrame \<times> nat" where
  "MaxStreamsFrame_decode body =
     bindR (read_varint body 0) (\<lambda>(dir, n).
     if dir > 1 then Inl InvalidPadding
     else
       bindR (read_varint body n) (\<lambda>(max, n).
       Inr (\<lparr>ms_bidirectional = (dir = 0), ms_maximum_streams = max\<rparr>, n)))"

section \<open>Streams\<close>

definition MAX_PROTOCOL_ID_LEN :: nat where [simp]: "MAX_PROTOCOL_ID_LEN = 255"
definition MAX_STREAM_METADATA_LEN :: nat where [simp]: "MAX_STREAM_METADATA_LEN = 4096"

record StreamFrame =
  sf_stream_id :: u64
  sf_fin :: bool
  sf_offset_present :: bool
  sf_len_present :: bool
  sf_open :: bool
  sf_unidirectional :: bool
  sf_offset :: u64
  sf_data :: bytes
  sf_protocol_id :: bytes
  sf_metadata :: bytes

definition StreamFrame_encode :: "StreamFrame \<Rightarrow> FrameError + bytes" where
  "StreamFrame_encode f =
     bindR (write_varint [] FT_STREAM) (\<lambda>out.
     bindR (write_varint out (sf_stream_id f)) (\<lambda>out.
     let flags = 0;
         flags = set_flag (sf_fin f) 0x01 flags;
         flags = set_flag (sf_offset_present f) 0x02 flags;
         flags = set_flag (sf_len_present f) 0x04 flags;
         flags = set_flag (sf_open f) 0x08 flags;
         flags = set_flag (sf_unidirectional f) 0x10 flags;
         out = out @ [flags] in
     bindR (if sf_offset_present f then write_varint out (sf_offset f) else Inr out) (\<lambda>out.
     bindR (if sf_len_present f then write_varint out (of_nat (length (sf_data f))) else Inr out)
       (\<lambda>out.
     let out = out @ sf_data f in
     if sf_open f then
       bindR (write_bytes out (sf_protocol_id f) MAX_PROTOCOL_ID_LEN) (\<lambda>out.
       write_bytes out (sf_metadata f) MAX_STREAM_METADATA_LEN)
     else Inr out))))"

definition StreamFrame_decode :: "bytes \<Rightarrow> FrameError + StreamFrame \<times> nat" where
  "StreamFrame_decode body =
     bindR (read_varint body 0) (\<lambda>(stream_id, pos).
     bindR (read_u8 body pos) (\<lambda>(flags, pos).
     if flag_set flags 0xE0 then Inl InvalidPadding
     else
       let offset_present = flag_set flags 0x02;
           len_present = flag_set flags 0x04 in
       bindR (if offset_present then read_varint body pos else Inr (0, pos)) (\<lambda>(offset, pos).
       bindR (if len_present then
                bindR (read_varint body pos) (\<lambda>(l, pos).
                if unat l < 2 ^ 32 then Inr (unat l, pos) else Inl FrameError.LengthExceedsLimit)
              else Inr (length body - pos, pos)) (\<lambda>(data_len, pos).
       bindR (read_exact body pos data_len) (\<lambda>(data, pos).
       bindR (if flag_set flags 0x08 then
                bindR (read_bytes body pos MAX_PROTOCOL_ID_LEN) (\<lambda>(protocol_id, pos).
                bindR (read_bytes body pos MAX_STREAM_METADATA_LEN) (\<lambda>(metadata, pos).
                Inr (protocol_id, metadata, pos)))
              else Inr ([], [], pos)) (\<lambda>(protocol_id, metadata, pos).
       Inr (\<lparr>sf_stream_id = stream_id,
             sf_fin = flag_set flags 0x01,
             sf_offset_present = offset_present,
             sf_len_present = len_present,
             sf_open = flag_set flags 0x08,
             sf_unidirectional = flag_set flags 0x10,
             sf_offset = offset,
             sf_data = data,
             sf_protocol_id = protocol_id,
             sf_metadata = metadata\<rparr>, pos)))))))"

record ResetStreamFrame =
  rs_stream_id :: u64
  rs_app_error_code :: u64
  rs_final_size :: u64

definition ResetStreamFrame_encode :: "ResetStreamFrame \<Rightarrow> FrameError + bytes" where
  "ResetStreamFrame_encode f =
     bindR (write_varint [] FT_RESET_STREAM) (\<lambda>out.
     bindR (write_varint out (rs_stream_id f)) (\<lambda>out.
     bindR (write_varint out (rs_app_error_code f)) (\<lambda>out.
     write_varint out (rs_final_size f))))"

definition ResetStreamFrame_decode :: "bytes \<Rightarrow> FrameError + ResetStreamFrame \<times> nat" where
  "ResetStreamFrame_decode body =
     bindR (read_varint body 0) (\<lambda>(stream_id, pos).
     bindR (read_varint body pos) (\<lambda>(code, pos).
     bindR (read_varint body pos) (\<lambda>(final_size, pos).
     Inr (\<lparr>rs_stream_id = stream_id, rs_app_error_code = code, rs_final_size = final_size\<rparr>, pos))))"

record StopSendingFrame =
  ss_stream_id :: u64
  ss_app_error_code :: u64

definition StopSendingFrame_encode :: "StopSendingFrame \<Rightarrow> FrameError + bytes" where
  "StopSendingFrame_encode f =
     bindR (write_varint [] FT_STOP_SENDING) (\<lambda>out.
     bindR (write_varint out (ss_stream_id f)) (\<lambda>out.
     write_varint out (ss_app_error_code f)))"

definition StopSendingFrame_decode :: "bytes \<Rightarrow> FrameError + StopSendingFrame \<times> nat" where
  "StopSendingFrame_decode body =
     bindR (read_varint body 0) (\<lambda>(stream_id, pos).
     bindR (read_varint body pos) (\<lambda>(code, pos).
     Inr (\<lparr>ss_stream_id = stream_id, ss_app_error_code = code\<rparr>, pos)))"

section \<open>Datagrams\<close>

definition MAX_DATAGRAM_PAYLOAD :: nat where "MAX_DATAGRAM_PAYLOAD = 1200"

record DatagramFrame =
  dg_context_id :: u64
  dg_ack_requested :: bool
  dg_duplicate_suppression :: bool
  dg_expiration_delta :: "u64 option"
  dg_data :: bytes

definition DatagramFrame_encode :: "DatagramFrame \<Rightarrow> FrameError + bytes" where
  "DatagramFrame_encode f =
     (if length (dg_data f) > MAX_DATAGRAM_PAYLOAD then Inl FrameError.LengthExceedsLimit
      else
        bindR (write_varint [] FT_DATAGRAM) (\<lambda>out.
        bindR (write_varint out (dg_context_id f)) (\<lambda>out.
        let flags = 0;
            flags = set_flag (dg_ack_requested f) 0x01 flags;
            flags = set_flag (dg_duplicate_suppression f) 0x02 flags;
            flags = set_flag (dg_expiration_delta f \<noteq> None) 0x04 flags;
            out = out @ [flags] in
        bindR (case dg_expiration_delta f of None \<Rightarrow> Inr out | Some d \<Rightarrow> write_varint out d) (\<lambda>out.
        bindR (write_varint out (of_nat (length (dg_data f)))) (\<lambda>out.
        Inr (out @ dg_data f))))))"

definition DatagramFrame_decode :: "bytes \<Rightarrow> FrameError + DatagramFrame \<times> nat" where
  "DatagramFrame_decode body =
     bindR (read_varint body 0) (\<lambda>(context_id, pos).
     bindR (read_u8 body pos) (\<lambda>(flags, pos).
     if flag_set flags 0xF8 then Inl InvalidPadding
     else
       bindR (if flag_set flags 0x04
              then bindR (read_varint body pos) (\<lambda>(d, pos). Inr (Some d, pos))
              else Inr (None, pos)) (\<lambda>(expiration_delta, pos).
       bindR (read_varint body pos) (\<lambda>(data_len, pos).
       if data_len > of_nat MAX_DATAGRAM_PAYLOAD then Inl FrameError.LengthExceedsLimit
       else
         bindR (read_exact body pos (unat data_len)) (\<lambda>(data, end).
         Inr (\<lparr>dg_context_id = context_id,
               dg_ack_requested = flag_set flags 0x01,
               dg_duplicate_suppression = flag_set flags 0x02,
               dg_expiration_delta = expiration_delta,
               dg_data = data\<rparr>, end))))))"

section \<open>Laws: flow control, reset and stop\<close>

lemma bool_word_cases: "\<not> 1 < (d :: u64) \<longleftrightarrow> d = 0 \<or> d = 1"
  by (auto simp: word_less_nat_alt word_unat_eq_iff)

interpretation max_data: canonical_frame_codec
  FT_MAX_DATA "\<lambda>_. True" MaxDataFrame_encode MaxDataFrame_decode
proof (rule canonical_frame_codecI[where P = "\<lambda>f. md_maximum_data f \<le> MAX_VARINT"
        and fld = "\<lambda>f. varint_bytes (md_maximum_data f)"], goal_cases)
  case 2 show ?case by (auto simp: MaxDataFrame_encode_def codec_enc)
next
  case 3 then show ?case by (auto simp: MaxDataFrame_decode_def codec_dec)
next
  case 4 then show ?case by (auto simp: MaxDataFrame_decode_def codec_run)
qed simp

interpretation max_stream_data: canonical_frame_codec
  FT_MAX_STREAM_DATA "\<lambda>_. True" MaxStreamDataFrame_encode MaxStreamDataFrame_decode
proof (rule canonical_frame_codecI
      [where P = "\<lambda>f. msd_stream_id f \<le> MAX_VARINT \<and> msd_maximum_stream_data f \<le> MAX_VARINT"
        and fld = "\<lambda>f. varint_bytes (msd_stream_id f) @ varint_bytes (msd_maximum_stream_data f)"],
      goal_cases)
  case 2 show ?case by (auto simp: MaxStreamDataFrame_encode_def codec_enc)
next
  case 3 then show ?case by (auto simp: MaxStreamDataFrame_decode_def codec_dec)
next
  case 4 then show ?case by (auto simp: MaxStreamDataFrame_decode_def codec_run)
qed simp

interpretation max_streams: canonical_frame_codec
  FT_MAX_STREAMS "\<lambda>_. True" MaxStreamsFrame_encode MaxStreamsFrame_decode
proof (rule canonical_frame_codecI[where P = "\<lambda>f. ms_maximum_streams f \<le> MAX_VARINT"
        and fld = "\<lambda>f. varint_bytes (of_bool (\<not> ms_bidirectional f))
                    @ varint_bytes (ms_maximum_streams f)"], goal_cases)
  case 2 show ?case by (auto simp: MaxStreamsFrame_encode_def codec_enc)
next
  case 3 then show ?case
    by (auto simp: MaxStreamsFrame_decode_def bool_word_cases codec_dec split: if_splits)
next
  case 4 then show ?case by (auto simp: MaxStreamsFrame_decode_def codec_run)
qed simp

interpretation reset_stream: canonical_frame_codec
  FT_RESET_STREAM "\<lambda>_. True" ResetStreamFrame_encode ResetStreamFrame_decode
proof (rule canonical_frame_codecI
      [where P = "\<lambda>f. rs_stream_id f \<le> MAX_VARINT \<and> rs_app_error_code f \<le> MAX_VARINT
                      \<and> rs_final_size f \<le> MAX_VARINT"
        and fld = "\<lambda>f. varint_bytes (rs_stream_id f) @ varint_bytes (rs_app_error_code f)
                    @ varint_bytes (rs_final_size f)"], goal_cases)
  case 2 show ?case by (auto simp: ResetStreamFrame_encode_def codec_enc)
next
  case 3 then show ?case by (auto simp: ResetStreamFrame_decode_def codec_dec)
next
  case 4 then show ?case by (auto simp: ResetStreamFrame_decode_def codec_run)
qed simp

interpretation stop_sending: canonical_frame_codec
  FT_STOP_SENDING "\<lambda>_. True" StopSendingFrame_encode StopSendingFrame_decode
proof (rule canonical_frame_codecI
      [where P = "\<lambda>f. ss_stream_id f \<le> MAX_VARINT \<and> ss_app_error_code f \<le> MAX_VARINT"
        and fld = "\<lambda>f. varint_bytes (ss_stream_id f) @ varint_bytes (ss_app_error_code f)"],
      goal_cases)
  case 2 show ?case by (auto simp: StopSendingFrame_encode_def codec_enc)
next
  case 3 then show ?case by (auto simp: StopSendingFrame_decode_def codec_dec)
next
  case 4 then show ?case by (auto simp: StopSendingFrame_decode_def codec_run)
qed simp

section \<open>Laws: datagrams\<close>

definition datagram_fields :: "DatagramFrame \<Rightarrow> bytes" where
  "datagram_fields f =
     varint_bytes (dg_context_id f)
     @ [set_flag (dg_expiration_delta f \<noteq> None) 0x04 (set_flag (dg_duplicate_suppression f) 0x02
          (set_flag (dg_ack_requested f) 0x01 0))]
     @ (case dg_expiration_delta f of None \<Rightarrow> [] | Some d \<Rightarrow> varint_bytes d)
     @ varint_bytes (of_nat (length (dg_data f))) @ dg_data f"

definition datagram_fits :: "DatagramFrame \<Rightarrow> bool" where
  "datagram_fits f \<longleftrightarrow> dg_context_id f \<le> MAX_VARINT
     \<and> (case dg_expiration_delta f of None \<Rightarrow> True | Some d \<Rightarrow> d \<le> MAX_VARINT)
     \<and> length (dg_data f) \<le> MAX_DATAGRAM_PAYLOAD"

lemma datagram_len: "n \<le> MAX_DATAGRAM_PAYLOAD \<Longrightarrow>
   of_nat n \<le> MAX_VARINT \<and> unat (of_nat n :: u64) = n"
  using of_nat_le_MAX_VARINT[of n] unat_of_nat_62[of n]
  by (simp add: MAX_DATAGRAM_PAYLOAD_def)

lemma datagram_limit: "of_nat MAX_DATAGRAM_PAYLOAD < (x :: u64) \<longleftrightarrow> \<not> unat x \<le> MAX_DATAGRAM_PAYLOAD"
  using not_of_nat_less[of MAX_DATAGRAM_PAYLOAD x] by (auto simp: MAX_DATAGRAM_PAYLOAD_def)

interpretation datagram: canonical_frame_codec
  FT_DATAGRAM "\<lambda>_. True" DatagramFrame_encode DatagramFrame_decode
proof (rule canonical_frame_codecI[where P = datagram_fits and fld = datagram_fields], goal_cases)
  case (2 f bs) show ?case
    using datagram_len[of "length (dg_data f)"]
    by (auto simp: DatagramFrame_encode_def datagram_fits_def datagram_fields_def codec_enc Let_def
        split: option.splits)
next
  case (3 f n body) then show ?case
    by (cases "dg_expiration_delta f")
      (auto simp: DatagramFrame_decode_def datagram_fits_def datagram_fields_def datagram_limit
       codec_dec split: if_splits intro!: flags_rebuild3)
next
  case (4 f body)
  have len: "length (varint_bytes (dg_context_id f)) \<le> 8" 
    "length (varint_bytes (of_nat (length (dg_data f)))) \<le> 8"
    "dg_expiration_delta f = Some d \<Longrightarrow> length (varint_bytes d) \<le> 8" for d
    using 4 datagram_len[of "length (dg_data f)"] by (auto simp: datagram_fits_def intro!: varint_bytes_le_8)
  moreover have "length (dg_data f) \<le> 1200"
    using 4 by (simp add: datagram_fits_def MAX_DATAGRAM_PAYLOAD_def)
  ultimately show ?case
    using 4 datagram_len[of "length (dg_data f)"]
    by (cases f; cases "dg_expiration_delta f")
      (auto simp: DatagramFrame_decode_def datagram_fits_def datagram_fields_def datagram_limit codec_run)
qed simp

section \<open>Laws: streams\<close>

text \<open>
  A stream frame without a length takes the rest of the packet as data, so it can only be read
  back as the last frame and cannot carry the fields of an opening frame. \<open>stream_ok\<close> is the
  self-delimiting case; \<open>stream_reencode\<close> covers every frame the decoder returns.
\<close>

definition stream_fields :: "StreamFrame \<Rightarrow> bytes" where
  "stream_fields f =
     varint_bytes (sf_stream_id f)
     @ [set_flag (sf_unidirectional f) 0x10 (set_flag (sf_open f) 0x08
          (set_flag (sf_len_present f) 0x04 (set_flag (sf_offset_present f) 0x02
          (set_flag (sf_fin f) 0x01 0))))]
     @ (if sf_offset_present f then varint_bytes (sf_offset f) else [])
     @ (if sf_len_present f then varint_bytes (of_nat (length (sf_data f))) else [])
     @ sf_data f
     @ (if sf_open f then bytes_field (sf_protocol_id f) @ bytes_field (sf_metadata f) else [])"

definition stream_fits :: "StreamFrame \<Rightarrow> bool" where
  "stream_fits f \<longleftrightarrow> sf_stream_id f \<le> MAX_VARINT
     \<and> (sf_offset_present f \<longrightarrow> sf_offset f \<le> MAX_VARINT)
     \<and> (sf_len_present f \<longrightarrow> of_nat (length (sf_data f)) \<le> MAX_VARINT)
     \<and> (sf_open f \<longrightarrow> length (sf_protocol_id f) \<le> MAX_PROTOCOL_ID_LEN
                     \<and> length (sf_metadata f) \<le> MAX_STREAM_METADATA_LEN)"

definition stream_normal :: "StreamFrame \<Rightarrow> bool" where
  "stream_normal f \<longleftrightarrow> (\<not> sf_offset_present f \<longrightarrow> sf_offset f = 0)
     \<and> (\<not> sf_open f \<longrightarrow> sf_protocol_id f = [] \<and> sf_metadata f = [])"

definition stream_ok :: "StreamFrame \<Rightarrow> bool" where
  "stream_ok f \<longleftrightarrow> stream_normal f \<and> sf_len_present f \<and> length (sf_data f) < 2 ^ 32"

lemma StreamFrame_encode_iff:
  "StreamFrame_encode f = Inr bs \<longleftrightarrow>
     stream_fits f \<and> bs = varint_bytes FT_STREAM @ stream_fields f"
  by (auto simp: StreamFrame_encode_def stream_fits_def stream_fields_def codec_enc Let_def)

lemma stream_offset_read:
  "(if c then read_varint body p else Inr (0, p)) = Inr (off, p') \<Longrightarrow> p \<le> length body \<Longrightarrow>
   p' = p + length (if c then varint_bytes off else [])
   \<and> at_pos body p (if c then varint_bytes off else [])
   \<and> (c \<longrightarrow> off \<le> MAX_VARINT) \<and> (\<not> c \<longrightarrow> off = 0)"
  by (cases c) (auto simp: codec_dec)

lemma stream_len_read:
  assumes "(if c then
      bindR (read_varint body p) (\<lambda>(l, pos).
      if unat l < 2 ^ 32 then Inr (unat l, pos) else Inl FrameError.LengthExceedsLimit)
    else Inr (length body - p, p)) = Inr (len, q)"
    and "read_exact body q len = Inr (data, r)" and "p \<le> length body"
  shows "q = p + length (if c then varint_bytes (of_nat (length data)) else [])
    \<and> at_pos body p (if c then varint_bytes (of_nat (length data)) else [])
    \<and> (c \<longrightarrow> of_nat (length data) \<le> MAX_VARINT) \<and> (\<not> c \<longrightarrow> q + length data = length body)"
  using assms by (cases c) (auto simp: codec_dec split: if_splits)

lemma stream_open_read:
  "(if c then
      bindR (read_bytes body p MAX_PROTOCOL_ID_LEN) (\<lambda>(protocol_id, pos).
      bindR (read_bytes body pos MAX_STREAM_METADATA_LEN) (\<lambda>(metadata, pos).
      Inr (protocol_id, metadata, pos)))
    else Inr ([], [], p)) = Inr (pid, meta, n) \<Longrightarrow> p \<le> length body \<Longrightarrow>
   n = p + length (if c then bytes_field pid @ bytes_field meta else [])
   \<and> at_pos body p (if c then bytes_field pid @ bytes_field meta else [])
   \<and> (c \<longrightarrow> length pid \<le> 255 \<and> length meta \<le> 4096 \<and> p < length body)
   \<and> (\<not> c \<longrightarrow> pid = [] \<and> meta = [])"
  using bytes_field_nonempty[of pid] at_pos_length[of body p "bytes_field pid"]
  by (cases c) (auto simp: codec_dec neq_Nil_conv)

lemma StreamFrame_decode_fields:
  assumes "StreamFrame_decode body = Inr (f, n)"
  shows "stream_fits f \<and> stream_normal f \<and> n = length (stream_fields f)
    \<and> at_pos body 0 (stream_fields f) \<and> (\<not> sf_len_present f \<longrightarrow> n = length body \<and> \<not> sf_open f)"
proof -
  obtain sid p1 flags off p3 len p4 data pid meta where
    head: "read_varint body 0 = Inr (sid, p1)" "get_at body p1 = Some flags" "\<not> flag_set flags 0xE0"
    and off: "(if flag_set flags 2 then read_varint body (Suc p1) else Inr (0, Suc p1)) = Inr (off, p3)"
    and len: "(if flag_set flags 4 then
          bindR (read_varint body p3) (\<lambda>(l, pos).
          if unat l < 2 ^ 32 then Inr (unat l, pos) else Inl FrameError.LengthExceedsLimit)
        else Inr (length body - p3, p3)) = Inr (len, p4)"
    and data: "read_exact body p4 len = Inr (data, p4 + length data)"
    and opn: "(if flag_set flags 0x08 then
          bindR (read_bytes body (p4 + length data) MAX_PROTOCOL_ID_LEN) (\<lambda>(protocol_id, pos).
          bindR (read_bytes body pos MAX_STREAM_METADATA_LEN) (\<lambda>(metadata, pos).
          Inr (protocol_id, metadata, pos)))
        else Inr ([], [], p4 + length data)) = Inr (pid, meta, n)"
    and f: "f = \<lparr>sf_stream_id = sid, sf_fin = flag_set flags 0x01,
             sf_offset_present = flag_set flags 2, sf_len_present = flag_set flags 4,
             sf_open = flag_set flags 0x08, sf_unidirectional = flag_set flags 0x10,
             sf_offset = off, sf_data = data, sf_protocol_id = pid, sf_metadata = meta\<rparr>"
    using assms unfolding StreamFrame_decode_def Let_def
    by (auto simp: bindR_Inr_iff if_Inl_Inr_iff read_u8_iff read_exact_dest)
  have p1: "sid \<le> MAX_VARINT" "p1 = length (varint_bytes sid)" "at_pos body 0 (varint_bytes sid)"
    using head(1) by (auto simp: read_varint_iff)
  have "Suc p1 \<le> length body" using head(2) by (auto simp: get_at_def split: if_splits)
  note o = stream_offset_read[OF off this]
  then have "p3 \<le> length body" using at_pos_length[of body "Suc p1"] by fastforce
  note l = stream_len_read[OF len data this]
  have d: "at_pos body p4 data" using data by (simp add: read_exact_dest)
  note op = stream_open_read[OF opn at_pos_length[OF d]]
  have "get_at body p1 = Some (set_flag (flag_set flags 16) 16 (set_flag (flag_set flags 8) 8
       (set_flag (flag_set flags 4) 4 (set_flag (flag_set flags 2) 2
       (set_flag (flag_set flags 1) 1 0)))))"
    using head(2,3) by (intro flags_rebuild5) auto
  then have "stream_fits f \<and> stream_normal f \<and> n = length (stream_fields f)
      \<and> at_pos body 0 (stream_fields f)"
    using p1 o l d op
    by (simp only: f stream_fits_def stream_normal_def stream_fields_def StreamFrame.select_convs)
      (simp add: algebra_simps)
  moreover have "\<not> sf_len_present f \<longrightarrow> n = length body \<and> \<not> sf_open f"
    using op l by (auto simp: f)
  ultimately show ?thesis by blast
qed

lemma StreamFrame_decode_run:
  assumes "stream_ok f" and "stream_fits f" and "at_pos body 0 (stream_fields f)"
  shows "StreamFrame_decode body = Inr (f, length (stream_fields f))"
proof -
  have "length (varint_bytes (sf_stream_id f)) \<le> 8"
    "length (varint_bytes (of_nat (length (sf_data f)))) \<le> 8"
    "sf_offset_present f \<Longrightarrow> length (varint_bytes (sf_offset f)) \<le> 8"
    using assms by (auto simp: stream_ok_def stream_fits_def intro!: varint_bytes_le_8)
  then show ?thesis
    using assms
    by (cases f; cases "sf_offset_present f"; cases "sf_open f")
      (auto simp: StreamFrame_decode_def stream_ok_def stream_fits_def stream_fields_def
        stream_normal_def codec_run Let_def unat_of_nat_62)
qed

lemma stream_reencode:
  "StreamFrame_decode body = Inr (f, n) \<Longrightarrow>
   StreamFrame_encode f = Inr (varint_bytes FT_STREAM @ take n body)"
  using StreamFrame_decode_fields[of body f n] by (simp add: StreamFrame_encode_iff at_pos_0_iff)

interpretation stream: frame_codec FT_STREAM stream_ok StreamFrame_encode StreamFrame_decode
proof (rule frame_codecI[where fld = stream_fields], goal_cases)
  case (2 f bs)
  then show ?case by (auto simp: StreamFrame_encode_iff intro: StreamFrame_decode_run)
next
  case (3 f n body)
  then show ?case using StreamFrame_decode_fields[of body f n] by (simp add: at_pos_0_iff)
qed simp

end
