(* ===== verification/Frames_Path.thy ===== *)
theory Frames_Path
  imports Frame_Codec
begin

text \<open>
  \<open>crates/umc-wire/src/frames/path.rs\<close>: path validation, path status, migration, key update
  and connection-ID frames. A fixed-size array \<open>[u8; N]\<close> is a byte list whose length the
  well-formedness predicate of the frame fixes.
\<close>

section \<open>Model\<close>

definition CHALLENGE_LEN :: nat where [simp]: "CHALLENGE_LEN = 8"
definition RESET_TOKEN_LEN :: nat where [simp]: "RESET_TOKEN_LEN = 16"

record PathChallengeFrame =
  pc_data :: bytes

definition PathChallengeFrame_encode :: "PathChallengeFrame \<Rightarrow> FrameError + bytes" where
  "PathChallengeFrame_encode f =
     bindR (write_varint [] FT_PATH_CHALLENGE) (\<lambda>out. Inr (out @ pc_data f))"

definition PathChallengeFrame_decode :: "bytes \<Rightarrow> FrameError + PathChallengeFrame \<times> nat" where
  "PathChallengeFrame_decode body =
     bindR (ok_or (get_range body 0 CHALLENGE_LEN) FrameError.Truncated) (\<lambda>data.
     Inr (\<lparr>pc_data = data\<rparr>, CHALLENGE_LEN))"

record PathResponseFrame =
  pr_data :: bytes

definition PathResponseFrame_encode :: "PathResponseFrame \<Rightarrow> FrameError + bytes" where
  "PathResponseFrame_encode f =
     bindR (write_varint [] FT_PATH_RESPONSE) (\<lambda>out. Inr (out @ pr_data f))"

definition PathResponseFrame_decode :: "bytes \<Rightarrow> FrameError + PathResponseFrame \<times> nat" where
  "PathResponseFrame_decode body =
     bindR (ok_or (get_range body 0 CHALLENGE_LEN) FrameError.Truncated) (\<lambda>data.
     Inr (\<lparr>pr_data = data\<rparr>, CHALLENGE_LEN))"

record PathStatusFrame =
  ps_path_id :: u64
  ps_validated :: bool
  ps_active :: bool
  ps_degraded :: bool
  ps_local :: bool
  ps_metered :: bool
  ps_censored_or_filtered :: bool
  ps_estimated_rtt :: u64
  ps_estimated_bandwidth :: u64
  ps_estimated_loss :: u64
  ps_cost_class :: u64

definition PathStatusFrame_encode :: "PathStatusFrame \<Rightarrow> FrameError + bytes" where
  "PathStatusFrame_encode f =
     bindR (write_varint [] FT_PATH_STATUS) (\<lambda>out.
     bindR (write_varint out (ps_path_id f)) (\<lambda>out.
     let flags = 0;
         flags = set_flag (ps_validated f) 0x01 flags;
         flags = set_flag (ps_active f) 0x02 flags;
         flags = set_flag (ps_degraded f) 0x04 flags;
         flags = set_flag (ps_local f) 0x08 flags;
         flags = set_flag (ps_metered f) 0x10 flags;
         flags = set_flag (ps_censored_or_filtered f) 0x20 flags;
         out = out @ [flags] in
     bindR (write_varint out (ps_estimated_rtt f)) (\<lambda>out.
     bindR (write_varint out (ps_estimated_bandwidth f)) (\<lambda>out.
     bindR (write_varint out (ps_estimated_loss f)) (\<lambda>out.
     write_varint out (ps_cost_class f))))))"

definition PathStatusFrame_decode :: "bytes \<Rightarrow> FrameError + PathStatusFrame \<times> nat" where
  "PathStatusFrame_decode body =
     bindR (read_varint body 0) (\<lambda>(path_id, pos).
     bindR (read_u8 body pos) (\<lambda>(flags, pos).
     if flag_set flags 0xC0 then Inl InvalidPadding
     else
       bindR (read_varint body pos) (\<lambda>(rtt, pos).
       bindR (read_varint body pos) (\<lambda>(bw, pos).
       bindR (read_varint body pos) (\<lambda>(loss, pos).
       bindR (read_varint body pos) (\<lambda>(cost, pos).
       Inr (\<lparr>ps_path_id = path_id,
             ps_validated = flag_set flags 0x01,
             ps_active = flag_set flags 0x02,
             ps_degraded = flag_set flags 0x04,
             ps_local = flag_set flags 0x08,
             ps_metered = flag_set flags 0x10,
             ps_censored_or_filtered = flag_set flags 0x20,
             ps_estimated_rtt = rtt,
             ps_estimated_bandwidth = bw,
             ps_estimated_loss = loss,
             ps_cost_class = cost\<rparr>, pos)))))))"

record MigrateFrame =
  mg_old_path_id :: u64
  mg_new_path_id :: u64
  mg_migration_sequence :: u64
  mg_make_primary :: bool
  mg_keep_old_path :: bool
  mg_duplicate_critical_frames :: bool

definition MigrateFrame_encode :: "MigrateFrame \<Rightarrow> FrameError + bytes" where
  "MigrateFrame_encode f =
     bindR (write_varint [] FT_MIGRATE) (\<lambda>out.
     bindR (write_varint out (mg_old_path_id f)) (\<lambda>out.
     bindR (write_varint out (mg_new_path_id f)) (\<lambda>out.
     bindR (write_varint out (mg_migration_sequence f)) (\<lambda>out.
     let flags = 0;
         flags = set_flag (mg_make_primary f) 0x01 flags;
         flags = set_flag (mg_keep_old_path f) 0x02 flags;
         flags = set_flag (mg_duplicate_critical_frames f) 0x04 flags in
     Inr (out @ [flags])))))"

definition MigrateFrame_decode :: "bytes \<Rightarrow> FrameError + MigrateFrame \<times> nat" where
  "MigrateFrame_decode body =
     bindR (read_varint body 0) (\<lambda>(old, pos).
     bindR (read_varint body pos) (\<lambda>(new, pos).
     bindR (read_varint body pos) (\<lambda>(seq, pos).
     bindR (read_u8 body pos) (\<lambda>(flags, pos).
     if flag_set flags 0xF8 then Inl InvalidPadding
     else
       Inr (\<lparr>mg_old_path_id = old,
             mg_new_path_id = new,
             mg_migration_sequence = seq,
             mg_make_primary = flag_set flags 0x01,
             mg_keep_old_path = flag_set flags 0x02,
             mg_duplicate_critical_frames = flag_set flags 0x04\<rparr>, pos)))))"

record KeyUpdateFrame =
  ku_update_sequence :: u64
  ku_request_peer_update :: bool

definition KeyUpdateFrame_encode :: "KeyUpdateFrame \<Rightarrow> FrameError + bytes" where
  "KeyUpdateFrame_encode f =
     bindR (write_varint [] FT_KEY_UPDATE) (\<lambda>out.
     bindR (write_varint out (ku_update_sequence f)) (\<lambda>out.
     Inr (out @ [of_bool (ku_request_peer_update f)])))"

definition KeyUpdateFrame_decode :: "bytes \<Rightarrow> FrameError + KeyUpdateFrame \<times> nat" where
  "KeyUpdateFrame_decode body =
     bindR (read_varint body 0) (\<lambda>(seq, n).
     bindR (read_u8 body n) (\<lambda>(flags, n).
     if flag_set flags 0xFE then Inl InvalidPadding
     else
       Inr (\<lparr>ku_update_sequence = seq, ku_request_peer_update = flag_set flags 0x01\<rparr>, n)))"

record NewConnectionIdFrame =
  nc_sequence :: u64
  nc_retire_prior_to :: u64
  nc_connection_id :: bytes
  nc_reset_token :: bytes

definition NewConnectionIdFrame_encode :: "NewConnectionIdFrame \<Rightarrow> FrameError + bytes" where
  "NewConnectionIdFrame_encode f =
     (if \<not> (1 \<le> length (nc_connection_id f) \<and> length (nc_connection_id f) \<le> 20)
      then Inl FrameError.LengthExceedsLimit
      else if nc_retire_prior_to f > nc_sequence f then Inl InvalidPadding
      else
        bindR (write_varint [] FT_NEW_CONNECTION_ID) (\<lambda>out.
        bindR (write_varint out (nc_sequence f)) (\<lambda>out.
        bindR (write_varint out (nc_retire_prior_to f)) (\<lambda>out.
        Inr (out @ [of_nat (length (nc_connection_id f))] @ nc_connection_id f @ nc_reset_token f)))))"

definition NewConnectionIdFrame_decode :: "bytes \<Rightarrow> FrameError + NewConnectionIdFrame \<times> nat" where
  "NewConnectionIdFrame_decode body =
     bindR (read_varint body 0) (\<lambda>(seq, pos).
     bindR (read_varint body pos) (\<lambda>(retire, len_pos).
     bindR (read_u8 body len_pos) (\<lambda>(cid_len, cid_start).
     if \<not> (1 \<le> unat cid_len \<and> unat cid_len \<le> 20) then Inl FrameError.LengthExceedsLimit
     else
       bindR (read_exact body cid_start (unat cid_len)) (\<lambda>(cid, token_start).
       bindR (read_exact body token_start RESET_TOKEN_LEN) (\<lambda>(reset_token, token_end).
       if retire > seq then Inl InvalidPadding
       else
         Inr (\<lparr>nc_sequence = seq,
               nc_retire_prior_to = retire,
               nc_connection_id = cid,
               nc_reset_token = reset_token\<rparr>, token_end))))))"

record RetireConnectionIdFrame =
  rc_sequence :: u64

definition RetireConnectionIdFrame_encode :: "RetireConnectionIdFrame \<Rightarrow> FrameError + bytes" where
  "RetireConnectionIdFrame_encode f =
     bindR (write_varint [] FT_RETIRE_CONNECTION_ID) (\<lambda>out.
     write_varint out (rc_sequence f))"

definition RetireConnectionIdFrame_decode ::
    "bytes \<Rightarrow> FrameError + RetireConnectionIdFrame \<times> nat" where
  "RetireConnectionIdFrame_decode body =
     bindR (read_varint body 0) (\<lambda>(seq, n). Inr (\<lparr>rc_sequence = seq\<rparr>, n))"

section \<open>Laws\<close>

interpretation path_challenge: canonical_frame_codec
  FT_PATH_CHALLENGE "\<lambda>f. length (pc_data f) = CHALLENGE_LEN"
  PathChallengeFrame_encode PathChallengeFrame_decode
proof (rule canonical_frame_codecI[where P = "\<lambda>_. True" and fld = pc_data], goal_cases)
  case 2 show ?case by (auto simp: PathChallengeFrame_encode_def codec_enc)
next
  case 3 then show ?case
    by (auto simp: PathChallengeFrame_decode_def codec_dec dest!: get_range_at_pos)
next
  case (4 f body) then show ?case
    using at_pos_get_range[of body 0 "pc_data f"] by (simp add: PathChallengeFrame_decode_def)
qed simp

interpretation path_response: canonical_frame_codec
  FT_PATH_RESPONSE "\<lambda>f. length (pr_data f) = CHALLENGE_LEN"
  PathResponseFrame_encode PathResponseFrame_decode
proof (rule canonical_frame_codecI[where P = "\<lambda>_. True" and fld = pr_data], goal_cases)
  case 2 show ?case by (auto simp: PathResponseFrame_encode_def codec_enc)
next
  case 3 then show ?case
    by (auto simp: PathResponseFrame_decode_def codec_dec dest!: get_range_at_pos)
next
  case (4 f body) then show ?case
    using at_pos_get_range[of body 0 "pr_data f"] by (simp add: PathResponseFrame_decode_def)
qed simp

interpretation path_status: canonical_frame_codec
  FT_PATH_STATUS "\<lambda>_. True" PathStatusFrame_encode PathStatusFrame_decode
proof (rule canonical_frame_codecI
    [where P = "\<lambda>f. ps_path_id f \<le> MAX_VARINT \<and> ps_estimated_rtt f \<le> MAX_VARINT
        \<and> ps_estimated_bandwidth f \<le> MAX_VARINT \<and> ps_estimated_loss f \<le> MAX_VARINT
        \<and> ps_cost_class f \<le> MAX_VARINT"
      and fld = "\<lambda>f. varint_bytes (ps_path_id f)
        @ [set_flag (ps_censored_or_filtered f) 0x20 (set_flag (ps_metered f) 0x10
            (set_flag (ps_local f) 0x08 (set_flag (ps_degraded f) 0x04
            (set_flag (ps_active f) 0x02 (set_flag (ps_validated f) 0x01 0)))))]
        @ varint_bytes (ps_estimated_rtt f) @ varint_bytes (ps_estimated_bandwidth f)
        @ varint_bytes (ps_estimated_loss f) @ varint_bytes (ps_cost_class f)"], goal_cases)
  case 2 show ?case by (auto simp: PathStatusFrame_encode_def codec_enc Let_def)
next
  case 3 then show ?case
    by (auto simp: PathStatusFrame_decode_def codec_dec intro!: flags_rebuild6)
next
  case 4 then show ?case by (auto simp: PathStatusFrame_decode_def codec_run)
qed simp

interpretation migrate: canonical_frame_codec
  FT_MIGRATE "\<lambda>_. True" MigrateFrame_encode MigrateFrame_decode
proof (rule canonical_frame_codecI
    [where P = "\<lambda>f. mg_old_path_id f \<le> MAX_VARINT \<and> mg_new_path_id f \<le> MAX_VARINT
        \<and> mg_migration_sequence f \<le> MAX_VARINT"
      and fld = "\<lambda>f. varint_bytes (mg_old_path_id f) @ varint_bytes (mg_new_path_id f)
        @ varint_bytes (mg_migration_sequence f)
        @ [set_flag (mg_duplicate_critical_frames f) 0x04 (set_flag (mg_keep_old_path f) 0x02
            (set_flag (mg_make_primary f) 0x01 0))]"], goal_cases)
  case 2 show ?case by (auto simp: MigrateFrame_encode_def codec_enc Let_def)
next
  case 3 then show ?case
    by (auto simp: MigrateFrame_decode_def codec_dec intro!: flags_rebuild3)
next
  case 4 then show ?case by (auto simp: MigrateFrame_decode_def codec_run)
qed simp

interpretation key_update: canonical_frame_codec
  FT_KEY_UPDATE "\<lambda>_. True" KeyUpdateFrame_encode KeyUpdateFrame_decode
proof (rule canonical_frame_codecI
    [where P = "\<lambda>f. ku_update_sequence f \<le> MAX_VARINT"
      and fld = "\<lambda>f. varint_bytes (ku_update_sequence f)
        @ [set_flag (ku_request_peer_update f) 0x01 0]"], goal_cases)
  case 2 show ?case by (auto simp: KeyUpdateFrame_encode_def codec_enc u8_from_bool simp del: of_bool_eq_iff)
next
  case 3 then show ?case by (auto simp: KeyUpdateFrame_decode_def codec_dec intro!: flags_rebuild1)
next
  case 4 then show ?case by (auto simp: KeyUpdateFrame_decode_def codec_run)
qed simp

interpretation new_connection_id: canonical_frame_codec
  FT_NEW_CONNECTION_ID "\<lambda>f. length (nc_reset_token f) = RESET_TOKEN_LEN"
  NewConnectionIdFrame_encode NewConnectionIdFrame_decode
proof (rule canonical_frame_codecI
    [where P = "\<lambda>f. nc_sequence f \<le> MAX_VARINT \<and> nc_retire_prior_to f \<le> nc_sequence f
        \<and> 1 \<le> length (nc_connection_id f) \<and> length (nc_connection_id f) \<le> 20"
      and fld = "\<lambda>f. varint_bytes (nc_sequence f) @ varint_bytes (nc_retire_prior_to f)
        @ [of_nat (length (nc_connection_id f))] @ nc_connection_id f @ nc_reset_token f"], goal_cases)
  case 2 show ?case by (auto simp: NewConnectionIdFrame_encode_def codec_enc)
next
  case 3 then show ?case
    by (auto simp: NewConnectionIdFrame_decode_def codec_dec Suc_le_eq split: if_splits)
next
  case (4 f body)
  then have "nc_retire_prior_to f \<le> MAX_VARINT" by auto
  with 4 varint_bytes_le_8[of "nc_sequence f"] varint_bytes_le_8[of "nc_retire_prior_to f"]
  show ?case by (auto simp: NewConnectionIdFrame_decode_def codec_run unat_of_nat_u8)
qed simp

interpretation retire_connection_id: canonical_frame_codec
  FT_RETIRE_CONNECTION_ID "\<lambda>_. True" RetireConnectionIdFrame_encode RetireConnectionIdFrame_decode
proof (rule canonical_frame_codecI
    [where P = "\<lambda>f. rc_sequence f \<le> MAX_VARINT"
      and fld = "\<lambda>f. varint_bytes (rc_sequence f)"], goal_cases)
  case 2 show ?case by (auto simp: RetireConnectionIdFrame_encode_def codec_enc)
next
  case 3 then show ?case by (auto simp: RetireConnectionIdFrame_decode_def codec_dec)
next
  case 4 then show ?case by (auto simp: RetireConnectionIdFrame_decode_def codec_run)
qed simp

end
