(* ===== verification/Frames_Handshake.thy ===== *)
theory Frames_Handshake
  imports Frame_Codec
begin

text \<open>
  \<open>crates/umc-wire/src/frames/handshake.rs\<close>: authentication, handshake data, capability
  negotiation and session tickets.
\<close>

section \<open>Model\<close>

definition MAX_HANDSHAKE_TRANSCRIPT :: nat where [simp]: "MAX_HANDSHAKE_TRANSCRIPT = 65536"
definition MAX_HANDSHAKE_MESSAGE :: nat where [simp]: "MAX_HANDSHAKE_MESSAGE = 16384"
definition MAX_CAPABILITIES :: nat where [simp]: "MAX_CAPABILITIES = 128"
definition MAX_CAPABILITY_VALUE :: nat where [simp]: "MAX_CAPABILITY_VALUE = 4096"

record AuthFrame =
  au_method :: u64
  au_data :: bytes

definition AuthFrame_encode :: "AuthFrame \<Rightarrow> FrameError + bytes" where
  "AuthFrame_encode f =
     (if length (au_data f) > MAX_HANDSHAKE_MESSAGE then Inl FrameError.LengthExceedsLimit
      else
        bindR (write_varint [] FT_AUTH) (\<lambda>out.
        bindR (write_varint out (au_method f)) (\<lambda>out.
        write_bytes out (au_data f) MAX_HANDSHAKE_MESSAGE)))"

definition AuthFrame_decode :: "bytes \<Rightarrow> FrameError + AuthFrame \<times> nat" where
  "AuthFrame_decode body =
     bindR (read_varint body 0) (\<lambda>(method, pos).
     bindR (read_bytes body pos MAX_HANDSHAKE_MESSAGE) (\<lambda>(data, pos).
     Inr (\<lparr>au_method = method, au_data = data\<rparr>, pos)))"

record HandshakeDataFrame =
  hd_offset :: u64
  hd_data :: bytes

definition HandshakeDataFrame_encode :: "HandshakeDataFrame \<Rightarrow> FrameError + bytes" where
  "HandshakeDataFrame_encode f =
     (if length (hd_data f) > MAX_HANDSHAKE_MESSAGE then Inl FrameError.LengthExceedsLimit
      else
        bindR (write_varint [] FT_HANDSHAKE_DATA) (\<lambda>out.
        bindR (write_varint out (hd_offset f)) (\<lambda>out.
        write_bytes out (hd_data f) MAX_HANDSHAKE_MESSAGE)))"

definition HandshakeDataFrame_decode :: "bytes \<Rightarrow> FrameError + HandshakeDataFrame \<times> nat" where
  "HandshakeDataFrame_decode body =
     bindR (read_varint body 0) (\<lambda>(offset, pos).
     bindR (read_bytes body pos MAX_HANDSHAKE_MESSAGE) (\<lambda>(data, pos).
     Inr (\<lparr>hd_offset = offset, hd_data = data\<rparr>, pos)))"

record Capability =
  cap_id :: u64
  cap_value :: bytes

record CapabilitiesFrame =
  cf_entries :: "Capability list"

definition Capability_write :: "bytes \<Rightarrow> Capability \<Rightarrow> FrameError + bytes" where
  "Capability_write out e =
     bindR (write_varint out (cap_id e)) (\<lambda>out.
     write_bytes out (cap_value e) MAX_CAPABILITY_VALUE)"

definition Capability_read :: "bytes \<Rightarrow> nat \<Rightarrow> FrameError + Capability \<times> nat" where
  "Capability_read body pos =
     bindR (read_varint body pos) (\<lambda>(id, pos).
     bindR (read_bytes body pos MAX_CAPABILITY_VALUE) (\<lambda>(value, pos).
     Inr (\<lparr>cap_id = id, cap_value = value\<rparr>, pos)))"

definition CapabilitiesFrame_encode :: "CapabilitiesFrame \<Rightarrow> FrameError + bytes" where
  "CapabilitiesFrame_encode f =
     (if length (cf_entries f) > MAX_CAPABILITIES then Inl FrameError.LengthExceedsLimit
      else
        bindR (write_varint [] FT_CAPABILITIES) (\<lambda>out.
        bindR (write_varint out (of_nat (length (cf_entries f)))) (\<lambda>out.
        write_many Capability_write out (cf_entries f))))"

definition CapabilitiesFrame_decode :: "bytes \<Rightarrow> FrameError + CapabilitiesFrame \<times> nat" where
  "CapabilitiesFrame_decode body =
     bindR (read_varint body 0) (\<lambda>(count, pos).
     if unat count > MAX_CAPABILITIES then Inl FrameError.LengthExceedsLimit
     else
       bindR (read_many (Capability_read body) (unat count) pos) (\<lambda>(entries, pos).
       Inr (\<lparr>cf_entries = entries\<rparr>, pos)))"

record SessionTicketFrame =
  st_lifetime :: u64
  st_age_add :: u64
  st_nonce :: bytes
  st_ticket :: bytes

definition MAX_TICKET :: nat where [simp]: "MAX_TICKET = 16384"

definition SessionTicketFrame_encode :: "SessionTicketFrame \<Rightarrow> FrameError + bytes" where
  "SessionTicketFrame_encode f =
     bindR (write_varint [] FT_SESSION_TICKET) (\<lambda>out.
     bindR (write_varint out (st_lifetime f)) (\<lambda>out.
     bindR (write_varint out (st_age_add f)) (\<lambda>out.
     bindR (write_bytes out (st_nonce f) 256) (\<lambda>out.
     write_bytes out (st_ticket f) MAX_TICKET))))"

definition SessionTicketFrame_decode :: "bytes \<Rightarrow> FrameError + SessionTicketFrame \<times> nat" where
  "SessionTicketFrame_decode body =
     bindR (read_varint body 0) (\<lambda>(lifetime, pos).
     bindR (read_varint body pos) (\<lambda>(age_add, pos).
     bindR (read_bytes body pos 256) (\<lambda>(nonce, pos).
     bindR (read_bytes body pos MAX_TICKET) (\<lambda>(ticket, pos).
     Inr (\<lparr>st_lifetime = lifetime, st_age_add = age_add, st_nonce = nonce, st_ticket = ticket\<rparr>,
          pos)))))"

section \<open>Laws\<close>

interpretation auth: canonical_frame_codec FT_AUTH "\<lambda>_. True" AuthFrame_encode AuthFrame_decode
proof (rule canonical_frame_codecI
    [where P = "\<lambda>f. au_method f \<le> MAX_VARINT \<and> length (au_data f) \<le> MAX_HANDSHAKE_MESSAGE"
      and fld = "\<lambda>f. varint_bytes (au_method f) @ bytes_field (au_data f)"], goal_cases)
  case 2 show ?case by (auto simp: AuthFrame_encode_def codec_enc)
next
  case 3 then show ?case by (auto simp: AuthFrame_decode_def codec_dec)
next
  case 4 then show ?case by (auto simp: AuthFrame_decode_def codec_run)
qed simp

interpretation handshake_data: canonical_frame_codec
  FT_HANDSHAKE_DATA "\<lambda>_. True" HandshakeDataFrame_encode HandshakeDataFrame_decode
proof (rule canonical_frame_codecI
    [where P = "\<lambda>f. hd_offset f \<le> MAX_VARINT \<and> length (hd_data f) \<le> MAX_HANDSHAKE_MESSAGE"
      and fld = "\<lambda>f. varint_bytes (hd_offset f) @ bytes_field (hd_data f)"], goal_cases)
  case 2 show ?case by (auto simp: HandshakeDataFrame_encode_def codec_enc)
next
  case 3 then show ?case by (auto simp: HandshakeDataFrame_decode_def codec_dec)
next
  case 4 then show ?case by (auto simp: HandshakeDataFrame_decode_def codec_run)
qed simp

definition Capability_fits :: "Capability \<Rightarrow> bool" where
  "Capability_fits e \<longleftrightarrow> cap_id e \<le> MAX_VARINT \<and> length (cap_value e) \<le> MAX_CAPABILITY_VALUE"

definition Capability_fields :: "Capability \<Rightarrow> bytes" where
  "Capability_fields e = varint_bytes (cap_id e) @ bytes_field (cap_value e)"

lemma Capability_write_Inr:
  "Capability_write out e = Inr out' \<longleftrightarrow> Capability_fits e \<and> out' = out @ Capability_fields e"
  by (auto simp: Capability_write_def codec_enc Capability_fits_def Capability_fields_def)

lemma Capability_read_iff:
  "Capability_read body p = Inr (e, p') \<longleftrightarrow>
     Capability_fits e \<and> p' = p + length (Capability_fields e) \<and> at_pos body p (Capability_fields e)"
  by (cases e)
    (auto simp: Capability_read_def codec_dec Capability_fits_def Capability_fields_def)

lemmas Capabilities_write = write_many_Inr[OF Capability_write_Inr]
lemmas Capabilities_read = read_many_iff[OF Capability_read_iff]


interpretation capabilities: canonical_frame_codec
  FT_CAPABILITIES "\<lambda>_. True" CapabilitiesFrame_encode CapabilitiesFrame_decode
proof (rule canonical_frame_codecI
    [where P = "\<lambda>f. length (cf_entries f) \<le> MAX_CAPABILITIES
        \<and> (\<forall>e \<in> set (cf_entries f). Capability_fits e)"
      and fld = "\<lambda>f. varint_bytes (of_nat (length (cf_entries f)))
        @ concat (map Capability_fields (cf_entries f))"], goal_cases)
  case 2 show ?case
    by (auto simp: CapabilitiesFrame_encode_def codec_enc Capabilities_write of_nat_le_MAX_VARINT)
next
  case (3 f n body)
  then show ?case
    by (auto simp: CapabilitiesFrame_decode_def codec_dec
        dest!: Capabilities_read[THEN iffD1, rotated] intro: at_pos_length[of body 0, simplified])
next
  case (4 f body) then show ?case
    using at_pos_length[of body 0 "varint_bytes (of_nat (length (cf_entries f)))"]
    by (auto simp: CapabilitiesFrame_decode_def codec_run of_nat_le_MAX_VARINT unat_of_nat_62
        Capabilities_read[THEN iffD2])
qed simp

interpretation session_ticket: canonical_frame_codec
  FT_SESSION_TICKET "\<lambda>_. True" SessionTicketFrame_encode SessionTicketFrame_decode
proof (rule canonical_frame_codecI
    [where P = "\<lambda>f. st_lifetime f \<le> MAX_VARINT \<and> st_age_add f \<le> MAX_VARINT
        \<and> length (st_nonce f) \<le> 256 \<and> length (st_ticket f) \<le> MAX_TICKET"
      and fld = "\<lambda>f. varint_bytes (st_lifetime f) @ varint_bytes (st_age_add f)
        @ bytes_field (st_nonce f) @ bytes_field (st_ticket f)"], goal_cases)
  case 2 show ?case by (auto simp: SessionTicketFrame_encode_def codec_enc)
next
  case 3 then show ?case by (auto simp: SessionTicketFrame_decode_def codec_dec)
next
  case 4 then show ?case by (auto simp: SessionTicketFrame_decode_def codec_run)
qed simp

end
