(* ===== verification/Frames_Routing.thy ===== *)
theory Frames_Routing
  imports Frame_Codec
begin

text \<open>
  \<open>crates/umc-wire/src/frames/routing.rs\<close>: route requests, responses and errors.
\<close>

section \<open>Model\<close>

definition MAX_HOP_LIMIT :: u64 where "MAX_HOP_LIMIT = 32"
definition MAX_DESTINATION_HINT :: nat where [simp]: "MAX_DESTINATION_HINT = 512"
definition MAX_PATH_EXCLUSIONS :: nat where [simp]: "MAX_PATH_EXCLUSIONS = 32"
definition MAX_ROUTE_AUTH :: nat where [simp]: "MAX_ROUTE_AUTH = 1024"
definition MAX_EXCLUSION_ENTRY :: nat where [simp]: "MAX_EXCLUSION_ENTRY = 64"

record RouteRequestFrame =
  rq_request_id :: u64
  rq_allow_relay :: bool
  rq_allow_store_forward :: bool
  rq_require_private_response :: bool
  rq_local_scope_only :: bool
  rq_gateway_query :: bool
  rq_hop_limit :: u64
  rq_expiration_delta :: u64
  rq_destination_hint :: bytes
  rq_path_exclusions :: "bytes list"
  rq_requester_auth :: bytes

definition RouteRequestFrame_encode :: "RouteRequestFrame \<Rightarrow> FrameError + bytes" where
  "RouteRequestFrame_encode f =
     (if rq_hop_limit f = 0 \<or> rq_hop_limit f > MAX_HOP_LIMIT then Inl InvalidPadding
      else if length (rq_path_exclusions f) > MAX_PATH_EXCLUSIONS
      then Inl FrameError.LengthExceedsLimit
      else
        bindR (write_varint [] FT_ROUTE_REQUEST) (\<lambda>out.
        bindR (write_varint out (rq_request_id f)) (\<lambda>out.
        let flags = 0;
            flags = set_flag (rq_allow_relay f) 0x01 flags;
            flags = set_flag (rq_allow_store_forward f) 0x02 flags;
            flags = set_flag (rq_require_private_response f) 0x04 flags;
            flags = set_flag (rq_local_scope_only f) 0x08 flags;
            flags = set_flag (rq_gateway_query f) 0x10 flags;
            out = out @ [flags] in
        bindR (write_varint out (rq_hop_limit f)) (\<lambda>out.
        bindR (write_varint out (rq_expiration_delta f)) (\<lambda>out.
        bindR (write_bytes out (rq_destination_hint f) MAX_DESTINATION_HINT) (\<lambda>out.
        bindR (write_varint out (of_nat (length (rq_path_exclusions f)))) (\<lambda>out.
        bindR (write_many (\<lambda>out e. write_bytes out e MAX_EXCLUSION_ENTRY) out
                 (rq_path_exclusions f)) (\<lambda>out.
        write_bytes out (rq_requester_auth f) MAX_ROUTE_AUTH))))))))"

definition RouteRequestFrame_decode :: "bytes \<Rightarrow> FrameError + RouteRequestFrame \<times> nat" where
  "RouteRequestFrame_decode body =
     bindR (read_varint body 0) (\<lambda>(request_id, pos).
     bindR (read_u8 body pos) (\<lambda>(flags, pos).
     if flag_set flags 0xE0 then Inl InvalidPadding
     else
       bindR (read_varint body pos) (\<lambda>(hop_limit, pos).
       if hop_limit = 0 \<or> hop_limit > MAX_HOP_LIMIT then Inl InvalidPadding
       else
         bindR (read_varint body pos) (\<lambda>(expiration, pos).
         bindR (read_bytes body pos MAX_DESTINATION_HINT) (\<lambda>(hint, pos).
         bindR (read_varint body pos) (\<lambda>(ex_count, pos).
         if unat ex_count > MAX_PATH_EXCLUSIONS then Inl FrameError.LengthExceedsLimit
         else
           bindR (read_many (\<lambda>p. read_bytes body p MAX_EXCLUSION_ENTRY) (unat ex_count) pos)
             (\<lambda>(exclusions, pos).
           bindR (read_bytes body pos MAX_ROUTE_AUTH) (\<lambda>(auth, pos).
           Inr (\<lparr>rq_request_id = request_id,
                 rq_allow_relay = flag_set flags 0x01,
                 rq_allow_store_forward = flag_set flags 0x02,
                 rq_require_private_response = flag_set flags 0x04,
                 rq_local_scope_only = flag_set flags 0x08,
                 rq_gateway_query = flag_set flags 0x10,
                 rq_hop_limit = hop_limit,
                 rq_expiration_delta = expiration,
                 rq_destination_hint = hint,
                 rq_path_exclusions = exclusions,
                 rq_requester_auth = auth\<rparr>, pos)))))))))"

record RouteResponseFrame =
  rs_request_id :: u64
  rs_response_sequence :: u64
  rs_direct :: bool
  rs_relay_required :: bool
  rs_store_forward_available :: bool
  rs_local_path :: bool
  rs_gateway_path :: bool
  rs_route_lifetime :: u64
  rs_next_hop_hint :: bytes
  rs_route_metadata :: bytes
  rs_authentication :: bytes

definition MAX_NEXT_HOP_HINT :: nat where [simp]: "MAX_NEXT_HOP_HINT = 1024"
definition MAX_ROUTE_METADATA :: nat where [simp]: "MAX_ROUTE_METADATA = 4096"

definition RouteResponseFrame_encode :: "RouteResponseFrame \<Rightarrow> FrameError + bytes" where
  "RouteResponseFrame_encode f =
     (if rs_direct f \<and> rs_relay_required f then Inl InvalidPadding
      else
        bindR (write_varint [] FT_ROUTE_RESPONSE) (\<lambda>out.
        bindR (write_varint out (rs_request_id f)) (\<lambda>out.
        bindR (write_varint out (rs_response_sequence f)) (\<lambda>out.
        let flags = 0;
            flags = set_flag (rs_direct f) 0x01 flags;
            flags = set_flag (rs_relay_required f) 0x02 flags;
            flags = set_flag (rs_store_forward_available f) 0x04 flags;
            flags = set_flag (rs_local_path f) 0x08 flags;
            flags = set_flag (rs_gateway_path f) 0x10 flags;
            out = out @ [flags] in
        bindR (write_varint out (rs_route_lifetime f)) (\<lambda>out.
        bindR (write_bytes out (rs_next_hop_hint f) MAX_NEXT_HOP_HINT) (\<lambda>out.
        bindR (write_bytes out (rs_route_metadata f) MAX_ROUTE_METADATA) (\<lambda>out.
        write_bytes out (rs_authentication f) MAX_ROUTE_AUTH)))))))"

definition RouteResponseFrame_decode :: "bytes \<Rightarrow> FrameError + RouteResponseFrame \<times> nat" where
  "RouteResponseFrame_decode body =
     bindR (read_varint body 0) (\<lambda>(request_id, pos).
     bindR (read_varint body pos) (\<lambda>(sequence, pos).
     bindR (read_u8 body pos) (\<lambda>(flags, pos).
     if flag_set flags 0xE0 then Inl InvalidPadding
     else
       bindR (read_varint body pos) (\<lambda>(lifetime, pos).
       bindR (read_bytes body pos MAX_NEXT_HOP_HINT) (\<lambda>(nh, pos).
       bindR (read_bytes body pos MAX_ROUTE_METADATA) (\<lambda>(meta, pos).
       bindR (read_bytes body pos MAX_ROUTE_AUTH) (\<lambda>(auth, pos).
       Inr (\<lparr>rs_request_id = request_id,
             rs_response_sequence = sequence,
             rs_direct = flag_set flags 0x01,
             rs_relay_required = flag_set flags 0x02,
             rs_store_forward_available = flag_set flags 0x04,
             rs_local_path = flag_set flags 0x08,
             rs_gateway_path = flag_set flags 0x10,
             rs_route_lifetime = lifetime,
             rs_next_hop_hint = nh,
             rs_route_metadata = meta,
             rs_authentication = auth\<rparr>, pos))))))))"

record RouteErrorFrame =
  re_request_id :: u64
  re_error_code :: u64
  re_failed_hop_index :: u64
  re_diagnostic :: bytes

definition UNKNOWN_HOP :: u64 where "UNKNOWN_HOP = MAX_VARINT"
definition MAX_DIAGNOSTIC :: nat where [simp]: "MAX_DIAGNOSTIC = 256"

definition RouteErrorFrame_encode :: "RouteErrorFrame \<Rightarrow> FrameError + bytes" where
  "RouteErrorFrame_encode f =
     bindR (write_varint [] FT_ROUTE_ERROR) (\<lambda>out.
     bindR (write_varint out (re_request_id f)) (\<lambda>out.
     bindR (write_varint out (re_error_code f)) (\<lambda>out.
     bindR (write_varint out (re_failed_hop_index f)) (\<lambda>out.
     write_bytes out (re_diagnostic f) MAX_DIAGNOSTIC))))"

definition RouteErrorFrame_decode :: "bytes \<Rightarrow> FrameError + RouteErrorFrame \<times> nat" where
  "RouteErrorFrame_decode body =
     bindR (read_varint body 0) (\<lambda>(request_id, pos).
     bindR (read_varint body pos) (\<lambda>(code, pos).
     bindR (read_varint body pos) (\<lambda>(hop, pos).
     bindR (read_bytes body pos MAX_DIAGNOSTIC) (\<lambda>(diag, pos).
     Inr (\<lparr>re_request_id = request_id, re_error_code = code,
           re_failed_hop_index = hop, re_diagnostic = diag\<rparr>, pos)))))"

section \<open>Laws\<close>

lemma exclusions_write:
  "write_many (\<lambda>out e. write_bytes out e MAX_EXCLUSION_ENTRY) out es = Inr out' \<longleftrightarrow>
     (\<forall>e \<in> set es. length e \<le> MAX_EXCLUSION_ENTRY) \<and> out' = out @ concat (map bytes_field es)"
  by (rule write_many_Inr) (simp add: codec_enc)

lemma exclusions_read:
  "p \<le> length body \<Longrightarrow>
   read_many (\<lambda>p. read_bytes body p MAX_EXCLUSION_ENTRY) k p = Inr (es, p') \<longleftrightarrow>
     length es = k \<and> (\<forall>e \<in> set es. length e \<le> MAX_EXCLUSION_ENTRY)
     \<and> p' = p + length (concat (map bytes_field es)) \<and> at_pos body p (concat (map bytes_field es))"
  by (rule read_many_iff) (simp_all add: codec_dec)

definition RouteRequest_fields :: "RouteRequestFrame \<Rightarrow> bytes" where
  "RouteRequest_fields f = varint_bytes (rq_request_id f)
     @ [set_flag (rq_gateway_query f) 0x10 (set_flag (rq_local_scope_only f) 0x08
         (set_flag (rq_require_private_response f) 0x04 (set_flag (rq_allow_store_forward f) 0x02
         (set_flag (rq_allow_relay f) 0x01 0))))]
     @ varint_bytes (rq_hop_limit f) @ varint_bytes (rq_expiration_delta f)
     @ bytes_field (rq_destination_hint f) @ varint_bytes (of_nat (length (rq_path_exclusions f)))
     @ concat (map bytes_field (rq_path_exclusions f)) @ bytes_field (rq_requester_auth f)"

definition RouteRequest_fits :: "RouteRequestFrame \<Rightarrow> bool" where
  "RouteRequest_fits f \<longleftrightarrow> rq_request_id f \<le> MAX_VARINT
     \<and> rq_hop_limit f \<noteq> 0 \<and> rq_hop_limit f \<le> MAX_HOP_LIMIT
     \<and> rq_expiration_delta f \<le> MAX_VARINT
     \<and> length (rq_destination_hint f) \<le> MAX_DESTINATION_HINT
     \<and> length (rq_path_exclusions f) \<le> MAX_PATH_EXCLUSIONS
     \<and> (\<forall>e \<in> set (rq_path_exclusions f). length e \<le> MAX_EXCLUSION_ENTRY)
     \<and> length (rq_requester_auth f) \<le> MAX_ROUTE_AUTH"

lemma hop_limit_in_range: "h \<le> MAX_HOP_LIMIT \<Longrightarrow> h \<le> MAX_VARINT"
  by (simp add: MAX_HOP_LIMIT_def MAX_VARINT_def word_le_nat_alt)

interpretation route_request: canonical_frame_codec
  FT_ROUTE_REQUEST "\<lambda>_. True" RouteRequestFrame_encode RouteRequestFrame_decode
proof (rule canonical_frame_codecI[where P = RouteRequest_fits and fld = RouteRequest_fields], goal_cases)
  case 2 show ?case
    by (auto simp: RouteRequestFrame_encode_def codec_enc Let_def exclusions_write
        RouteRequest_fits_def RouteRequest_fields_def of_nat_le_MAX_VARINT hop_limit_in_range not_less
        simp del: MAX_EXCLUSION_ENTRY_def)
next
  case (3 f n body)
  then show ?case
    by (auto simp: RouteRequestFrame_decode_def codec_dec RouteRequest_fits_def RouteRequest_fields_def
        not_less simp del: MAX_EXCLUSION_ENTRY_def
        dest!: exclusions_read[THEN iffD1, rotated] intro: at_pos_length_Suc intro!: flags_rebuild5)
next
  case (4 f body) then show ?case
    by (auto simp: RouteRequestFrame_decode_def codec_run RouteRequest_fits_def RouteRequest_fields_def
        of_nat_le_MAX_VARINT unat_of_nat_62 hop_limit_in_range exclusions_read[THEN iffD2] at_pos_length_Suc
        simp del: MAX_EXCLUSION_ENTRY_def)
qed simp

definition RouteResponse_fields :: "RouteResponseFrame \<Rightarrow> bytes" where
  "RouteResponse_fields f = varint_bytes (rs_request_id f) @ varint_bytes (rs_response_sequence f)
     @ [set_flag (rs_gateway_path f) 0x10 (set_flag (rs_local_path f) 0x08
         (set_flag (rs_store_forward_available f) 0x04 (set_flag (rs_relay_required f) 0x02
         (set_flag (rs_direct f) 0x01 0))))]
     @ varint_bytes (rs_route_lifetime f) @ bytes_field (rs_next_hop_hint f)
     @ bytes_field (rs_route_metadata f) @ bytes_field (rs_authentication f)"

definition RouteResponse_fits :: "RouteResponseFrame \<Rightarrow> bool" where
  "RouteResponse_fits f \<longleftrightarrow> rs_request_id f \<le> MAX_VARINT \<and> rs_response_sequence f \<le> MAX_VARINT
     \<and> rs_route_lifetime f \<le> MAX_VARINT
     \<and> length (rs_next_hop_hint f) \<le> MAX_NEXT_HOP_HINT
     \<and> length (rs_route_metadata f) \<le> MAX_ROUTE_METADATA
     \<and> length (rs_authentication f) \<le> MAX_ROUTE_AUTH"

lemma RouteResponseFrame_encode_iff:
  "RouteResponseFrame_encode f = Inr bs \<longleftrightarrow>
     \<not> (rs_direct f \<and> rs_relay_required f) \<and> RouteResponse_fits f
     \<and> bs = varint_bytes FT_ROUTE_RESPONSE @ RouteResponse_fields f"
  by (auto simp: RouteResponseFrame_encode_def codec_enc Let_def RouteResponse_fits_def
      RouteResponse_fields_def)

lemma RouteResponseFrame_decode_fields:
  "RouteResponseFrame_decode body = Inr (f, n) \<Longrightarrow>
   RouteResponse_fits f \<and> n = length (RouteResponse_fields f) \<and> at_pos body 0 (RouteResponse_fields f)"
  by (auto simp: RouteResponseFrame_decode_def codec_dec RouteResponse_fits_def
      RouteResponse_fields_def intro!: flags_rebuild5)

lemma RouteResponseFrame_decode_run:
  "RouteResponse_fits f \<Longrightarrow> at_pos body 0 (RouteResponse_fields f) \<Longrightarrow>
   RouteResponseFrame_decode body = Inr (f, length (RouteResponse_fields f))"
  by (auto simp: RouteResponseFrame_decode_def codec_run RouteResponse_fits_def
      RouteResponse_fields_def)

text \<open>
  The decoder does not repeat the encoder's check that a route is not at once direct and through
  a relay, so re-encoding a decoded response is possible exactly when the two flags are not both
  set.
\<close>

lemma route_response_reencode:
  "RouteResponseFrame_decode body = Inr (f, n) \<Longrightarrow>
   RouteResponseFrame_encode f =
     (if rs_direct f \<and> rs_relay_required f then Inl InvalidPadding
      else Inr (varint_bytes FT_ROUTE_RESPONSE @ take n body))"
  using RouteResponseFrame_decode_fields[of body f n]
    RouteResponseFrame_encode_iff[of f "varint_bytes FT_ROUTE_RESPONSE @ take n body"]
  by (auto simp: at_pos_0_iff) (simp add: RouteResponseFrame_encode_def)

interpretation route_response: frame_codec
  FT_ROUTE_RESPONSE "\<lambda>_. True" RouteResponseFrame_encode RouteResponseFrame_decode
proof (rule frame_codecI[where fld = RouteResponse_fields], goal_cases)
  case (2 f bs)
  then show ?case by (auto simp: RouteResponseFrame_encode_iff intro: RouteResponseFrame_decode_run)
next
  case (3 f n body)
  then show ?case using RouteResponseFrame_decode_fields[of body f n] by (simp add: at_pos_0_iff)
qed simp

interpretation route_error: canonical_frame_codec
  FT_ROUTE_ERROR "\<lambda>_. True" RouteErrorFrame_encode RouteErrorFrame_decode
proof (rule canonical_frame_codecI
    [where P = "\<lambda>f. re_request_id f \<le> MAX_VARINT \<and> re_error_code f \<le> MAX_VARINT
        \<and> re_failed_hop_index f \<le> MAX_VARINT \<and> length (re_diagnostic f) \<le> MAX_DIAGNOSTIC"
      and fld = "\<lambda>f. varint_bytes (re_request_id f) @ varint_bytes (re_error_code f)
        @ varint_bytes (re_failed_hop_index f) @ bytes_field (re_diagnostic f)"], goal_cases)
  case 2 show ?case by (auto simp: RouteErrorFrame_encode_def codec_enc)
next
  case 3 then show ?case by (auto simp: RouteErrorFrame_decode_def codec_dec)
next
  case 4 then show ?case by (auto simp: RouteErrorFrame_decode_def codec_run)
qed simp

section \<open>Properties\<close>

text \<open>
  Decoding a route response checks less than encoding one. A response flagged both direct and
  relay-required is accepted from the wire, and it is the only decoded response the encoder
  refuses; every other one encodes back to the bytes it was read from.
\<close>

theorem route_response_asymmetry:
  assumes "RouteResponseFrame_decode body = Inr (f, n)"
  shows "RouteResponseFrame_encode f =
     (if rs_direct f \<and> rs_relay_required f then Inl InvalidPadding
      else Inr (varint_bytes FT_ROUTE_RESPONSE @ take n body))"
  by (rule route_response_reencode[OF assms])

theorem route_response_asymmetry_witness:
  "\<exists>f. RouteResponseFrame_decode [1, 2, 3, 4, 0, 0, 0] = Inr (f, 7)
     \<and> RouteResponseFrame_encode f = Inl InvalidPadding"
proof -
  let ?f = "\<lparr>rs_request_id = 1, rs_response_sequence = 2, rs_direct = True, rs_relay_required = True,
    rs_store_forward_available = False, rs_local_path = False, rs_gateway_path = False,
    rs_route_lifetime = 4, rs_next_hop_hint = [], rs_route_metadata = [], rs_authentication = []\<rparr>"
  have "RouteResponse_fields ?f = [1, 2, 3, 4, 0, 0, 0]" by code_simp
  then have d: "RouteResponseFrame_decode [1, 2, 3, 4, 0, 0, 0] = Inr (?f, 7)"
    using RouteResponseFrame_decode_run[of ?f "[1, 2, 3, 4, 0, 0, 0]"] at_pos_whole[of "[1, 2, 3, 4, 0, 0, 0]"]
    by (simp add: RouteResponse_fits_def MAX_VARINT_def del: at_pos_Cons)
  show ?thesis using d route_response_asymmetry[OF d] by (intro exI[of _ ?f]) simp
qed

end
