(* ===== verification/Frames_Relay.thy ===== *)
theory Frames_Relay
  imports Frame_Codec
begin

text \<open>
  \<open>crates/umc-wire/src/frames/relay.rs\<close>: relay circuit frames. \<open>RelayStatusFrame\<close> is
  length-delimited: its encoder writes type, length and body, its outer decoder reads the length
  and decodes the body inside that window.
\<close>

section \<open>Model\<close>

definition MAX_RELAY_PAYLOAD :: nat where [simp]: "MAX_RELAY_PAYLOAD = 64 * 1024"
definition MAX_RELAY_DIAGNOSTIC :: nat where [simp]: "MAX_RELAY_DIAGNOSTIC = 256"
definition MAX_RELAY_AUTH :: nat where [simp]: "MAX_RELAY_AUTH = 1024"
definition MAX_REQUESTED_LIFETIME_MS :: u64 where "MAX_REQUESTED_LIFETIME_MS = 24 * 60 * 60 * 1000"

record RelayOpenFrame =
  ro_circuit_id :: u64
  ro_bidirectional :: bool
  ro_store_forward_allowed :: bool
  ro_private_circuit :: bool
  ro_multipath_allowed :: bool
  ro_requested_lifetime :: u64
  ro_requested_byte_quota :: u64
  ro_next_hop_hint :: bytes
  ro_authorization :: bytes

definition RelayOpen_MAX_NEXT_HOP_HINT :: nat where [simp]: "RelayOpen_MAX_NEXT_HOP_HINT = 1024"

definition RelayOpenFrame_encode :: "RelayOpenFrame \<Rightarrow> FrameError + bytes" where
  "RelayOpenFrame_encode f =
     (if ro_requested_lifetime f \<noteq> 0
         \<and> \<not> (1000 \<le> ro_requested_lifetime f \<and> ro_requested_lifetime f \<le> MAX_REQUESTED_LIFETIME_MS)
      then Inl InvalidPadding
      else
        bindR (write_varint [] FT_RELAY_OPEN) (\<lambda>out.
        bindR (write_varint out (ro_circuit_id f)) (\<lambda>out.
        let flags = 0;
            flags = set_flag (ro_bidirectional f) 0x01 flags;
            flags = set_flag (ro_store_forward_allowed f) 0x02 flags;
            flags = set_flag (ro_private_circuit f) 0x04 flags;
            flags = set_flag (ro_multipath_allowed f) 0x08 flags;
            out = out @ [flags] in
        bindR (write_varint out (ro_requested_lifetime f)) (\<lambda>out.
        bindR (write_varint out (ro_requested_byte_quota f)) (\<lambda>out.
        bindR (write_bytes out (ro_next_hop_hint f) RelayOpen_MAX_NEXT_HOP_HINT) (\<lambda>out.
        write_bytes out (ro_authorization f) MAX_RELAY_AUTH))))))"

definition RelayOpenFrame_decode :: "bytes \<Rightarrow> FrameError + RelayOpenFrame \<times> nat" where
  "RelayOpenFrame_decode body =
     bindR (read_varint body 0) (\<lambda>(circuit_id, pos).
     bindR (read_u8 body pos) (\<lambda>(flags, pos).
     if flag_set flags 0xF0 then Inl InvalidPadding
     else
       bindR (read_varint body pos) (\<lambda>(lifetime, pos).
       if lifetime \<noteq> 0 \<and> \<not> (1000 \<le> lifetime \<and> lifetime \<le> MAX_REQUESTED_LIFETIME_MS)
       then Inl InvalidPadding
       else
         bindR (read_varint body pos) (\<lambda>(quota, pos).
         bindR (read_bytes body pos RelayOpen_MAX_NEXT_HOP_HINT) (\<lambda>(nh, pos).
         bindR (read_bytes body pos MAX_RELAY_AUTH) (\<lambda>(auth, pos).
         Inr (\<lparr>ro_circuit_id = circuit_id,
               ro_bidirectional = flag_set flags 0x01,
               ro_store_forward_allowed = flag_set flags 0x02,
               ro_private_circuit = flag_set flags 0x04,
               ro_multipath_allowed = flag_set flags 0x08,
               ro_requested_lifetime = lifetime,
               ro_requested_byte_quota = quota,
               ro_next_hop_hint = nh,
               ro_authorization = auth\<rparr>, pos)))))))"

record RelayStatusFrame =
  rst_circuit_id :: u64
  rst_status_sequence :: u64
  rst_status_code :: u64
  rst_bidirectional_granted :: bool
  rst_private_handling_granted :: bool
  rst_multipath_granted :: bool
  rst_downstream_authenticated :: bool
  rst_retryable :: bool
  rst_granted_lifetime :: u64
  rst_granted_byte_quota :: u64
  rst_maximum_relay_payload :: u64
  rst_diagnostic :: bytes
  rst_authentication :: bytes

definition RelayStatusFrame_encode :: "RelayStatusFrame \<Rightarrow> FrameError + bytes" where
  "RelayStatusFrame_encode f =
     bindR (write_varint [] (rst_circuit_id f)) (\<lambda>body.
     bindR (write_varint body (rst_status_sequence f)) (\<lambda>body.
     bindR (write_varint body (rst_status_code f)) (\<lambda>body.
     let flags = 0;
         flags = set_flag (rst_bidirectional_granted f) 0x01 flags;
         flags = set_flag (rst_private_handling_granted f) 0x02 flags;
         flags = set_flag (rst_multipath_granted f) 0x04 flags;
         flags = set_flag (rst_downstream_authenticated f) 0x08 flags;
         flags = set_flag (rst_retryable f) 0x10 flags;
         body = body @ [flags] in
     bindR (write_varint body (rst_granted_lifetime f)) (\<lambda>body.
     bindR (write_varint body (rst_granted_byte_quota f)) (\<lambda>body.
     bindR (write_varint body (rst_maximum_relay_payload f)) (\<lambda>body.
     bindR (write_bytes body (rst_diagnostic f) MAX_RELAY_DIAGNOSTIC) (\<lambda>body.
     bindR (write_bytes body (rst_authentication f) MAX_RELAY_AUTH) (\<lambda>body.
     bindR (write_varint [] FT_RELAY_STATUS) (\<lambda>out.
     bindR (write_varint out (of_nat (length body))) (\<lambda>out.
     Inr (out @ body)))))))))))"

definition RelayStatusFrame_decode :: "bytes \<Rightarrow> FrameError + RelayStatusFrame \<times> nat" where
  "RelayStatusFrame_decode body =
     bindR (read_varint body 0) (\<lambda>(circuit_id, pos).
     bindR (read_varint body pos) (\<lambda>(seq, pos).
     bindR (read_varint body pos) (\<lambda>(code, pos).
     bindR (read_u8 body pos) (\<lambda>(flags, pos).
     if flag_set flags 0xE0 then Inl InvalidPadding
     else
       bindR (read_varint body pos) (\<lambda>(lifetime, pos).
       bindR (read_varint body pos) (\<lambda>(quota, pos).
       bindR (read_varint body pos) (\<lambda>(max_payload, pos).
       bindR (read_bytes body pos MAX_RELAY_DIAGNOSTIC) (\<lambda>(diag, pos).
       bindR (read_bytes body pos MAX_RELAY_AUTH) (\<lambda>(auth, pos).
       Inr (\<lparr>rst_circuit_id = circuit_id,
             rst_status_sequence = seq,
             rst_status_code = code,
             rst_bidirectional_granted = flag_set flags 0x01,
             rst_private_handling_granted = flag_set flags 0x02,
             rst_multipath_granted = flag_set flags 0x04,
             rst_downstream_authenticated = flag_set flags 0x08,
             rst_retryable = flag_set flags 0x10,
             rst_granted_lifetime = lifetime,
             rst_granted_byte_quota = quota,
             rst_maximum_relay_payload = max_payload,
             rst_diagnostic = diag,
             rst_authentication = auth\<rparr>, pos))))))))))"

definition RelayStatusFrame_decode_length_delimited ::
    "bytes \<Rightarrow> FrameError + RelayStatusFrame \<times> nat" where
  "RelayStatusFrame_decode_length_delimited payload =
     bindR (read_varint payload 0) (\<lambda>(len, used).
     bindR (ok_or (usize_checked_add used (unat len)) FrameError.LengthExceedsLimit) (\<lambda>end.
     bindR (ok_or (get_range payload used end) FrameError.Truncated) (\<lambda>body.
     bindR (RelayStatusFrame_decode body) (\<lambda>(frame, _).
     Inr (frame, end)))))"

record RelayDataFrame =
  rd_circuit_id :: u64
  rd_relay_sequence :: u64
  rd_fin :: bool
  rd_ack_requested :: bool
  rd_high_priority :: bool
  rd_data :: bytes

definition RelayDataFrame_encode :: "RelayDataFrame \<Rightarrow> FrameError + bytes" where
  "RelayDataFrame_encode f =
     (if length (rd_data f) > MAX_RELAY_PAYLOAD then Inl FrameError.LengthExceedsLimit
      else if rd_data f = [] \<and> \<not> rd_fin f then Inl InvalidPadding
      else
        bindR (write_varint [] FT_RELAY_DATA) (\<lambda>out.
        bindR (write_varint out (rd_circuit_id f)) (\<lambda>out.
        bindR (write_varint out (rd_relay_sequence f)) (\<lambda>out.
        let flags = 0;
            flags = set_flag (rd_fin f) 0x01 flags;
            flags = set_flag (rd_ack_requested f) 0x02 flags;
            flags = set_flag (rd_high_priority f) 0x04 flags;
            out = out @ [flags] in
        write_bytes out (rd_data f) MAX_RELAY_PAYLOAD))))"

definition RelayDataFrame_decode :: "bytes \<Rightarrow> FrameError + RelayDataFrame \<times> nat" where
  "RelayDataFrame_decode body =
     bindR (read_varint body 0) (\<lambda>(circuit_id, pos).
     bindR (read_varint body pos) (\<lambda>(seq, pos).
     bindR (read_u8 body pos) (\<lambda>(flags, pos).
     if flag_set flags 0xF8 then Inl InvalidPadding
     else
       bindR (read_bytes body pos MAX_RELAY_PAYLOAD) (\<lambda>(data, pos).
       if data = [] \<and> \<not> flag_set flags 0x01 then Inl InvalidPadding
       else
         Inr (\<lparr>rd_circuit_id = circuit_id,
               rd_relay_sequence = seq,
               rd_fin = flag_set flags 0x01,
               rd_ack_requested = flag_set flags 0x02,
               rd_high_priority = flag_set flags 0x04,
               rd_data = data\<rparr>, pos)))))"

record RelayCloseFrame =
  rcl_circuit_id :: u64
  rcl_reason_code :: u64
  rcl_final_relay_sequence :: u64

definition NO_SEQUENCE :: u64 where "NO_SEQUENCE = 0xFFFFFFFFFFFFFFFF"

definition RelayCloseFrame_encode :: "RelayCloseFrame \<Rightarrow> FrameError + bytes" where
  "RelayCloseFrame_encode f =
     bindR (write_varint [] FT_RELAY_CLOSE) (\<lambda>out.
     bindR (write_varint out (rcl_circuit_id f)) (\<lambda>out.
     bindR (write_varint out (rcl_reason_code f)) (\<lambda>out.
     write_varint out (rcl_final_relay_sequence f))))"

definition RelayCloseFrame_decode :: "bytes \<Rightarrow> FrameError + RelayCloseFrame \<times> nat" where
  "RelayCloseFrame_decode body =
     bindR (read_varint body 0) (\<lambda>(circuit_id, pos).
     bindR (read_varint body pos) (\<lambda>(reason, pos).
     bindR (read_varint body pos) (\<lambda>(final_seq, pos).
     Inr (\<lparr>rcl_circuit_id = circuit_id, rcl_reason_code = reason,
           rcl_final_relay_sequence = final_seq\<rparr>, pos))))"

section \<open>Laws\<close>

definition relay_lifetime_ok :: "u64 \<Rightarrow> bool" where
  "relay_lifetime_ok l \<longleftrightarrow> l = 0 \<or> (1000 \<le> l \<and> l \<le> MAX_REQUESTED_LIFETIME_MS)"

lemma relay_lifetime_in_range: "relay_lifetime_ok l \<Longrightarrow> l \<le> MAX_VARINT"
  unfolding relay_lifetime_ok_def MAX_REQUESTED_LIFETIME_MS_def MAX_VARINT_def
  by (auto simp: word_le_nat_alt)

definition RelayOpen_fits :: "RelayOpenFrame \<Rightarrow> bool" where
  "RelayOpen_fits f \<longleftrightarrow> ro_circuit_id f \<le> MAX_VARINT \<and> relay_lifetime_ok (ro_requested_lifetime f)
     \<and> ro_requested_byte_quota f \<le> MAX_VARINT
     \<and> length (ro_next_hop_hint f) \<le> RelayOpen_MAX_NEXT_HOP_HINT
     \<and> length (ro_authorization f) \<le> MAX_RELAY_AUTH"

definition RelayOpen_fields :: "RelayOpenFrame \<Rightarrow> bytes" where
  "RelayOpen_fields f = varint_bytes (ro_circuit_id f)
     @ [set_flag (ro_multipath_allowed f) 0x08 (set_flag (ro_private_circuit f) 0x04
         (set_flag (ro_store_forward_allowed f) 0x02 (set_flag (ro_bidirectional f) 0x01 0)))]
     @ varint_bytes (ro_requested_lifetime f) @ varint_bytes (ro_requested_byte_quota f)
     @ bytes_field (ro_next_hop_hint f) @ bytes_field (ro_authorization f)"

lemma relay_lifetime_guard:
  "l \<noteq> 0 \<and> \<not> (1000 \<le> l \<and> l \<le> MAX_REQUESTED_LIFETIME_MS) \<longleftrightarrow> \<not> relay_lifetime_ok l"
  by (auto simp: relay_lifetime_ok_def)

interpretation relay_open: canonical_frame_codec
  FT_RELAY_OPEN "\<lambda>_. True" RelayOpenFrame_encode RelayOpenFrame_decode
proof (rule canonical_frame_codecI[where P = RelayOpen_fits and fld = RelayOpen_fields], goal_cases)
  case 2 show ?case
    unfolding RelayOpenFrame_encode_def relay_lifetime_guard
    by (auto simp: codec_enc Let_def RelayOpen_fits_def RelayOpen_fields_def relay_lifetime_in_range)
next
  case 3 then show ?case
    unfolding RelayOpenFrame_decode_def relay_lifetime_guard
    by (auto simp: codec_dec RelayOpen_fits_def RelayOpen_fields_def intro!: flags_rebuild4)
next
  case 4 then show ?case
    unfolding RelayOpenFrame_decode_def relay_lifetime_guard
    by (auto simp: codec_run RelayOpen_fits_def RelayOpen_fields_def relay_lifetime_in_range)
qed simp

interpretation relay_data: canonical_frame_codec
  FT_RELAY_DATA "\<lambda>_. True" RelayDataFrame_encode RelayDataFrame_decode
proof (rule canonical_frame_codecI
    [where P = "\<lambda>f. rd_circuit_id f \<le> MAX_VARINT \<and> rd_relay_sequence f \<le> MAX_VARINT
        \<and> length (rd_data f) \<le> MAX_RELAY_PAYLOAD \<and> (rd_data f = [] \<longrightarrow> rd_fin f)"
      and fld = "\<lambda>f. varint_bytes (rd_circuit_id f) @ varint_bytes (rd_relay_sequence f)
        @ [set_flag (rd_high_priority f) 0x04 (set_flag (rd_ack_requested f) 0x02
            (set_flag (rd_fin f) 0x01 0))] @ bytes_field (rd_data f)"], goal_cases)
  case 2 show ?case by (auto simp: RelayDataFrame_encode_def codec_enc Let_def)
next
  case 3 then show ?case
    by (auto simp: RelayDataFrame_decode_def codec_dec intro!: flags_rebuild3)
next
  case 4 then show ?case by (auto simp: RelayDataFrame_decode_def codec_run)
qed simp

interpretation relay_close: canonical_frame_codec
  FT_RELAY_CLOSE "\<lambda>_. True" RelayCloseFrame_encode RelayCloseFrame_decode
proof (rule canonical_frame_codecI
    [where P = "\<lambda>f. rcl_circuit_id f \<le> MAX_VARINT \<and> rcl_reason_code f \<le> MAX_VARINT
        \<and> rcl_final_relay_sequence f \<le> MAX_VARINT"
      and fld = "\<lambda>f. varint_bytes (rcl_circuit_id f) @ varint_bytes (rcl_reason_code f)
        @ varint_bytes (rcl_final_relay_sequence f)"], goal_cases)
  case 2 show ?case by (auto simp: RelayCloseFrame_encode_def codec_enc)
next
  case 3 then show ?case by (auto simp: RelayCloseFrame_decode_def codec_dec)
next
  case 4 then show ?case by (auto simp: RelayCloseFrame_decode_def codec_run)
qed simp

definition RelayStatus_fits :: "RelayStatusFrame \<Rightarrow> bool" where
  "RelayStatus_fits f \<longleftrightarrow> rst_circuit_id f \<le> MAX_VARINT \<and> rst_status_sequence f \<le> MAX_VARINT
     \<and> rst_status_code f \<le> MAX_VARINT \<and> rst_granted_lifetime f \<le> MAX_VARINT
     \<and> rst_granted_byte_quota f \<le> MAX_VARINT \<and> rst_maximum_relay_payload f \<le> MAX_VARINT
     \<and> length (rst_diagnostic f) \<le> MAX_RELAY_DIAGNOSTIC
     \<and> length (rst_authentication f) \<le> MAX_RELAY_AUTH"

definition RelayStatus_fields :: "RelayStatusFrame \<Rightarrow> bytes" where
  "RelayStatus_fields f = varint_bytes (rst_circuit_id f) @ varint_bytes (rst_status_sequence f)
     @ varint_bytes (rst_status_code f)
     @ [set_flag (rst_retryable f) 0x10 (set_flag (rst_downstream_authenticated f) 0x08
         (set_flag (rst_multipath_granted f) 0x04 (set_flag (rst_private_handling_granted f) 0x02
         (set_flag (rst_bidirectional_granted f) 0x01 0))))]
     @ varint_bytes (rst_granted_lifetime f) @ varint_bytes (rst_granted_byte_quota f)
     @ varint_bytes (rst_maximum_relay_payload f)
     @ bytes_field (rst_diagnostic f) @ bytes_field (rst_authentication f)"

lemma RelayStatus_fields_length:
  assumes "RelayStatus_fits f"
  shows "length (RelayStatus_fields f) \<le> 1345"
  using assms varint_bytes_le_8[of "rst_circuit_id f"] varint_bytes_le_8[of "rst_status_sequence f"]
    varint_bytes_le_8[of "rst_status_code f"] varint_bytes_le_8[of "rst_granted_lifetime f"]
    varint_bytes_le_8[of "rst_granted_byte_quota f"] varint_bytes_le_8[of "rst_maximum_relay_payload f"]
    bytes_field_length[of "rst_diagnostic f"] bytes_field_length[of "rst_authentication f"]
  by (simp add: RelayStatus_fits_def RelayStatus_fields_def)

lemma RelayStatusFrame_encode_iff:
  "RelayStatusFrame_encode f = Inr bs \<longleftrightarrow> RelayStatus_fits f
     \<and> bs = varint_bytes FT_RELAY_STATUS
         @ varint_bytes (of_nat (length (RelayStatus_fields f))) @ RelayStatus_fields f"
proof -
  have "RelayStatusFrame_encode f = Inr bs \<longleftrightarrow> RelayStatus_fits f
     \<and> of_nat (length (RelayStatus_fields f)) \<le> MAX_VARINT
     \<and> bs = varint_bytes FT_RELAY_STATUS
         @ varint_bytes (of_nat (length (RelayStatus_fields f))) @ RelayStatus_fields f"
    by (auto simp: RelayStatusFrame_encode_def codec_enc Let_def RelayStatus_fits_def
        RelayStatus_fields_def simp del: length_append)
  moreover have "RelayStatus_fits f \<Longrightarrow> (of_nat (length (RelayStatus_fields f)) :: u64) \<le> MAX_VARINT"
    using RelayStatus_fields_length[of f] by (intro of_nat_le_MAX_VARINT) simp
  ultimately show ?thesis by blast
qed

lemma RelayStatusFrame_decode_fields:
  "RelayStatusFrame_decode body = Inr (f, n) \<Longrightarrow>
   RelayStatus_fits f \<and> n = length (RelayStatus_fields f) \<and> at_pos body 0 (RelayStatus_fields f)"
  by (auto simp: RelayStatusFrame_decode_def codec_dec RelayStatus_fits_def RelayStatus_fields_def
      intro!: flags_rebuild5)

lemma RelayStatusFrame_decode_run:
  "RelayStatus_fits f \<Longrightarrow> at_pos body 0 (RelayStatus_fields f) \<Longrightarrow>
   RelayStatusFrame_decode body = Inr (f, length (RelayStatus_fields f))"
  by (auto simp: RelayStatusFrame_decode_def codec_run RelayStatus_fits_def RelayStatus_fields_def)

lemma RelayStatus_delimited_run:
  assumes "RelayStatus_fits f" and "at_pos payload 0 (varint_bytes (of_nat (length body)))"
    and "at_pos payload (length (varint_bytes (of_nat (length body)))) body"
    and "at_pos body 0 (RelayStatus_fields f)" and "length body < 2 ^ 62"
  shows "RelayStatusFrame_decode_length_delimited payload
    = Inr (f, length (varint_bytes (of_nat (length body))) + length body)"
proof -
  have le: "(of_nat (length body) :: u64) \<le> MAX_VARINT" by (rule of_nat_le_MAX_VARINT[OF assms(5)])
  show ?thesis
    using assms(2,3,5) le varint_bytes_le_8[OF le] at_pos_get_range[OF assms(3)]
    by (simp add: RelayStatusFrame_decode_length_delimited_def codec_run unat_of_nat_62
        usize_checked_add_def RelayStatusFrame_decode_run[OF assms(1,4)])
qed

interpretation relay_status: frame_codec
  FT_RELAY_STATUS "\<lambda>_. True" RelayStatusFrame_encode RelayStatusFrame_decode_length_delimited
proof (rule frame_codecI[where fld = "\<lambda>f. varint_bytes (of_nat (length (RelayStatus_fields f)))
    @ RelayStatus_fields f"], goal_cases)
  case (2 f bs)
  then have "RelayStatus_fits f" by (simp add: RelayStatusFrame_encode_iff)
  with 2 RelayStatus_fields_length[OF this] show ?case
    by (auto simp: RelayStatusFrame_encode_iff at_pos_self intro!: RelayStatus_delimited_run)
next
  case (3 f n body)
  then show ?case
    by (auto simp: RelayStatusFrame_decode_length_delimited_def bindR_Inr_iff dest: get_range_Some_drop(4))
qed simp

section \<open>Properties\<close>

text \<open>
  The \<open>NO_SEQUENCE\<close> marker of a relay close cannot be sent: it lies above the varint range,
  so encoding a close frame that carries it fails, whatever its other fields.
\<close>

theorem relay_close_no_sequence:
  "rcl_final_relay_sequence f = NO_SEQUENCE \<Longrightarrow>
     RelayCloseFrame_encode f = Inl (VarintEncode ValueTooLarge)"
  by (auto simp: RelayCloseFrame_encode_def write_varint_def varint_encode_into_eq NO_SEQUENCE_def
      MAX_VARINT_def)

theorem relay_close_no_sequence_witness:
  "RelayCloseFrame_encode \<lparr>rcl_circuit_id = 7, rcl_reason_code = 0,
     rcl_final_relay_sequence = NO_SEQUENCE\<rparr> = Inl (VarintEncode ValueTooLarge)"
  by (rule relay_close_no_sequence) simp

end
