(* ===== verification/Frames_Bundle.thy ===== *)
theory Frames_Bundle
  imports Frame_Codec
begin

text \<open>
  \<open>crates/umc-wire/src/frames/bundle.rs\<close>: store-and-forward bundles, whole or in chunks, and
  their acknowledgements.
\<close>

section \<open>Model\<close>

definition MAX_BUNDLE_ID :: nat where [simp]: "MAX_BUNDLE_ID = 64"
definition MAX_BUNDLE_DESTINATION_HINT :: nat where [simp]: "MAX_BUNDLE_DESTINATION_HINT = 512"
definition MAX_BUNDLE_AUTH :: nat where [simp]: "MAX_BUNDLE_AUTH = 1024"
definition MAX_BUNDLE_PAYLOAD :: nat where [simp]: "MAX_BUNDLE_PAYLOAD = 65535 - 128"
definition FLAG_CHUNKED :: u8 where [simp]: "FLAG_CHUNKED = 0x20"
definition FLAG_CHUNK_FINAL :: u8 where [simp]: "FLAG_CHUNK_FINAL = 0x40"

record BundleFrame =
  bn_bundle_id :: bytes
  bn_custody_requested :: bool
  bn_delivery_ack_requested :: bool
  bn_do_not_replicate :: bool
  bn_local_scope_only :: bool
  bn_high_sensitivity :: bool
  bn_priority :: u64
  bn_creation_time :: u64
  bn_expiration_time :: u64
  bn_replication_limit :: u64
  bn_destination_hint :: bytes
  bn_payload :: bytes
  bn_bundle_auth :: bytes
  bn_chunk_index :: u64
  bn_chunk_final :: bool

definition BundleFrame_encode :: "BundleFrame \<Rightarrow> FrameError + bytes" where
  "BundleFrame_encode f =
     (if length (bn_payload f) > MAX_BUNDLE_PAYLOAD then Inl FrameError.LengthExceedsLimit
      else
        bindR (write_varint [] FT_BUNDLE) (\<lambda>out.
        bindR (write_bytes out (bn_bundle_id f) MAX_BUNDLE_ID) (\<lambda>out.
        let flags = 0;
            flags = set_flag (bn_custody_requested f) 0x01 flags;
            flags = set_flag (bn_delivery_ack_requested f) 0x02 flags;
            flags = set_flag (bn_do_not_replicate f) 0x04 flags;
            flags = set_flag (bn_local_scope_only f) 0x08 flags;
            flags = set_flag (bn_high_sensitivity f) 0x10 flags;
            chunked = (bn_chunk_index f \<noteq> 0 \<or> \<not> bn_chunk_final f);
            flags = set_flag chunked FLAG_CHUNKED flags;
            flags = set_flag (chunked \<and> bn_chunk_final f) FLAG_CHUNK_FINAL flags;
            out = out @ [flags] in
        bindR (if chunked then write_varint out (bn_chunk_index f) else Inr out) (\<lambda>out.
        bindR (write_varint out (bn_priority f)) (\<lambda>out.
        bindR (write_varint out (bn_creation_time f)) (\<lambda>out.
        bindR (write_varint out (bn_expiration_time f)) (\<lambda>out.
        bindR (write_varint out (bn_replication_limit f)) (\<lambda>out.
        bindR (write_bytes out (bn_destination_hint f) MAX_BUNDLE_DESTINATION_HINT) (\<lambda>out.
        bindR (write_bytes out (bn_payload f) MAX_BUNDLE_PAYLOAD) (\<lambda>out.
        write_bytes out (bn_bundle_auth f) MAX_BUNDLE_AUTH))))))))))"

definition BundleFrame_decode :: "bytes \<Rightarrow> FrameError + BundleFrame \<times> nat" where
  "BundleFrame_decode body =
     bindR (read_bytes body 0 MAX_BUNDLE_ID) (\<lambda>(id, pos).
     bindR (read_u8 body pos) (\<lambda>(flags, pos).
     if flag_set flags 0x80 \<or> (flag_set flags FLAG_CHUNK_FINAL \<and> \<not> flag_set flags FLAG_CHUNKED)
     then Inl InvalidPadding
     else
       let chunked = flag_set flags FLAG_CHUNKED in
       bindR (if chunked then read_varint body pos else Inr (0, pos)) (\<lambda>(chunk_index, pos).
       bindR (read_varint body pos) (\<lambda>(priority, pos).
       bindR (read_varint body pos) (\<lambda>(created, pos).
       bindR (read_varint body pos) (\<lambda>(expires, pos).
       bindR (read_varint body pos) (\<lambda>(replication, pos).
       bindR (read_bytes body pos MAX_BUNDLE_DESTINATION_HINT) (\<lambda>(dh, pos).
       bindR (read_bytes body pos MAX_BUNDLE_PAYLOAD) (\<lambda>(payload, pos).
       bindR (read_bytes body pos MAX_BUNDLE_AUTH) (\<lambda>(auth, pos).
       Inr (\<lparr>bn_bundle_id = id,
             bn_custody_requested = flag_set flags 0x01,
             bn_delivery_ack_requested = flag_set flags 0x02,
             bn_do_not_replicate = flag_set flags 0x04,
             bn_local_scope_only = flag_set flags 0x08,
             bn_high_sensitivity = flag_set flags 0x10,
             bn_priority = priority,
             bn_creation_time = created,
             bn_expiration_time = expires,
             bn_replication_limit = replication,
             bn_destination_hint = dh,
             bn_payload = payload,
             bn_bundle_auth = auth,
             bn_chunk_index = chunk_index,
             bn_chunk_final = (\<not> chunked \<or> flag_set flags FLAG_CHUNK_FINAL)\<rparr>, pos)))))))))))"

record BundleAckFrame =
  ba_bundle_id :: bytes
  ba_status :: u64
  ba_stored_until :: u64
  ba_authentication :: bytes

definition BundleAckFrame_encode :: "BundleAckFrame \<Rightarrow> FrameError + bytes" where
  "BundleAckFrame_encode f =
     bindR (write_varint [] FT_BUNDLE_ACK) (\<lambda>out.
     bindR (write_bytes out (ba_bundle_id f) MAX_BUNDLE_ID) (\<lambda>out.
     bindR (write_varint out (ba_status f)) (\<lambda>out.
     bindR (write_varint out (ba_stored_until f)) (\<lambda>out.
     write_bytes out (ba_authentication f) MAX_BUNDLE_AUTH))))"

definition BundleAckFrame_decode :: "bytes \<Rightarrow> FrameError + BundleAckFrame \<times> nat" where
  "BundleAckFrame_decode body =
     bindR (read_bytes body 0 MAX_BUNDLE_ID) (\<lambda>(id, pos).
     bindR (read_varint body pos) (\<lambda>(status, pos).
     bindR (read_varint body pos) (\<lambda>(stored_until, pos).
     bindR (read_bytes body pos MAX_BUNDLE_AUTH) (\<lambda>(auth, pos).
     Inr (\<lparr>ba_bundle_id = id, ba_status = status, ba_stored_until = stored_until,
           ba_authentication = auth\<rparr>, pos)))))"

section \<open>Laws\<close>

text \<open>
  The body of a bundle frame in its chunked (\<open>c\<close>) or whole (\<open>\<not> c\<close>) form. A frame that is
  a whole bundle can be written in either form; the encoder always picks the whole one.
\<close>

definition Bundle_fields_as :: "bool \<Rightarrow> BundleFrame \<Rightarrow> bytes" where
  "Bundle_fields_as c f = bytes_field (bn_bundle_id f)
     @ [set_flag (c \<and> bn_chunk_final f) 0x40 (set_flag c 0x20
         (set_flag (bn_high_sensitivity f) 0x10 (set_flag (bn_local_scope_only f) 0x08
         (set_flag (bn_do_not_replicate f) 0x04 (set_flag (bn_delivery_ack_requested f) 0x02
         (set_flag (bn_custody_requested f) 0x01 0))))))]
     @ (if c then varint_bytes (bn_chunk_index f) else [])
     @ varint_bytes (bn_priority f) @ varint_bytes (bn_creation_time f)
     @ varint_bytes (bn_expiration_time f) @ varint_bytes (bn_replication_limit f)
     @ bytes_field (bn_destination_hint f) @ bytes_field (bn_payload f)
     @ bytes_field (bn_bundle_auth f)"

definition bundle_whole :: "BundleFrame \<Rightarrow> bool" where
  "bundle_whole f \<longleftrightarrow> bn_chunk_index f = 0 \<and> bn_chunk_final f"

definition Bundle_fits :: "BundleFrame \<Rightarrow> bool" where
  "Bundle_fits f \<longleftrightarrow> length (bn_bundle_id f) \<le> MAX_BUNDLE_ID \<and> bn_priority f \<le> MAX_VARINT
     \<and> bn_chunk_index f \<le> MAX_VARINT
     \<and> bn_creation_time f \<le> MAX_VARINT \<and> bn_expiration_time f \<le> MAX_VARINT
     \<and> bn_replication_limit f \<le> MAX_VARINT
     \<and> length (bn_destination_hint f) \<le> MAX_BUNDLE_DESTINATION_HINT
     \<and> length (bn_payload f) \<le> MAX_BUNDLE_PAYLOAD \<and> length (bn_bundle_auth f) \<le> MAX_BUNDLE_AUTH"

lemma BundleFrame_encode_iff:
  "BundleFrame_encode f = Inr bs \<longleftrightarrow>
     Bundle_fits f \<and> bs = varint_bytes FT_BUNDLE @ Bundle_fields_as (\<not> bundle_whole f) f"
  by (cases "bn_chunk_index f = 0"; cases "bn_chunk_final f")
    (auto simp: BundleFrame_encode_def codec_enc Let_def Bundle_fits_def Bundle_fields_as_def
      bundle_whole_def)

lemma BundleFrame_decode_fields:
  assumes "BundleFrame_decode body = Inr (f, n)"
  shows "\<exists>c. Bundle_fits f \<and> (\<not> c \<longrightarrow> bundle_whole f)
    \<and> n = length (Bundle_fields_as c f) \<and> at_pos body 0 (Bundle_fields_as c f)"
proof -
  obtain id p flags q where head: "read_bytes body 0 MAX_BUNDLE_ID = Inr (id, p)"
      "read_u8 body p = Inr (flags, q)"
    using assms by (auto simp: BundleFrame_decode_def bindR_Inr_iff)
  note rest = assms[unfolded BundleFrame_decode_def Let_def, simplified head, simplified]
  show ?thesis
  proof (cases "flag_set flags FLAG_CHUNKED")
    case True
    with rest head show ?thesis
      by (intro exI[of _ True]) (auto simp: codec_dec Bundle_fits_def Bundle_fields_as_def
          bundle_whole_def intro!: flags_rebuild7)
  next
    case False
    with rest head show ?thesis
      by (intro exI[of _ False]) (auto simp: codec_dec Bundle_fits_def Bundle_fields_as_def
          bundle_whole_def intro!: flags_rebuild7)
  qed
qed

lemma BundleFrame_decode_run:
  assumes "Bundle_fits f" and "\<not> c \<longrightarrow> bundle_whole f" and "at_pos body 0 (Bundle_fields_as c f)"
  shows "BundleFrame_decode body = Inr (f, length (Bundle_fields_as c f))"
  using assms
  by (cases f; cases c)
    (auto simp: BundleFrame_decode_def codec_run Let_def Bundle_fits_def Bundle_fields_as_def
      bundle_whole_def)

interpretation bundle_frame: frame_codec FT_BUNDLE "\<lambda>_. True" BundleFrame_encode BundleFrame_decode
proof (rule frame_codecI[where fld = "\<lambda>f. Bundle_fields_as (\<not> bundle_whole f) f"], goal_cases)
  case (2 f bs)
  then show ?case by (auto simp: BundleFrame_encode_iff intro!: BundleFrame_decode_run)
next
  case (3 f n body)
  then show ?case using BundleFrame_decode_fields[of body f n] by (auto simp: at_pos_0_iff)
qed simp

interpretation bundle_ack: canonical_frame_codec
  FT_BUNDLE_ACK "\<lambda>_. True" BundleAckFrame_encode BundleAckFrame_decode
proof (rule canonical_frame_codecI
    [where P = "\<lambda>f. length (ba_bundle_id f) \<le> MAX_BUNDLE_ID \<and> ba_status f \<le> MAX_VARINT
        \<and> ba_stored_until f \<le> MAX_VARINT \<and> length (ba_authentication f) \<le> MAX_BUNDLE_AUTH"
      and fld = "\<lambda>f. bytes_field (ba_bundle_id f) @ varint_bytes (ba_status f)
        @ varint_bytes (ba_stored_until f) @ bytes_field (ba_authentication f)"], goal_cases)
  case 2 show ?case by (auto simp: BundleAckFrame_encode_def codec_enc)
next
  case 3 then show ?case by (auto simp: BundleAckFrame_decode_def codec_dec)
next
  case 4 then show ?case by (auto simp: BundleAckFrame_decode_def codec_run)
qed simp

end
