(* ===== verification/Frames_Misc.thy ===== *)
theory Frames_Misc
  imports Frame_Codec
begin

text \<open>
  \<open>crates/umc-wire/src/frames/misc.rs\<close>: peer and service hints, DHT lookups and revocation
  batches. The last two are length-delimited.
\<close>

section \<open>Model\<close>

definition MAX_HINTS :: nat where [simp]: "MAX_HINTS = 32"
definition MAX_PEER_ID :: nat where [simp]: "MAX_PEER_ID = 64"
definition MAX_CARRIER_TYPE :: nat where [simp]: "MAX_CARRIER_TYPE = 64"
definition MAX_CONNECTION_HINT :: nat where [simp]: "MAX_CONNECTION_HINT = 1024"
definition MAX_AUTHENTICATOR :: nat where [simp]: "MAX_AUTHENTICATOR = 1024"
definition MAX_PROTOCOL_ID :: nat where [simp]: "MAX_PROTOCOL_ID = 255"
definition MAX_ENDPOINT_HINT :: nat where [simp]: "MAX_ENDPOINT_HINT = 512"
definition MAX_SERVICE_METADATA :: nat where [simp]: "MAX_SERVICE_METADATA = 4096"
definition MAX_SIGNATURE :: nat where [simp]: "MAX_SIGNATURE = 1024"
definition MAX_DHT_RECORDS :: nat where [simp]: "MAX_DHT_RECORDS = 16"
definition MAX_DHT_CARRIER :: nat where [simp]: "MAX_DHT_CARRIER = 64"
definition MAX_DHT_HINT :: nat where [simp]: "MAX_DHT_HINT = 1024"
definition MAX_REVOCATION_BATCH :: nat where [simp]: "MAX_REVOCATION_BATCH = 16 * 1024"

record PeerHintEntry =
  ph_temporary_peer_id :: bytes
  ph_carrier_type :: bytes
  ph_connection_hint :: bytes
  ph_expiration_time :: u64
  ph_public :: bool
  ph_introduced :: bool
  ph_local :: bool
  ph_ephemeral :: bool
  ph_do_not_reshare :: bool
  ph_authenticator :: bytes

record PeerHintFrame =
  phf_entries :: "PeerHintEntry list"

definition PeerHintEntry_write :: "bytes \<Rightarrow> PeerHintEntry \<Rightarrow> FrameError + bytes" where
  "PeerHintEntry_write out e =
     bindR (write_bytes out (ph_temporary_peer_id e) MAX_PEER_ID) (\<lambda>out.
     bindR (write_bytes out (ph_carrier_type e) MAX_CARRIER_TYPE) (\<lambda>out.
     bindR (write_bytes out (ph_connection_hint e) MAX_CONNECTION_HINT) (\<lambda>out.
     bindR (write_varint out (ph_expiration_time e)) (\<lambda>out.
     let flags = 0;
         flags = set_flag (ph_public e) 0x01 flags;
         flags = set_flag (ph_introduced e) 0x02 flags;
         flags = set_flag (ph_local e) 0x04 flags;
         flags = set_flag (ph_ephemeral e) 0x08 flags;
         flags = set_flag (ph_do_not_reshare e) 0x10 flags;
         out = out @ [flags] in
     write_bytes out (ph_authenticator e) MAX_AUTHENTICATOR))))"

definition PeerHintEntry_read :: "bytes \<Rightarrow> nat \<Rightarrow> FrameError + PeerHintEntry \<times> nat" where
  "PeerHintEntry_read body pos =
     bindR (read_bytes body pos MAX_PEER_ID) (\<lambda>(temp_peer_id, pos).
     bindR (read_bytes body pos MAX_CARRIER_TYPE) (\<lambda>(carrier_type, pos).
     bindR (read_bytes body pos MAX_CONNECTION_HINT) (\<lambda>(connection_hint, pos).
     bindR (read_varint body pos) (\<lambda>(expiration, pos).
     bindR (read_u8 body pos) (\<lambda>(flags, pos).
     if flag_set flags 0xE0 then Inl InvalidPadding
     else
       bindR (read_bytes body pos MAX_AUTHENTICATOR) (\<lambda>(auth, pos).
       Inr (\<lparr>ph_temporary_peer_id = temp_peer_id,
             ph_carrier_type = carrier_type,
             ph_connection_hint = connection_hint,
             ph_expiration_time = expiration,
             ph_public = flag_set flags 0x01,
             ph_introduced = flag_set flags 0x02,
             ph_local = flag_set flags 0x04,
             ph_ephemeral = flag_set flags 0x08,
             ph_do_not_reshare = flag_set flags 0x10,
             ph_authenticator = auth\<rparr>, pos)))))))"

definition PeerHintFrame_encode :: "PeerHintFrame \<Rightarrow> FrameError + bytes" where
  "PeerHintFrame_encode f =
     (if length (phf_entries f) > MAX_HINTS then Inl FrameError.LengthExceedsLimit
      else
        bindR (write_varint [] FT_PEER_HINT) (\<lambda>out.
        bindR (write_varint out (of_nat (length (phf_entries f)))) (\<lambda>out.
        write_many PeerHintEntry_write out (phf_entries f))))"

definition PeerHintFrame_decode :: "bytes \<Rightarrow> FrameError + PeerHintFrame \<times> nat" where
  "PeerHintFrame_decode body =
     bindR (read_varint body 0) (\<lambda>(count, pos).
     if count > of_nat MAX_HINTS then Inl FrameError.LengthExceedsLimit
     else
       bindR (read_many (PeerHintEntry_read body) (unat count) pos) (\<lambda>(entries, pos).
       Inr (\<lparr>phf_entries = entries\<rparr>, pos)))"

record ServiceHintFrame =
  sh_protocol_id :: bytes
  sh_endpoint_hint :: bytes
  sh_metadata :: bytes
  sh_expiration_time :: u64
  sh_signature :: bytes

record DhtRecordWire =
  dr_endpoint_id :: bytes
  dr_identity_public_key :: bytes
  dr_carrier_type :: bytes
  dr_connection_hint :: bytes
  dr_expiration_time :: u64
  dr_sequence :: u64
  dr_signature :: bytes

record DhtLookupFrame =
  dl_request_id :: u64
  dl_response :: bool
  dl_target_endpoint_id :: bytes
  dl_records :: "DhtRecordWire list"

record RevocationBatchFrame =
  rb_payload :: bytes

definition RevocationBatchFrame_encode :: "RevocationBatchFrame \<Rightarrow> FrameError + bytes" where
  "RevocationBatchFrame_encode f =
     (if length (rb_payload f) > MAX_REVOCATION_BATCH then Inl FrameError.LengthExceedsLimit
      else
        bindR (write_varint [] FT_REVOCATION_BATCH) (\<lambda>out.
        bindR (write_varint out (of_nat (length (rb_payload f)))) (\<lambda>out.
        Inr (out @ rb_payload f))))"

definition RevocationBatchFrame_decode :: "bytes \<Rightarrow> FrameError + RevocationBatchFrame \<times> nat" where
  "RevocationBatchFrame_decode body =
     (if length body > MAX_REVOCATION_BATCH then Inl FrameError.LengthExceedsLimit
      else Inr (\<lparr>rb_payload = body\<rparr>, length body))"

definition DhtRecordWire_write :: "bytes \<Rightarrow> DhtRecordWire \<Rightarrow> FrameError + bytes" where
  "DhtRecordWire_write body r =
     bindR (write_bytes body (dr_endpoint_id r) 32) (\<lambda>body.
     bindR (write_bytes body (dr_identity_public_key r) 32) (\<lambda>body.
     bindR (write_bytes body (dr_carrier_type r) MAX_DHT_CARRIER) (\<lambda>body.
     bindR (write_bytes body (dr_connection_hint r) MAX_DHT_HINT) (\<lambda>body.
     bindR (write_varint body (dr_expiration_time r)) (\<lambda>body.
     bindR (write_varint body (dr_sequence r)) (\<lambda>body.
     write_bytes body (dr_signature r) MAX_SIGNATURE))))))"

definition DhtRecordWire_read :: "bytes \<Rightarrow> nat \<Rightarrow> FrameError + DhtRecordWire \<times> nat" where
  "DhtRecordWire_read body pos =
     bindR (read_bytes body pos 1024) (\<lambda>(endpoint_id, pos).
     bindR (read_bytes body pos 1024) (\<lambda>(identity_public_key, pos).
     bindR (read_bytes body pos 1024) (\<lambda>(carrier_type, pos).
     bindR (read_bytes body pos 1024) (\<lambda>(connection_hint, pos).
     if length endpoint_id \<noteq> 32 \<or> length identity_public_key \<noteq> 32
        \<or> length carrier_type > MAX_DHT_CARRIER \<or> length connection_hint > MAX_DHT_HINT
     then Inl FrameError.LengthExceedsLimit
     else
       bindR (read_varint body pos) (\<lambda>(expiration_time, pos).
       bindR (read_varint body pos) (\<lambda>(sequence, pos).
       bindR (read_bytes body pos 1024) (\<lambda>(signature, pos).
       if length signature \<noteq> 64 then Inl FrameError.LengthExceedsLimit
       else
         Inr (\<lparr>dr_endpoint_id = endpoint_id,
               dr_identity_public_key = identity_public_key,
               dr_carrier_type = carrier_type,
               dr_connection_hint = connection_hint,
               dr_expiration_time = expiration_time,
               dr_sequence = sequence,
               dr_signature = signature\<rparr>, pos))))))))"

definition DhtLookupFrame_encode :: "DhtLookupFrame \<Rightarrow> FrameError + bytes" where
  "DhtLookupFrame_encode f =
     (if length (dl_target_endpoint_id f) \<noteq> 32 \<or> length (dl_records f) > MAX_DHT_RECORDS
      then Inl FrameError.LengthExceedsLimit
      else
        bindR (write_varint [] (dl_request_id f)) (\<lambda>body.
        bindR (write_bytes body (dl_target_endpoint_id f) 32) (\<lambda>body.
        let body = body @ [of_bool (dl_response f)] in
        bindR (write_varint body (of_nat (length (dl_records f)))) (\<lambda>body.
        bindR (write_many DhtRecordWire_write body (dl_records f)) (\<lambda>body.
        bindR (write_varint [] FT_DHT_LOOKUP) (\<lambda>out.
        bindR (write_varint out (of_nat (length body))) (\<lambda>out.
        Inr (out @ body))))))))"

definition DhtLookupFrame_decode :: "bytes \<Rightarrow> FrameError + DhtLookupFrame \<times> nat" where
  "DhtLookupFrame_decode body =
     bindR (read_varint body 0) (\<lambda>(request_id, pos).
     bindR (read_bytes body pos 1024) (\<lambda>(target_endpoint_id, pos).
     if length target_endpoint_id \<noteq> 32 then Inl FrameError.LengthExceedsLimit
     else
       bindR (read_u8 body pos) (\<lambda>(b, pos).
       let response = (b \<noteq> 0) in
       bindR (read_varint body pos) (\<lambda>(count, pos).
       if count > of_nat MAX_DHT_RECORDS then Inl FrameError.LengthExceedsLimit
       else
         bindR (read_many (DhtRecordWire_read body) (unat count) pos) (\<lambda>(records, pos).
         Inr (\<lparr>dl_request_id = request_id, dl_response = response,
               dl_target_endpoint_id = target_endpoint_id, dl_records = records\<rparr>, pos))))))"

definition ServiceHintFrame_encode :: "ServiceHintFrame \<Rightarrow> FrameError + bytes" where
  "ServiceHintFrame_encode f =
     bindR (write_varint [] FT_SERVICE_HINT) (\<lambda>out.
     bindR (write_bytes out (sh_protocol_id f) MAX_PROTOCOL_ID) (\<lambda>out.
     bindR (write_bytes out (sh_endpoint_hint f) MAX_ENDPOINT_HINT) (\<lambda>out.
     bindR (write_bytes out (sh_metadata f) MAX_SERVICE_METADATA) (\<lambda>out.
     bindR (write_varint out (sh_expiration_time f)) (\<lambda>out.
     write_bytes out (sh_signature f) MAX_SIGNATURE)))))"

definition ServiceHintFrame_decode :: "bytes \<Rightarrow> FrameError + ServiceHintFrame \<times> nat" where
  "ServiceHintFrame_decode body =
     bindR (read_bytes body 0 MAX_PROTOCOL_ID) (\<lambda>(protocol_id, pos).
     bindR (read_bytes body pos MAX_ENDPOINT_HINT) (\<lambda>(endpoint_hint, pos).
     bindR (read_bytes body pos MAX_SERVICE_METADATA) (\<lambda>(metadata, pos).
     bindR (read_varint body pos) (\<lambda>(expiration_time, pos).
     bindR (read_bytes body pos MAX_SIGNATURE) (\<lambda>(signature, pos).
     Inr (\<lparr>sh_protocol_id = protocol_id, sh_endpoint_hint = endpoint_hint, sh_metadata = metadata,
           sh_expiration_time = expiration_time, sh_signature = signature\<rparr>, pos))))))"

section \<open>Laws\<close>

definition PeerHintEntry_fits :: "PeerHintEntry \<Rightarrow> bool" where
  "PeerHintEntry_fits e \<longleftrightarrow> length (ph_temporary_peer_id e) \<le> MAX_PEER_ID
     \<and> length (ph_carrier_type e) \<le> MAX_CARRIER_TYPE
     \<and> length (ph_connection_hint e) \<le> MAX_CONNECTION_HINT
     \<and> ph_expiration_time e \<le> MAX_VARINT \<and> length (ph_authenticator e) \<le> MAX_AUTHENTICATOR"

definition PeerHintEntry_fields :: "PeerHintEntry \<Rightarrow> bytes" where
  "PeerHintEntry_fields e = bytes_field (ph_temporary_peer_id e) @ bytes_field (ph_carrier_type e)
     @ bytes_field (ph_connection_hint e) @ varint_bytes (ph_expiration_time e)
     @ [set_flag (ph_do_not_reshare e) 0x10 (set_flag (ph_ephemeral e) 0x08
         (set_flag (ph_local e) 0x04 (set_flag (ph_introduced e) 0x02
         (set_flag (ph_public e) 0x01 0))))]
     @ bytes_field (ph_authenticator e)"

lemma PeerHintEntry_write_Inr:
  "PeerHintEntry_write out e = Inr out' \<longleftrightarrow> PeerHintEntry_fits e \<and> out' = out @ PeerHintEntry_fields e"
  by (auto simp: PeerHintEntry_write_def codec_enc Let_def PeerHintEntry_fits_def
      PeerHintEntry_fields_def)

lemma PeerHintEntry_read_fields:
  "PeerHintEntry_read body p = Inr (e, p') \<Longrightarrow>
     PeerHintEntry_fits e \<and> p' = p + length (PeerHintEntry_fields e)
     \<and> at_pos body p (PeerHintEntry_fields e)"
  by (auto simp: PeerHintEntry_read_def codec_dec PeerHintEntry_fits_def PeerHintEntry_fields_def
      intro!: flags_rebuild5)

lemma PeerHintEntry_read_run:
  "PeerHintEntry_fits e \<Longrightarrow> at_pos body p (PeerHintEntry_fields e) \<Longrightarrow>
   PeerHintEntry_read body p = Inr (e, p + length (PeerHintEntry_fields e))"
  by (auto simp: PeerHintEntry_read_def codec_run PeerHintEntry_fits_def PeerHintEntry_fields_def)

lemma PeerHintEntry_read_iff:
  "PeerHintEntry_read body p = Inr (e, p') \<longleftrightarrow>
     PeerHintEntry_fits e \<and> p' = p + length (PeerHintEntry_fields e)
     \<and> at_pos body p (PeerHintEntry_fields e)"
  using PeerHintEntry_read_fields PeerHintEntry_read_run by blast

lemmas PeerHints_write = write_many_Inr[OF PeerHintEntry_write_Inr]
lemmas PeerHints_read = read_many_iff[OF PeerHintEntry_read_iff]

interpretation peer_hint: canonical_frame_codec
  FT_PEER_HINT "\<lambda>_. True" PeerHintFrame_encode PeerHintFrame_decode
proof (rule canonical_frame_codecI
    [where P = "\<lambda>f. length (phf_entries f) \<le> MAX_HINTS
        \<and> (\<forall>e \<in> set (phf_entries f). PeerHintEntry_fits e)"
      and fld = "\<lambda>f. varint_bytes (of_nat (length (phf_entries f)))
        @ concat (map PeerHintEntry_fields (phf_entries f))"], goal_cases)
  case 2 show ?case
    by (auto simp: PeerHintFrame_encode_def codec_enc PeerHints_write of_nat_le_MAX_VARINT)
next
  case (3 f n body)
  then show ?case
    by (auto simp: PeerHintFrame_decode_def codec_dec not_less word_le_nat_alt
        dest!: PeerHints_read[THEN iffD1, rotated] intro: at_pos_length[of body 0, simplified])
next
  case (4 f body) then show ?case
    using at_pos_length[of body 0 "varint_bytes (of_nat (length (phf_entries f)))"]
    by (auto simp: PeerHintFrame_decode_def codec_run of_nat_le_MAX_VARINT unat_of_nat_62
        word_less_nat_alt PeerHints_read[THEN iffD2])
qed simp

interpretation service_hint: canonical_frame_codec
  FT_SERVICE_HINT "\<lambda>_. True" ServiceHintFrame_encode ServiceHintFrame_decode
proof (rule canonical_frame_codecI
    [where P = "\<lambda>f. length (sh_protocol_id f) \<le> MAX_PROTOCOL_ID
        \<and> length (sh_endpoint_hint f) \<le> MAX_ENDPOINT_HINT
        \<and> length (sh_metadata f) \<le> MAX_SERVICE_METADATA
        \<and> sh_expiration_time f \<le> MAX_VARINT \<and> length (sh_signature f) \<le> MAX_SIGNATURE"
      and fld = "\<lambda>f. bytes_field (sh_protocol_id f) @ bytes_field (sh_endpoint_hint f)
        @ bytes_field (sh_metadata f) @ varint_bytes (sh_expiration_time f)
        @ bytes_field (sh_signature f)"], goal_cases)
  case 2 show ?case by (auto simp: ServiceHintFrame_encode_def codec_enc)
next
  case 3 then show ?case by (auto simp: ServiceHintFrame_decode_def codec_dec)
next
  case 4 then show ?case by (auto simp: ServiceHintFrame_decode_def codec_run)
qed simp

interpretation revocation_batch: delimited_codec
  FT_REVOCATION_BATCH "\<lambda>_. True" RevocationBatchFrame_encode RevocationBatchFrame_decode
proof (unfold_locales, goal_cases)
  case (2 f bs)
  then show ?case
    by (auto simp: RevocationBatchFrame_encode_def RevocationBatchFrame_decode_def codec_enc
        intro!: exI[of _ "rb_payload f"])
qed simp

definition DhtRecordWire_fits :: "DhtRecordWire \<Rightarrow> bool" where
  "DhtRecordWire_fits r \<longleftrightarrow> length (dr_endpoint_id r) \<le> 32
     \<and> length (dr_identity_public_key r) \<le> 32 \<and> length (dr_carrier_type r) \<le> MAX_DHT_CARRIER
     \<and> length (dr_connection_hint r) \<le> MAX_DHT_HINT \<and> dr_expiration_time r \<le> MAX_VARINT
     \<and> dr_sequence r \<le> MAX_VARINT \<and> length (dr_signature r) \<le> MAX_SIGNATURE"

text \<open>The exact lengths, which only the decoder checks.\<close>

definition DhtRecordWire_exact :: "DhtRecordWire \<Rightarrow> bool" where
  "DhtRecordWire_exact r \<longleftrightarrow> length (dr_endpoint_id r) = 32
     \<and> length (dr_identity_public_key r) = 32 \<and> length (dr_signature r) = 64"

definition DhtRecordWire_fields :: "DhtRecordWire \<Rightarrow> bytes" where
  "DhtRecordWire_fields r = bytes_field (dr_endpoint_id r) @ bytes_field (dr_identity_public_key r)
     @ bytes_field (dr_carrier_type r) @ bytes_field (dr_connection_hint r)
     @ varint_bytes (dr_expiration_time r) @ varint_bytes (dr_sequence r)
     @ bytes_field (dr_signature r)"

lemma DhtRecordWire_write_Inr:
  "DhtRecordWire_write out r = Inr out' \<longleftrightarrow> DhtRecordWire_fits r \<and> out' = out @ DhtRecordWire_fields r"
  by (auto simp: DhtRecordWire_write_def codec_enc DhtRecordWire_fits_def DhtRecordWire_fields_def)

lemma DhtRecordWire_read_fields:
  "DhtRecordWire_read body p = Inr (r, p') \<Longrightarrow>
     (DhtRecordWire_fits r \<and> DhtRecordWire_exact r) \<and> p' = p + length (DhtRecordWire_fields r)
     \<and> at_pos body p (DhtRecordWire_fields r)"
  by (auto simp: DhtRecordWire_read_def codec_dec DhtRecordWire_fits_def DhtRecordWire_exact_def
      DhtRecordWire_fields_def)

lemma DhtRecordWire_read_run:
  "DhtRecordWire_fits r \<Longrightarrow> DhtRecordWire_exact r \<Longrightarrow> at_pos body p (DhtRecordWire_fields r) \<Longrightarrow>
   DhtRecordWire_read body p = Inr (r, p + length (DhtRecordWire_fields r))"
  by (auto simp: DhtRecordWire_read_def codec_run DhtRecordWire_fits_def DhtRecordWire_exact_def
      DhtRecordWire_fields_def)

lemma DhtRecordWire_read_iff:
  "DhtRecordWire_read body p = Inr (r, p') \<longleftrightarrow>
     (DhtRecordWire_fits r \<and> DhtRecordWire_exact r) \<and> p' = p + length (DhtRecordWire_fields r)
     \<and> at_pos body p (DhtRecordWire_fields r)"
  using DhtRecordWire_read_fields DhtRecordWire_read_run by blast

lemmas DhtRecords_write = write_many_Inr[OF DhtRecordWire_write_Inr]
lemmas DhtRecords_read = read_many_iff[OF DhtRecordWire_read_iff]

lemma DhtRecordWire_fields_length:
  assumes "DhtRecordWire_fits r"
  shows "length (DhtRecordWire_fields r) \<le> 2232"
  using assms varint_bytes_le_8[of "dr_expiration_time r"] varint_bytes_le_8[of "dr_sequence r"]
    bytes_field_length[of "dr_endpoint_id r"] bytes_field_length[of "dr_identity_public_key r"]
    bytes_field_length[of "dr_carrier_type r"] bytes_field_length[of "dr_connection_hint r"]
    bytes_field_length[of "dr_signature r"]
  by (simp add: DhtRecordWire_fits_def DhtRecordWire_fields_def)

definition DhtLookup_fits :: "DhtLookupFrame \<Rightarrow> bool" where
  "DhtLookup_fits f \<longleftrightarrow> dl_request_id f \<le> MAX_VARINT \<and> length (dl_target_endpoint_id f) = 32
     \<and> length (dl_records f) \<le> MAX_DHT_RECORDS \<and> (\<forall>r \<in> set (dl_records f). DhtRecordWire_fits r)"

definition dht_lookup_ok :: "DhtLookupFrame \<Rightarrow> bool" where
  "dht_lookup_ok f \<longleftrightarrow> (\<forall>r \<in> set (dl_records f). DhtRecordWire_exact r)"

definition DhtLookup_fields :: "DhtLookupFrame \<Rightarrow> bytes" where
  "DhtLookup_fields f = varint_bytes (dl_request_id f) @ bytes_field (dl_target_endpoint_id f)
     @ [of_bool (dl_response f)] @ varint_bytes (of_nat (length (dl_records f)))
     @ concat (map DhtRecordWire_fields (dl_records f))"

lemma DhtLookup_fields_length:
  assumes "DhtLookup_fits f"
  shows "length (DhtLookup_fields f) < 2 ^ 62"
proof -
  have "length (concat (map DhtRecordWire_fields (dl_records f))) \<le> 2232 * length (dl_records f)"
    using assms by (intro length_concat_map_le DhtRecordWire_fields_length)
      (simp add: DhtLookup_fits_def)
  then show ?thesis
    using assms varint_bytes_le_8[of "dl_request_id f"] bytes_field_length[of "dl_target_endpoint_id f"]
      varint_bytes_le_8[OF of_nat_le_MAX_VARINT, of "length (dl_records f)"]
    by (simp add: DhtLookup_fits_def DhtLookup_fields_def)
qed

lemma DhtLookupFrame_encode_iff:
  "DhtLookupFrame_encode f = Inr bs \<longleftrightarrow> DhtLookup_fits f
     \<and> bs = varint_bytes FT_DHT_LOOKUP
         @ varint_bytes (of_nat (length (DhtLookup_fields f))) @ DhtLookup_fields f"
proof -
  have "DhtLookupFrame_encode f = Inr bs \<longleftrightarrow> DhtLookup_fits f
     \<and> of_nat (length (DhtLookup_fields f)) \<le> MAX_VARINT
     \<and> bs = varint_bytes FT_DHT_LOOKUP
         @ varint_bytes (of_nat (length (DhtLookup_fields f))) @ DhtLookup_fields f"
    by (auto simp: DhtLookupFrame_encode_def codec_enc Let_def DhtLookup_fits_def
        DhtLookup_fields_def DhtRecords_write of_nat_le_MAX_VARINT simp del: length_append)
  then show ?thesis
    using of_nat_le_MAX_VARINT[OF DhtLookup_fields_length, of f] by blast
qed

lemma DhtLookupFrame_decode_run:
  assumes "DhtLookup_fits f" and "dht_lookup_ok f" and "at_pos body 0 (DhtLookup_fields f)"
  shows "DhtLookupFrame_decode body = Inr (f, length (DhtLookup_fields f))"
proof -
  let ?p = "Suc (length (varint_bytes (dl_request_id f)) + length (bytes_field (dl_target_endpoint_id f))
    + length (varint_bytes (of_nat (length (dl_records f)))))"
  have "read_many (DhtRecordWire_read body) (length (dl_records f)) ?p =
      Inr (dl_records f, ?p + length (concat (map DhtRecordWire_fields (dl_records f))))"
    using assms
    by (intro DhtRecords_read[THEN iffD2])
      (auto simp: DhtLookup_fits_def dht_lookup_ok_def DhtLookup_fields_def at_pos_length_Suc)
  then show ?thesis
    using assms
    by (auto simp: DhtLookupFrame_decode_def codec_run DhtLookup_fits_def DhtLookup_fields_def
        of_nat_le_MAX_VARINT unat_of_nat_62 word_less_nat_alt)
qed

lemma DhtLookupFrame_decode_exact:
  assumes "DhtLookupFrame_decode body = Inr (f, n)"
  shows "DhtLookup_fits f \<and> dht_lookup_ok f"
  using assms
  by (auto simp: DhtLookupFrame_decode_def codec_dec DhtLookup_fits_def dht_lookup_ok_def not_less
      word_le_nat_alt dest!: DhtRecords_read[THEN iffD1, rotated] intro: at_pos_length_Suc)

interpretation dht_lookup: delimited_codec
  FT_DHT_LOOKUP dht_lookup_ok DhtLookupFrame_encode DhtLookupFrame_decode
proof (unfold_locales, goal_cases)
  case (2 f bs)
  then show ?case
    by (auto simp: DhtLookupFrame_encode_iff intro!: exI[of _ "DhtLookup_fields f"]
        DhtLookupFrame_decode_run DhtLookup_fields_length[simplified])
qed simp

section \<open>Properties\<close>

text \<open>
  A DHT lookup that decodes has records of exact key and signature lengths, at most sixteen of
  them, and any frame with such records survives encoding and decoding of its body.
\<close>

theorem dht_lookup_exact:
  "(DhtLookupFrame_decode body = Inr (f, n) \<longrightarrow>
      dht_lookup_ok f \<and> length (dl_target_endpoint_id f) = 32
      \<and> length (dl_records f) \<le> MAX_DHT_RECORDS)
   \<and> (dht_lookup_ok g \<and> DhtLookupFrame_encode g = Inr bs \<longrightarrow>
      (\<exists>window. bs = varint_bytes FT_DHT_LOOKUP @ varint_bytes (of_nat (length window)) @ window
         \<and> DhtLookupFrame_decode window = Inr (g, length window)))"
  using DhtLookupFrame_decode_exact[of body f n] dht_lookup.enc_dec[of g bs]
  by (auto simp: DhtLookup_fits_def)

theorem dht_lookup_exact_witness:
  "let g = \<lparr>dl_request_id = 3, dl_response = True, dl_target_endpoint_id = replicate 32 1,
     dl_records = []\<rparr>;
     bs = varint_bytes FT_DHT_LOOKUP @ varint_bytes 36 @ [3, 32] @ replicate 32 1 @ [1, 0] in
   DhtLookupFrame_encode g = Inr bs \<and>
   (\<exists>window. bs = varint_bytes FT_DHT_LOOKUP @ varint_bytes (of_nat (length window)) @ window
         \<and> DhtLookupFrame_decode window = Inr (g, length window))"
proof -
  let ?g = "\<lparr>dl_request_id = 3, dl_response = True, dl_target_endpoint_id = replicate 32 1,
     dl_records = []\<rparr> :: DhtLookupFrame"
  let ?bs = "varint_bytes FT_DHT_LOOKUP @ varint_bytes 36 @ [3, 32] @ replicate 32 1 @ [1, 0]"
  have e: "DhtLookupFrame_encode ?g = Inr ?bs" by code_simp
  have "dht_lookup_ok ?g" by (simp add: dht_lookup_ok_def)
  with e dht_lookup_exact[of "[]" ?g 0 ?g ?bs] show ?thesis by (simp add: Let_def)
qed

end
