(* ===== verification/Frame_Decode.thy ===== *)
theory Frame_Decode
  imports Frames_Control Frames_Stream Frames_Path Frames_Handshake
    Frames_Routing Frames_Relay
    Frames_Bundle Frames_Misc
begin

text \<open>
  The frame sum type and the packet payload loop \<open>decode_frames\<close> of
  \<open>crates/umc-wire/src/frame.rs\<close>. One round of the loop is \<open>decode_frame_at\<close>: it reads the
  frame type at \<open>pos\<close>, dispatches on it and returns the frame, if the type is a known one, and
  the position after it.
\<close>

section \<open>Model\<close>

datatype Frame =
    Padding
  | Ping
  | Ack AckFrame
  | ConnectionClose ConnectionCloseFrame
  | Stream StreamFrame
  | ResetStream ResetStreamFrame
  | StopSending StopSendingFrame
  | MaxData MaxDataFrame
  | MaxStreamData MaxStreamDataFrame
  | MaxStreams MaxStreamsFrame
  | Datagram DatagramFrame
  | NewConnectionId NewConnectionIdFrame
  | RetireConnectionId RetireConnectionIdFrame
  | PathChallenge PathChallengeFrame
  | PathResponse PathResponseFrame
  | PathStatus PathStatusFrame
  | Migrate MigrateFrame
  | KeyUpdate KeyUpdateFrame
  | Auth AuthFrame
  | HandshakeData HandshakeDataFrame
  | Capabilities CapabilitiesFrame
  | SessionTicket SessionTicketFrame
  | RouteRequest RouteRequestFrame
  | RouteResponse RouteResponseFrame
  | RouteError RouteErrorFrame
  | RelayOpen RelayOpenFrame
  | RelayStatus RelayStatusFrame
  | RelayData RelayDataFrame
  | RelayClose RelayCloseFrame
  | Bundle BundleFrame
  | BundleAck BundleAckFrame
  | PeerHint PeerHintFrame
  | ServiceHint ServiceHintFrame
  | DhtLookup DhtLookupFrame
  | RevocationBatch RevocationBatchFrame

text \<open>\<open>let (f, used) = X::decode(rest)?; pos += used; out.push(Frame::X(f))\<close>.\<close>

definition frame_of :: "('f \<Rightarrow> Frame) \<Rightarrow> (FrameError + 'f \<times> nat) \<Rightarrow> FrameError + Frame \<times> nat" where
  "frame_of C r = bindR r (\<lambda>(f, used). Inr (C f, used))"

text \<open>The \<open>match ty\<close> of the fixed-layout branch.\<close>

definition decode_fixed :: "FrameType \<Rightarrow> bytes \<Rightarrow> FrameError + Frame \<times> nat" where
  "decode_fixed ty rest =
     (if ty = FT_PADDING then Inr (Padding, 0)
      else if ty = FT_PING then Inr (Ping, 0)
      else if ty = FT_ACK then frame_of Ack (AckFrame_decode rest)
      else if ty = FT_CONNECTION_CLOSE then frame_of ConnectionClose (ConnectionCloseFrame_decode rest)
      else if ty = FT_STREAM then frame_of Stream (StreamFrame_decode rest)
      else if ty = FT_RESET_STREAM then frame_of ResetStream (ResetStreamFrame_decode rest)
      else if ty = FT_STOP_SENDING then frame_of StopSending (StopSendingFrame_decode rest)
      else if ty = FT_MAX_DATA then frame_of MaxData (MaxDataFrame_decode rest)
      else if ty = FT_MAX_STREAM_DATA then frame_of MaxStreamData (MaxStreamDataFrame_decode rest)
      else if ty = FT_MAX_STREAMS then frame_of MaxStreams (MaxStreamsFrame_decode rest)
      else if ty = FT_DATAGRAM then frame_of Datagram (DatagramFrame_decode rest)
      else if ty = FT_NEW_CONNECTION_ID then frame_of NewConnectionId (NewConnectionIdFrame_decode rest)
      else if ty = FT_RETIRE_CONNECTION_ID then frame_of RetireConnectionId (RetireConnectionIdFrame_decode rest)
      else if ty = FT_PATH_CHALLENGE then frame_of PathChallenge (PathChallengeFrame_decode rest)
      else if ty = FT_PATH_RESPONSE then frame_of PathResponse (PathResponseFrame_decode rest)
      else if ty = FT_PATH_STATUS then frame_of PathStatus (PathStatusFrame_decode rest)
      else if ty = FT_MIGRATE then frame_of Migrate (MigrateFrame_decode rest)
      else if ty = FT_KEY_UPDATE then frame_of KeyUpdate (KeyUpdateFrame_decode rest)
      else if ty = FT_AUTH then frame_of Auth (AuthFrame_decode rest)
      else if ty = FT_HANDSHAKE_DATA then frame_of HandshakeData (HandshakeDataFrame_decode rest)
      else if ty = FT_CAPABILITIES then frame_of Capabilities (CapabilitiesFrame_decode rest)
      else if ty = FT_SESSION_TICKET then frame_of SessionTicket (SessionTicketFrame_decode rest)
      else if ty = FT_ROUTE_REQUEST then frame_of RouteRequest (RouteRequestFrame_decode rest)
      else if ty = FT_ROUTE_RESPONSE then frame_of RouteResponse (RouteResponseFrame_decode rest)
      else if ty = FT_ROUTE_ERROR then frame_of RouteError (RouteErrorFrame_decode rest)
      else if ty = FT_RELAY_OPEN then frame_of RelayOpen (RelayOpenFrame_decode rest)
      else if ty = FT_RELAY_STATUS then frame_of RelayStatus (RelayStatusFrame_decode rest)
      else if ty = FT_RELAY_DATA then frame_of RelayData (RelayDataFrame_decode rest)
      else if ty = FT_RELAY_CLOSE then frame_of RelayClose (RelayCloseFrame_decode rest)
      else if ty = FT_BUNDLE then frame_of Bundle (BundleFrame_decode rest)
      else if ty = FT_BUNDLE_ACK then frame_of BundleAck (BundleAckFrame_decode rest)
      else if ty = FT_PEER_HINT then frame_of PeerHint (PeerHintFrame_decode rest)
      else if ty = FT_SERVICE_HINT then frame_of ServiceHint (ServiceHintFrame_decode rest)
      else if behavior ty = OptionalFixed then Inl (UnknownOptionalFixedFrame ty)
      else Inl (UnknownCriticalFrame ty))"

text \<open>
  The branch for optional length-delimited frames: a known frame has to use its whole window, an
  unknown one is skipped.
\<close>

definition decode_optional_delimited ::
    "FrameType \<Rightarrow> bytes \<Rightarrow> nat \<Rightarrow> FrameError + Frame option \<times> nat" where
  "decode_optional_delimited ty payload pos =
     bindR (read_varint payload pos) (\<lambda>(len, pos).
     let len = unat len in
     bindR (ok_or (usize_checked_add pos len) FrameError.LengthExceedsLimit) (\<lambda>pos.
     if pos > length payload then Inl FrameError.Truncated
     else
       let start = pos - len; window = take (pos - start) (drop start payload) in
       if ty = FT_DHT_LOOKUP then
         bindR (DhtLookupFrame_decode window) (\<lambda>(frame, used).
         if used \<noteq> len then Inl FrameError.Truncated else Inr (Some (DhtLookup frame), pos))
       else if ty = FT_REVOCATION_BATCH then
         bindR (RevocationBatchFrame_decode window) (\<lambda>(frame, used).
         if used \<noteq> len then Inl FrameError.Truncated else Inr (Some (RevocationBatch frame), pos))
       else Inr (None, pos)))"

definition decode_frame_at :: "bytes \<Rightarrow> nat \<Rightarrow> FrameError + Frame option \<times> nat" where
  "decode_frame_at payload pos =
     bindR (read_varint payload pos) (\<lambda>(ty, pos).
     case behavior ty of
       CriticalFixed \<Rightarrow>
         bindR (decode_fixed ty (drop pos payload)) (\<lambda>(f, used). Inr (Some f, pos + used))
     | OptionalFixed \<Rightarrow>
         bindR (decode_fixed ty (drop pos payload)) (\<lambda>(f, used). Inr (Some f, pos + used))
     | CriticalLengthDelimited \<Rightarrow>
         if ty = FT_RELAY_STATUS then
           bindR (RelayStatusFrame_decode_length_delimited (drop pos payload)) (\<lambda>(f, used).
           Inr (Some (RelayStatus f), pos + used))
         else Inl (UnknownCriticalFrame ty)
     | OptionalLengthDelimited \<Rightarrow> decode_optional_delimited ty payload pos)"

lemma decode_optional_delimited_ge:
  "decode_optional_delimited ty payload p = Inr (f, q) \<Longrightarrow> p < q"
  using varint_bytes_nonempty
  by (auto simp: decode_optional_delimited_def codec_dec Let_def usize_checked_add_def
      split: if_splits)

lemma decode_frame_at_progress: "decode_frame_at payload p = Inr (f, q) \<Longrightarrow> p < q"
  using varint_bytes_nonempty
  by (auto simp: decode_frame_at_def codec_dec split: ExtensionBehavior.splits if_splits
      dest!: decode_optional_delimited_ge) (metis ExtensionBehavior.exhaust)+

function decode_frames_loop :: "bytes \<Rightarrow> nat \<Rightarrow> Frame list \<Rightarrow> FrameError + Frame list" where
  "decode_frames_loop payload pos out =
     (if pos < length payload then
        bindR (decode_frame_at payload pos) (\<lambda>(f, pos).
        decode_frames_loop payload pos (case f of None \<Rightarrow> out | Some f \<Rightarrow> out @ [f]))
      else Inr out)"
  by pat_completeness auto
termination
  by (relation "measure (\<lambda>(payload, pos, _). length payload - pos)")
    (auto dest!: decode_frame_at_progress)

declare decode_frames_loop.simps [simp del]

definition decode_frames :: "bytes \<Rightarrow> FrameError + Frame list" where
  "decode_frames payload = decode_frames_loop payload 0 []"

section \<open>Encoding a frame\<close>

text \<open>
  The encoders by constructor. \<open>Padding\<close> and \<open>Ping\<close> are their type alone.
\<close>

fun frame_encode :: "Frame \<Rightarrow> FrameError + bytes" where
  "frame_encode Padding = write_varint [] FT_PADDING"
| "frame_encode Ping = write_varint [] FT_PING"
| "frame_encode (Ack f) = AckFrame_encode f"
| "frame_encode (ConnectionClose f) = ConnectionCloseFrame_encode f"
| "frame_encode (Stream f) = StreamFrame_encode f"
| "frame_encode (ResetStream f) = ResetStreamFrame_encode f"
| "frame_encode (StopSending f) = StopSendingFrame_encode f"
| "frame_encode (MaxData f) = MaxDataFrame_encode f"
| "frame_encode (MaxStreamData f) = MaxStreamDataFrame_encode f"
| "frame_encode (MaxStreams f) = MaxStreamsFrame_encode f"
| "frame_encode (Datagram f) = DatagramFrame_encode f"
| "frame_encode (NewConnectionId f) = NewConnectionIdFrame_encode f"
| "frame_encode (RetireConnectionId f) = RetireConnectionIdFrame_encode f"
| "frame_encode (PathChallenge f) = PathChallengeFrame_encode f"
| "frame_encode (PathResponse f) = PathResponseFrame_encode f"
| "frame_encode (PathStatus f) = PathStatusFrame_encode f"
| "frame_encode (Migrate f) = MigrateFrame_encode f"
| "frame_encode (KeyUpdate f) = KeyUpdateFrame_encode f"
| "frame_encode (Auth f) = AuthFrame_encode f"
| "frame_encode (HandshakeData f) = HandshakeDataFrame_encode f"
| "frame_encode (Capabilities f) = CapabilitiesFrame_encode f"
| "frame_encode (SessionTicket f) = SessionTicketFrame_encode f"
| "frame_encode (RouteRequest f) = RouteRequestFrame_encode f"
| "frame_encode (RouteResponse f) = RouteResponseFrame_encode f"
| "frame_encode (RouteError f) = RouteErrorFrame_encode f"
| "frame_encode (RelayOpen f) = RelayOpenFrame_encode f"
| "frame_encode (RelayStatus f) = RelayStatusFrame_encode f"
| "frame_encode (RelayData f) = RelayDataFrame_encode f"
| "frame_encode (RelayClose f) = RelayCloseFrame_encode f"
| "frame_encode (Bundle f) = BundleFrame_encode f"
| "frame_encode (BundleAck f) = BundleAckFrame_encode f"
| "frame_encode (PeerHint f) = PeerHintFrame_encode f"
| "frame_encode (ServiceHint f) = ServiceHintFrame_encode f"
| "frame_encode (DhtLookup f) = DhtLookupFrame_encode f"
| "frame_encode (RevocationBatch f) = RevocationBatchFrame_encode f"

text \<open>
  What a frame value has to satisfy beyond what its encoder checks: arrays have their length, a
  stream frame carries its data length, acknowledged ranges are not empty, and the DHT records
  have key and signature lengths.
\<close>

fun frame_ok :: "Frame \<Rightarrow> bool" where
  "frame_ok (Ack f) = ack_ok f"
| "frame_ok (Stream f) = stream_ok f"
| "frame_ok (NewConnectionId f) \<longleftrightarrow> length (nc_reset_token f) = RESET_TOKEN_LEN"
| "frame_ok (PathChallenge f) \<longleftrightarrow> length (pc_data f) = CHALLENGE_LEN"
| "frame_ok (PathResponse f) \<longleftrightarrow> length (pr_data f) = CHALLENGE_LEN"
| "frame_ok (DhtLookup f) = dht_lookup_ok f"
| "frame_ok _ = True"

section \<open>One frame\<close>

lemma behavior_simps [simp]:
  "behavior FT_ACK = CriticalFixed"
  "behavior FT_CONNECTION_CLOSE = CriticalFixed"
  "behavior FT_STREAM = CriticalFixed"
  "behavior FT_RESET_STREAM = CriticalFixed"
  "behavior FT_STOP_SENDING = CriticalFixed"
  "behavior FT_MAX_DATA = CriticalFixed"
  "behavior FT_MAX_STREAM_DATA = CriticalFixed"
  "behavior FT_MAX_STREAMS = CriticalFixed"
  "behavior FT_DATAGRAM = CriticalFixed"
  "behavior FT_NEW_CONNECTION_ID = CriticalFixed"
  "behavior FT_RETIRE_CONNECTION_ID = CriticalFixed"
  "behavior FT_PATH_CHALLENGE = CriticalFixed"
  "behavior FT_PATH_RESPONSE = CriticalFixed"
  "behavior FT_PATH_STATUS = CriticalFixed"
  "behavior FT_MIGRATE = CriticalFixed"
  "behavior FT_KEY_UPDATE = CriticalFixed"
  "behavior FT_AUTH = CriticalFixed"
  "behavior FT_HANDSHAKE_DATA = CriticalFixed"
  "behavior FT_CAPABILITIES = CriticalFixed"
  "behavior FT_SESSION_TICKET = CriticalFixed"
  "behavior FT_ROUTE_REQUEST = CriticalFixed"
  "behavior FT_ROUTE_RESPONSE = CriticalFixed"
  "behavior FT_ROUTE_ERROR = CriticalFixed"
  "behavior FT_RELAY_OPEN = CriticalFixed"
  "behavior FT_RELAY_STATUS = CriticalLengthDelimited"
  "behavior FT_RELAY_DATA = CriticalFixed"
  "behavior FT_RELAY_CLOSE = CriticalFixed"
  "behavior FT_BUNDLE = CriticalFixed"
  "behavior FT_BUNDLE_ACK = CriticalFixed"
  "behavior FT_PEER_HINT = CriticalFixed"
  "behavior FT_SERVICE_HINT = CriticalFixed"
  "behavior FT_DHT_LOOKUP = OptionalLengthDelimited"
  "behavior FT_REVOCATION_BATCH = OptionalLengthDelimited"
  "behavior FT_PADDING = CriticalFixed"
  "behavior FT_PING = CriticalFixed"
  by (simp_all add: behavior_def FT_defs)

lemma decode_fixed_dispatch:
  "decode_fixed FT_PADDING rest = Inr (Padding, 0)"
  "decode_fixed FT_PING rest = Inr (Ping, 0)"
  "decode_fixed FT_ACK rest = frame_of Ack (AckFrame_decode rest)"
  "decode_fixed FT_CONNECTION_CLOSE rest = frame_of ConnectionClose (ConnectionCloseFrame_decode rest)"
  "decode_fixed FT_STREAM rest = frame_of Stream (StreamFrame_decode rest)"
  "decode_fixed FT_RESET_STREAM rest = frame_of ResetStream (ResetStreamFrame_decode rest)"
  "decode_fixed FT_STOP_SENDING rest = frame_of StopSending (StopSendingFrame_decode rest)"
  "decode_fixed FT_MAX_DATA rest = frame_of MaxData (MaxDataFrame_decode rest)"
  "decode_fixed FT_MAX_STREAM_DATA rest = frame_of MaxStreamData (MaxStreamDataFrame_decode rest)"
  "decode_fixed FT_MAX_STREAMS rest = frame_of MaxStreams (MaxStreamsFrame_decode rest)"
  "decode_fixed FT_DATAGRAM rest = frame_of Datagram (DatagramFrame_decode rest)"
  "decode_fixed FT_NEW_CONNECTION_ID rest = frame_of NewConnectionId (NewConnectionIdFrame_decode rest)"
  "decode_fixed FT_RETIRE_CONNECTION_ID rest = frame_of RetireConnectionId (RetireConnectionIdFrame_decode rest)"
  "decode_fixed FT_PATH_CHALLENGE rest = frame_of PathChallenge (PathChallengeFrame_decode rest)"
  "decode_fixed FT_PATH_RESPONSE rest = frame_of PathResponse (PathResponseFrame_decode rest)"
  "decode_fixed FT_PATH_STATUS rest = frame_of PathStatus (PathStatusFrame_decode rest)"
  "decode_fixed FT_MIGRATE rest = frame_of Migrate (MigrateFrame_decode rest)"
  "decode_fixed FT_KEY_UPDATE rest = frame_of KeyUpdate (KeyUpdateFrame_decode rest)"
  "decode_fixed FT_AUTH rest = frame_of Auth (AuthFrame_decode rest)"
  "decode_fixed FT_HANDSHAKE_DATA rest = frame_of HandshakeData (HandshakeDataFrame_decode rest)"
  "decode_fixed FT_CAPABILITIES rest = frame_of Capabilities (CapabilitiesFrame_decode rest)"
  "decode_fixed FT_SESSION_TICKET rest = frame_of SessionTicket (SessionTicketFrame_decode rest)"
  "decode_fixed FT_ROUTE_REQUEST rest = frame_of RouteRequest (RouteRequestFrame_decode rest)"
  "decode_fixed FT_ROUTE_RESPONSE rest = frame_of RouteResponse (RouteResponseFrame_decode rest)"
  "decode_fixed FT_ROUTE_ERROR rest = frame_of RouteError (RouteErrorFrame_decode rest)"
  "decode_fixed FT_RELAY_OPEN rest = frame_of RelayOpen (RelayOpenFrame_decode rest)"
  "decode_fixed FT_RELAY_DATA rest = frame_of RelayData (RelayDataFrame_decode rest)"
  "decode_fixed FT_RELAY_CLOSE rest = frame_of RelayClose (RelayCloseFrame_decode rest)"
  "decode_fixed FT_BUNDLE rest = frame_of Bundle (BundleFrame_decode rest)"
  "decode_fixed FT_BUNDLE_ACK rest = frame_of BundleAck (BundleAckFrame_decode rest)"
  "decode_fixed FT_PEER_HINT rest = frame_of PeerHint (PeerHintFrame_decode rest)"
  "decode_fixed FT_SERVICE_HINT rest = frame_of ServiceHint (ServiceHintFrame_decode rest)"
  by (simp_all add: decode_fixed_def FT_defs)

lemma read_varint_after:
  "v \<le> MAX_VARINT \<Longrightarrow>
   read_varint (pre @ varint_bytes v @ rest) (length pre) = Inr (v, length pre + length (varint_bytes v))"
  by (simp add: codec_run)

lemma frame_at_fixed:
  assumes "frame_codec ty ok enc dec" and "ok f" and "enc f = Inr bs"
    and "behavior ty = CriticalFixed"
    and "\<And>rest. decode_fixed ty rest = frame_of C (dec rest)"
  shows "decode_frame_at (pre @ bs @ rest) (length pre) = Inr (Some (C f), length pre + length bs)"
proof -
  obtain body where "bs = varint_bytes ty @ body" and "dec (body @ rest) = Inr (f, length body)"
    using frame_codec.enc_dec[OF assms(1-3)] by auto
  then show ?thesis
    using frame_codec.ty_in_range[OF assms(1)] assms(4,5)
    by (simp add: decode_frame_at_def read_varint_after frame_of_def)
qed

lemma frame_at_delimited:
  assumes "delimited_codec ty ok enc dec" and "ok f" and "enc f = Inr bs"
    and "behavior ty = OptionalLengthDelimited"
    and "\<And>window len (pos :: nat). (if ty = FT_DHT_LOOKUP then
         bindR (DhtLookupFrame_decode window) (\<lambda>(frame, used).
         if used \<noteq> len then Inl FrameError.Truncated else Inr (Some (DhtLookup frame), pos))
       else if ty = FT_REVOCATION_BATCH then
         bindR (RevocationBatchFrame_decode window) (\<lambda>(frame, used).
         if used \<noteq> len then Inl FrameError.Truncated else Inr (Some (RevocationBatch frame), pos))
       else Inr (None, pos)) = bindR (dec window) (\<lambda>(frame, used).
         if used \<noteq> len then Inl FrameError.Truncated else Inr (Some (C frame), pos))"
    and "length (pre @ bs @ rest) < 2 ^ 64"
  shows "decode_frame_at (pre @ bs @ rest) (length pre) = Inr (Some (C f), length pre + length bs)"
proof -
  obtain body where len: "length body < 2 ^ 62"
      and bs: "bs = varint_bytes ty @ varint_bytes (of_nat (length body)) @ body"
      and dec: "dec body = Inr (f, length body)"
    using delimited_codec.enc_dec[OF assms(1-3)] by auto
  have "read_varint (pre @ varint_bytes ty @ varint_bytes (of_nat (length body)) @ body @ rest)
      (length pre + length (varint_bytes ty))
    = Inr (of_nat (length body), length pre + length (varint_bytes ty)
        + length (varint_bytes (of_nat (length body))))"
    using read_varint_after[of "of_nat (length body)" "pre @ varint_bytes ty" "body @ rest"] len
    by (simp add: of_nat_le_MAX_VARINT)
  then show ?thesis
    using delimited_codec.ty_in_range[OF assms(1)] assms(4,6) len dec
    by (simp add: decode_frame_at_def read_varint_after bs decode_optional_delimited_def Let_def
        assms(5) usize_checked_add_def unat_of_nat_62)
qed

lemma frame_at_relay_status:
  assumes "RelayStatusFrame_encode f = Inr bs"
  shows "decode_frame_at (pre @ bs @ rest) (length pre)
    = Inr (Some (RelayStatus f), length pre + length bs)"
proof -
  obtain body where "bs = varint_bytes FT_RELAY_STATUS @ body"
      and "RelayStatusFrame_decode_length_delimited (body @ rest) = Inr (f, length body)"
    using relay_status.enc_dec[OF TrueI assms] by auto
  then show ?thesis by (simp add: decode_frame_at_def read_varint_after)
qed

lemma frame_at_type_only:
  "decode_frame_at (pre @ varint_bytes FT_PADDING @ rest) (length pre)
     = Inr (Some Padding, length pre + length (varint_bytes FT_PADDING))"
  "decode_frame_at (pre @ varint_bytes FT_PING @ rest) (length pre)
     = Inr (Some Ping, length pre + length (varint_bytes FT_PING))"
  by (simp_all add: decode_frame_at_def read_varint_after decode_fixed_dispatch)

lemma batch_not_lookup: "FT_REVOCATION_BATCH \<noteq> FT_DHT_LOOKUP"
  by (simp add: FT_defs)

lemma decode_frame_at_encode:
  assumes "frame_ok f" and "frame_encode f = Inr bs" and "length (pre @ bs @ rest) < 2 ^ 64"
  shows "decode_frame_at (pre @ bs @ rest) (length pre) = Inr (Some f, length pre + length bs)"
proof (cases f)
  case Padding then show ?thesis using assms frame_at_type_only(1) by (auto simp: codec_enc)
next
  case Ping then show ?thesis using assms frame_at_type_only(2) by (auto simp: codec_enc)
next
  case (RelayStatus x) then show ?thesis using assms frame_at_relay_status by simp
next
  case (DhtLookup x) then show ?thesis
    using assms by (auto intro!: frame_at_delimited[OF dht_lookup.delimited_codec_axioms])
next
  case (RevocationBatch x) then show ?thesis
    using assms batch_not_lookup
    by (auto intro!: frame_at_delimited[OF revocation_batch.delimited_codec_axioms])
qed (use assms in \<open>auto simp: decode_fixed_dispatch
    frame_at_fixed[OF ack.frame_codec_axioms]
    frame_at_fixed[OF connection_close.frame_codec_axioms]
    frame_at_fixed[OF stream.frame_codec_axioms]
    frame_at_fixed[OF reset_stream.frame_codec_axioms]
    frame_at_fixed[OF stop_sending.frame_codec_axioms]
    frame_at_fixed[OF max_data.frame_codec_axioms]
    frame_at_fixed[OF max_stream_data.frame_codec_axioms]
    frame_at_fixed[OF max_streams.frame_codec_axioms]
    frame_at_fixed[OF datagram.frame_codec_axioms]
    frame_at_fixed[OF new_connection_id.frame_codec_axioms]
    frame_at_fixed[OF retire_connection_id.frame_codec_axioms]
    frame_at_fixed[OF path_challenge.frame_codec_axioms]
    frame_at_fixed[OF path_response.frame_codec_axioms]
    frame_at_fixed[OF path_status.frame_codec_axioms]
    frame_at_fixed[OF migrate.frame_codec_axioms]
    frame_at_fixed[OF key_update.frame_codec_axioms]
    frame_at_fixed[OF auth.frame_codec_axioms]
    frame_at_fixed[OF handshake_data.frame_codec_axioms]
    frame_at_fixed[OF capabilities.frame_codec_axioms]
    frame_at_fixed[OF session_ticket.frame_codec_axioms]
    frame_at_fixed[OF route_request.frame_codec_axioms]
    frame_at_fixed[OF route_response.frame_codec_axioms]
    frame_at_fixed[OF route_error.frame_codec_axioms]
    frame_at_fixed[OF relay_open.frame_codec_axioms]
    frame_at_fixed[OF relay_data.frame_codec_axioms]
    frame_at_fixed[OF relay_close.frame_codec_axioms]
    frame_at_fixed[OF bundle_frame.frame_codec_axioms]
    frame_at_fixed[OF bundle_ack.frame_codec_axioms]
    frame_at_fixed[OF peer_hint.frame_codec_axioms]
    frame_at_fixed[OF service_hint.frame_codec_axioms]
\<close>)

section \<open>Bounds\<close>

lemma frame_of_Inr: "frame_of C r = Inr (f, n) \<longleftrightarrow> (\<exists>x. r = Inr (x, n) \<and> f = C x)"
  by (auto simp: frame_of_def bindR_Inr_iff)

lemma RelayStatus_bound: "RelayStatusFrame_decode body = Inr (f, n) \<Longrightarrow> n \<le> length body"
  using RelayStatusFrame_decode_fields[of body f n] by (simp add: at_pos_0_iff)

lemmas dec_bounds =
  ack.dec_bound
  connection_close.dec_bound
  stream.dec_bound
  reset_stream.dec_bound
  stop_sending.dec_bound
  max_data.dec_bound
  max_stream_data.dec_bound
  max_streams.dec_bound
  datagram.dec_bound
  new_connection_id.dec_bound
  retire_connection_id.dec_bound
  path_challenge.dec_bound
  path_response.dec_bound
  path_status.dec_bound
  migrate.dec_bound
  key_update.dec_bound
  auth.dec_bound
  handshake_data.dec_bound
  capabilities.dec_bound
  session_ticket.dec_bound
  route_request.dec_bound
  route_response.dec_bound
  route_error.dec_bound
  relay_open.dec_bound
  relay_data.dec_bound
  relay_close.dec_bound
  bundle_frame.dec_bound
  bundle_ack.dec_bound
  peer_hint.dec_bound
  service_hint.dec_bound
  RelayStatus_bound

lemma decode_fixed_bound: "decode_fixed ty rest = Inr (f, n) \<Longrightarrow> n \<le> length rest"
  by (auto simp: decode_fixed_def frame_of_Inr split: if_splits dest: dec_bounds)

lemma decode_optional_delimited_bound:
  "decode_optional_delimited ty payload p = Inr (f, q) \<Longrightarrow> q \<le> length payload"
  by (auto simp: decode_optional_delimited_def bindR_Inr_iff Let_def split: if_splits)

lemma decode_frame_at_bound:
  assumes "decode_frame_at payload p = Inr (f, q)"
  shows "q \<le> length payload"
proof -
  obtain ty p' where ty: "read_varint payload p = Inr (ty, p')"
    using assms by (auto simp: decode_frame_at_def bindR_Inr_iff)
  then have le: "p' \<le> length payload" by (auto simp: codec_dec dest: at_pos_length)
  show ?thesis
  proof (cases "behavior ty")
    case OptionalLengthDelimited
    then show ?thesis using assms ty
      by (auto simp: decode_frame_at_def dest: decode_optional_delimited_bound)
  qed (use assms ty le in \<open>auto simp: decode_frame_at_def bindR_Inr_iff split: if_splits
      dest!: decode_fixed_bound relay_status.dec_bound\<close>)
qed

section \<open>The loop\<close>

lemma decode_frames_loop_step:
  "pos < length payload \<Longrightarrow> decode_frames_loop payload pos out =
     bindR (decode_frame_at payload pos) (\<lambda>(f, pos).
     decode_frames_loop payload pos (case f of None \<Rightarrow> out | Some f \<Rightarrow> out @ [f]))"
  by (simp add: decode_frames_loop.simps[of payload pos])

lemma decode_frames_loop_done: "length payload \<le> pos \<Longrightarrow> decode_frames_loop payload pos out = Inr out"
  by (simp add: decode_frames_loop.simps)

text \<open>The frames found so far are only carried along.\<close>

lemma decode_frames_loop_acc:
  "decode_frames_loop payload pos out =
     bindR (decode_frames_loop payload pos []) (\<lambda>fs. Inr (out @ fs))"
proof (induction "length payload - pos" arbitrary: pos out rule: less_induct)
  case less
  show ?case
  proof (cases "pos < length payload")
    case True
    show ?thesis
    proof (cases "decode_frame_at payload pos")
      case (Inr r)
      then obtain f q where r: "decode_frame_at payload pos = Inr (f, q)" by (cases r) auto
      have "length payload - q < length payload - pos"
        using True decode_frame_at_progress[OF r] by simp
      from less[OF this, of "case f of None \<Rightarrow> out | Some f \<Rightarrow> out @ [f]"]
        less[OF this, of "case f of None \<Rightarrow> [] | Some f \<Rightarrow> [f]"]
      show ?thesis
        by (cases "decode_frames_loop payload q []")
          (auto simp: decode_frames_loop_step[OF True] r split: option.splits)
    qed (simp add: decode_frames_loop_step[OF True])
  qed (simp add: decode_frames_loop_done)
qed

fun encode_frames :: "Frame list \<Rightarrow> FrameError + bytes" where
  "encode_frames [] = Inr []"
| "encode_frames (f # fs) =
     bindR (frame_encode f) (\<lambda>bs. bindR (encode_frames fs) (\<lambda>rest. Inr (bs @ rest)))"

lemma frame_encode_nonempty:
  assumes "frame_ok f" and "frame_encode f = Inr bs" and "length bs < 2 ^ 64"
  shows "bs \<noteq> []"
  using decode_frame_at_progress[OF decode_frame_at_encode[OF assms(1,2), of "[]" "[]"]] assms(3)
  by auto

lemma decode_frames_loop_count:
  "decode_frames_loop payload pos [] = Inr fs \<Longrightarrow> length fs \<le> length payload - pos"
proof (induction "length payload - pos" arbitrary: pos fs rule: less_induct)
  case less
  show ?case
  proof (cases "pos < length payload")
    case True
    then obtain f q where r: "decode_frame_at payload pos = Inr (f, q)"
      and rec: "decode_frames_loop payload q (case f of None \<Rightarrow> [] | Some f \<Rightarrow> [] @ [f]) = Inr fs"
      using less.prems by (auto simp: decode_frames_loop_step bindR_Inr_iff)
    obtain gs where gs: "decode_frames_loop payload q [] = Inr gs" and "length fs \<le> Suc (length gs)"
      using rec decode_frames_loop_acc[of payload q "case f of None \<Rightarrow> [] | Some f \<Rightarrow> [] @ [f]"]
      by (auto simp: bindR_Inr_iff split: option.splits)
    moreover have "length gs \<le> length payload - q"
      using True decode_frame_at_progress[OF r] by (intro less.hyps gs) simp
    ultimately show ?thesis
      using decode_frame_at_progress[OF r] decode_frame_at_bound[OF r] by simp
  qed (use less.prems in \<open>simp add: decode_frames_loop_done\<close>)
qed

section \<open>Re-encoding a decoded frame\<close>

text \<open>
  The frames whose wire form the decoded value determines. Four kinds have more than one accepted
  form: a response flagged both direct and relayed, a whole bundle written as a single chunk, a
  relay status with bytes after its last field, and a DHT lookup whose response byte is not 0 or 1.
\<close>

fun byte_exact :: "Frame \<Rightarrow> bool" where
  "byte_exact (RouteResponse f) \<longleftrightarrow> \<not> (rs_direct f \<and> rs_relay_required f)"
| "byte_exact (Bundle f) \<longleftrightarrow> \<not> bundle_whole f"
| "byte_exact (RelayStatus _) \<longleftrightarrow> False"
| "byte_exact (DhtLookup _) \<longleftrightarrow> False"
| "byte_exact _ \<longleftrightarrow> True"

lemmas reencodes =
  ack.dec_enc[THEN conjunct2]
  connection_close.dec_enc[THEN conjunct2]
  reset_stream.dec_enc[THEN conjunct2]
  stop_sending.dec_enc[THEN conjunct2]
  max_data.dec_enc[THEN conjunct2]
  max_stream_data.dec_enc[THEN conjunct2]
  max_streams.dec_enc[THEN conjunct2]
  datagram.dec_enc[THEN conjunct2]
  new_connection_id.dec_enc[THEN conjunct2]
  retire_connection_id.dec_enc[THEN conjunct2]
  path_challenge.dec_enc[THEN conjunct2]
  path_response.dec_enc[THEN conjunct2]
  path_status.dec_enc[THEN conjunct2]
  migrate.dec_enc[THEN conjunct2]
  key_update.dec_enc[THEN conjunct2]
  auth.dec_enc[THEN conjunct2]
  handshake_data.dec_enc[THEN conjunct2]
  capabilities.dec_enc[THEN conjunct2]
  session_ticket.dec_enc[THEN conjunct2]
  route_request.dec_enc[THEN conjunct2]
  route_error.dec_enc[THEN conjunct2]
  relay_open.dec_enc[THEN conjunct2]
  relay_data.dec_enc[THEN conjunct2]
  relay_close.dec_enc[THEN conjunct2]
  bundle_ack.dec_enc[THEN conjunct2]
  peer_hint.dec_enc[THEN conjunct2]
  service_hint.dec_enc[THEN conjunct2]
  stream_reencode

lemma bundle_reencode:
  "BundleFrame_decode body = Inr (f, n) \<Longrightarrow> \<not> bundle_whole f \<Longrightarrow>
   BundleFrame_encode f = Inr (varint_bytes FT_BUNDLE @ take n body)"
  using BundleFrame_decode_fields[of body f n] by (auto simp: BundleFrame_encode_iff at_pos_0_iff)

lemma decode_fixed_reencode:
  "decode_fixed ty rest = Inr (f, n) \<Longrightarrow> byte_exact f \<Longrightarrow>
   frame_encode f = Inr (varint_bytes ty @ take n rest)"
  by (auto simp: decode_fixed_def frame_of_Inr codec_enc split: if_splits
      dest: reencodes bundle_reencode route_response_reencode)

lemma at_pos_drop_take:
  "at_pos body p xs \<Longrightarrow> q = p + length xs \<Longrightarrow> q + n \<le> length body \<Longrightarrow>
   take (q + n - p) (drop p body) = xs @ take n (drop q body)"
  by (auto simp: at_pos_def add.commute[of p] simp flip: drop_drop)

lemma decode_optional_delimited_reencode:
  assumes "decode_optional_delimited ty payload p = Inr (Some f, q)" and "byte_exact f"
  shows "ty = FT_REVOCATION_BATCH \<and> frame_encode f = Inr (varint_bytes ty @ take (q - p) (drop p payload))"
proof -
  obtain len p' where l: "read_varint payload p = Inr (len, p')"
    using assms(1) by (auto simp: decode_optional_delimited_def bindR_Inr_iff)
  with assms have ty: "ty = FT_REVOCATION_BATCH" and q: "q = p' + unat len" "q \<le> length payload"
      and f: "f = RevocationBatch \<lparr>rb_payload = take (unat len) (drop p' payload)\<rparr>"
      and le: "unat len \<le> MAX_REVOCATION_BATCH"
    by (auto simp: decode_optional_delimited_def bindR_Inr_iff Let_def usize_checked_add_def
        RevocationBatchFrame_decode_def split: if_splits)
  have "take (q - p) (drop p payload) = varint_bytes len @ take (unat len) (drop p' payload)"
    using l q at_pos_drop_take[of payload p "varint_bytes len" p' "unat len"] by (auto simp: codec_dec)
  moreover have "len \<le> MAX_VARINT" using l by (simp add: codec_dec)
  ultimately show ?thesis
    using q le unfolding f by (simp add: ty RevocationBatchFrame_encode_def codec_enc)
qed

lemma decode_frame_at_reencode:
  assumes "decode_frame_at payload p = Inr (Some f, q)" and "byte_exact f"
  shows "frame_encode f = Inr (take (q - p) (drop p payload))"
proof -
  obtain ty p' where ty: "read_varint payload p = Inr (ty, p')"
    using assms by (auto simp: decode_frame_at_def bindR_Inr_iff)
  have split: "take (p' + n - p) (drop p payload) = varint_bytes ty @ take n (drop p' payload)"
    if "p' + n \<le> length payload" for n
    using ty that at_pos_drop_take[of payload p "varint_bytes ty" p' n] by (auto simp: codec_dec)
  have fixed: ?thesis if "decode_fixed ty (drop p' payload) = Inr (f, n)" and "q = p' + n" for n
    using decode_fixed_reencode[OF that(1) assms(2)] decode_frame_at_bound[OF assms(1)] split that(2)
    by simp
  show ?thesis
  proof (cases "behavior ty")
    case OptionalLengthDelimited
    then have d: "decode_optional_delimited ty payload p' = Inr (Some f, q)"
      using assms ty by (auto simp: decode_frame_at_def)
    from decode_optional_delimited_reencode[OF d assms(2)] decode_optional_delimited_ge[OF d]
      split[of "q - p'"] decode_frame_at_bound[OF assms(1)]
    show ?thesis by simp
  qed (use assms ty fixed in \<open>auto simp: decode_frame_at_def bindR_Inr_iff split: if_splits\<close>)
qed

section \<open>Concatenated payloads\<close>

text \<open>
  A payload decodes the same behind any prefix. A Rust slice holds at most \<open>isize::MAX\<close> bytes,
  which is what keeps the \<open>checked_add\<close> of the length-delimited branch from failing.
\<close>

definition shift_pos :: "nat \<Rightarrow> 'e + 'a \<times> nat \<Rightarrow> 'e + 'a \<times> nat" where
  "shift_pos k r = bindR r (\<lambda>(v, q). Inr (v, k + q))"

lemma shift_pos_simps [simp]:
  "shift_pos k (Inl e) = Inl e" "shift_pos k (Inr (v, q)) = Inr (v, k + q)"
  by (simp_all add: shift_pos_def)

lemma read_varint_shift: "read_varint (pre @ xs) (length pre + p) = shift_pos (length pre) (read_varint xs p)"
  by (cases "varint_decode (drop p xs)") (auto simp: read_varint_def shift_pos_def)

lemma decode_optional_delimited_shift:
  assumes "length (pre @ xs) < 2 ^ 63"
  shows "decode_optional_delimited ty (pre @ xs) (length pre + p)
    = shift_pos (length pre) (decode_optional_delimited ty xs p)"
proof (cases "read_varint xs p")
  case (Inr r)
  then obtain len q where r: "read_varint xs p = Inr (len, q)" by (cases r) auto
  then have "unat len < 2 ^ 62" and "q \<le> length xs"
    using at_pos_length[of xs p "varint_bytes len"] by (auto simp: codec_dec unat_le_simps)
  then have "usize_checked_add (length pre + q) (unat len) = Some (length pre + (q + unat len))"
    "usize_checked_add q (unat len) = Some (q + unat len)"
    using assms by (simp_all add: usize_checked_add_def)
  then show ?thesis
    by (cases "DhtLookupFrame_decode (take (unat len) (drop q xs))";
        cases "RevocationBatchFrame_decode (take (unat len) (drop q xs))")
      (auto simp: decode_optional_delimited_def read_varint_shift r Let_def)
qed (simp add: decode_optional_delimited_def read_varint_shift)

lemma decode_frame_at_shift:
  assumes "length (pre @ xs) < 2 ^ 63"
  shows "decode_frame_at (pre @ xs) (length pre + p) = shift_pos (length pre) (decode_frame_at xs p)"
proof (cases "read_varint xs p")
  case (Inr r)
  then obtain ty q where r: "read_varint xs p = Inr (ty, q)" by (cases r) auto
  show ?thesis
    by (cases "behavior ty"; cases "decode_fixed ty (drop q xs)";
        cases "RelayStatusFrame_decode_length_delimited (drop q xs)")
      (auto simp: decode_frame_at_def read_varint_shift r decode_optional_delimited_shift[OF assms])
qed (simp add: decode_frame_at_def read_varint_shift)

lemma decode_frames_loop_shift:
  assumes "length (pre @ xs) < 2 ^ 63"
  shows "decode_frames_loop (pre @ xs) (length pre + p) out = decode_frames_loop xs p out"
proof (induction "length xs - p" arbitrary: p out rule: less_induct)
  case less
  show ?case
  proof (cases "p < length xs")
    case True
    then show ?thesis
      using less decode_frame_at_progress[of xs p] decode_frame_at_shift[OF assms, of p]
      by (cases "decode_frame_at xs p") (auto simp: decode_frames_loop_step diff_less_mono2)
  qed (simp add: decode_frames_loop_done)
qed

lemma decode_frames_loop_prefix:
  assumes "encode_frames fs = Inr bs" and "\<forall>f \<in> set fs. frame_ok f"
    and "length (pre @ bs @ rest) < 2 ^ 63"
  shows "decode_frames_loop (pre @ bs @ rest) (length pre) out
    = decode_frames_loop rest 0 (out @ fs)"
  using assms
proof (induction fs arbitrary: bs pre out)
  case Nil
  then show ?case using decode_frames_loop_shift[of pre rest 0 out] by simp
next
  case (Cons f fs)
  then obtain x y where x: "frame_encode f = Inr x" and y: "encode_frames fs = Inr y"
    and bs: "bs = x @ y"
    by (auto simp: bindR_Inr_iff)
  have "x \<noteq> []" using frame_encode_nonempty[OF _ x] Cons.prems bs by auto
  then have "length pre < length (pre @ bs @ rest)" by (simp add: bs)
  moreover have "decode_frame_at (pre @ bs @ rest) (length pre) = Inr (Some f, length pre + length x)"
    using decode_frame_at_encode[OF _ x, of pre "y @ rest"] Cons.prems bs by simp
  moreover have "decode_frames_loop ((pre @ x) @ y @ rest) (length (pre @ x)) (out @ [f])
      = decode_frames_loop rest 0 ((out @ [f]) @ fs)"
    using Cons.prems bs by (intro Cons.IH[OF y]) auto
  ultimately show ?case by (simp add: decode_frames_loop_step bs)
qed

lemma decode_frames_prefix:
  assumes "encode_frames fs = Inr bs" and "\<forall>f \<in> set fs. frame_ok f"
    and "length (bs @ rest) < 2 ^ 63"
  shows "decode_frames (bs @ rest) = bindR (decode_frames rest) (\<lambda>gs. Inr (fs @ gs))"
  using decode_frames_loop_prefix[OF assms(1,2), of "[]" rest "[]"] assms(3)
    decode_frames_loop_acc[of rest 0 fs]
  by (simp add: decode_frames_def)

section \<open>Types no decoder knows\<close>

definition known_types :: "FrameType list" where
  "known_types = [FT_PADDING, FT_PING,
     FT_ACK, FT_CONNECTION_CLOSE, FT_STREAM, FT_RESET_STREAM,
     FT_STOP_SENDING, FT_MAX_DATA, FT_MAX_STREAM_DATA, FT_MAX_STREAMS,
     FT_DATAGRAM, FT_NEW_CONNECTION_ID, FT_RETIRE_CONNECTION_ID, FT_PATH_CHALLENGE,
     FT_PATH_RESPONSE, FT_PATH_STATUS, FT_MIGRATE, FT_KEY_UPDATE,
     FT_AUTH, FT_HANDSHAKE_DATA, FT_CAPABILITIES, FT_SESSION_TICKET,
     FT_ROUTE_REQUEST, FT_ROUTE_RESPONSE, FT_ROUTE_ERROR, FT_RELAY_OPEN,
     FT_RELAY_STATUS, FT_RELAY_DATA, FT_RELAY_CLOSE, FT_BUNDLE,
     FT_BUNDLE_ACK, FT_PEER_HINT, FT_SERVICE_HINT, FT_DHT_LOOKUP,
     FT_REVOCATION_BATCH]"

lemma decode_fixed_unknown:
  "ty \<notin> set known_types \<Longrightarrow> decode_fixed ty rest =
     Inl (if behavior ty = OptionalFixed then UnknownOptionalFixedFrame ty else UnknownCriticalFrame ty)"
  by (auto simp: decode_fixed_def known_types_def)

lemma decode_frame_at_unknown:
  assumes "ty \<le> MAX_VARINT" and "ty \<notin> set known_types" and "behavior ty \<noteq> OptionalLengthDelimited"
  shows "decode_frame_at (varint_bytes ty @ rest) 0 =
     Inl (if behavior ty = OptionalFixed then UnknownOptionalFixedFrame ty else UnknownCriticalFrame ty)"
proof -
  have "ty \<noteq> FT_RELAY_STATUS" using assms(2) by (auto simp: known_types_def)
  then show ?thesis
    using assms read_varint_after[of ty "[]" rest]
    by (auto simp: decode_frame_at_def decode_fixed_unknown split: ExtensionBehavior.splits)
qed

lemma decode_frames_unknown:
  assumes "ty \<le> MAX_VARINT" and "ty \<notin> set known_types" and "behavior ty \<noteq> OptionalLengthDelimited"
  shows "decode_frames (varint_bytes ty @ rest) =
     Inl (if behavior ty = OptionalFixed then UnknownOptionalFixedFrame ty else UnknownCriticalFrame ty)"
  using decode_frame_at_unknown[OF assms] varint_bytes_nonempty[OF assms(1)]
  by (simp add: decode_frames_def decode_frames_loop_step)

lemma decode_frames_skip:
  assumes "ty \<le> MAX_VARINT" and "ty \<notin> set known_types" and "behavior ty = OptionalLengthDelimited"
    and "length body < 2 ^ 62" and "length (varint_bytes ty @ bytes_field body @ rest) < 2 ^ 63"
  shows "decode_frames (varint_bytes ty @ bytes_field body @ rest) = decode_frames rest"
proof -
  let ?x = "varint_bytes ty @ varint_bytes (of_nat (length body)) @ body"
  have "ty \<noteq> FT_DHT_LOOKUP" "ty \<noteq> FT_REVOCATION_BATCH"
    using assms(2) by (auto simp: known_types_def)
  moreover have "read_varint (varint_bytes ty @ varint_bytes (of_nat (length body)) @ body @ rest)
      (length (varint_bytes ty))
    = Inr (of_nat (length body), length (varint_bytes ty) + length (varint_bytes (of_nat (length body))))"
    using read_varint_after[of "of_nat (length body)" "varint_bytes ty" "body @ rest"] assms(4)
    by (simp add: of_nat_le_MAX_VARINT)
  ultimately have "decode_frame_at (?x @ rest) 0 = Inr (None, length ?x)"
    using assms read_varint_after[of ty "[]"]
    by (simp add: decode_frame_at_def decode_optional_delimited_def bytes_field_def Let_def
        usize_checked_add_def unat_of_nat_62)
  moreover have "0 < length (?x @ rest)" using varint_bytes_nonempty[OF assms(1)] by simp
  moreover have "decode_frames_loop (?x @ rest) (length ?x + 0) [] = decode_frames_loop rest 0 []"
    using assms(5) by (intro decode_frames_loop_shift) (simp add: bytes_field_def)
  ultimately show ?thesis
    by (simp add: decode_frames_def decode_frames_loop_step bytes_field_def)
qed

section \<open>Properties\<close>

text \<open>
  C5: Whatever follows it in the payload, a run of frames that was written with their encoders is
  read back as exactly those frames, and decoding goes on after them as if they had not been there.
\<close>

theorem decode_frames_roundtrip:
  assumes "encode_frames fs = Inr bs" and "\<forall>f \<in> set fs. frame_ok f"
    and "length (bs @ rest) < 2 ^ 63"
  shows "decode_frames (bs @ rest) = bindR (decode_frames rest) (\<lambda>gs. Inr (fs @ gs))"
  by (rule decode_frames_prefix[OF assms])

theorem decode_frames_roundtrip_witness:
  "decode_frames ([0x04, 0x1C, 0x25] @ [0x00]) = Inr [Ping, MaxData \<lparr>md_maximum_data = 37\<rparr>, Padding]"
proof -
  have "encode_frames [Ping, MaxData \<lparr>md_maximum_data = 37\<rparr>] = Inr [0x04, 0x1C, 0x25]" by code_simp
  moreover have "decode_frames [0x00] = Inr [Padding]" by code_simp
  ultimately show ?thesis
    using decode_frames_roundtrip[of "[Ping, MaxData \<lparr>md_maximum_data = 37\<rparr>]" "[0x04, 0x1C, 0x25]" "[0x00]"]
    by simp
qed

text \<open>
  C34: The wire form of a frame is unique: a frame the loop decodes at a position, other than the
  few kinds with a second accepted form, encodes back to the bytes between that position and the
  one the loop continues from.
\<close>

theorem decode_frame_reencode:
  assumes "decode_frame_at payload p = Inr (Some f, q)" and "byte_exact f"
  shows "frame_encode f = Inr (take (q - p) (drop p payload))"
  by (rule decode_frame_at_reencode[OF assms])

theorem decode_frame_reencode_witness:
  "frame_encode (MaxData \<lparr>md_maximum_data = 37\<rparr>) = Inr (take (3 - 1) (drop 1 [0x04, 0x1C, 0x25]))"
proof (rule decode_frame_reencode)
  show "decode_frame_at [0x04, 0x1C, 0x25] 1 = Inr (Some (MaxData \<lparr>md_maximum_data = 37\<rparr>), 3)"
    by code_simp
qed simp

text \<open>
  C35: The loop makes progress and stays inside the payload: every round moves the position
  forward, to a place not past the end, so a payload of \<open>n\<close> bytes holds at most \<open>n\<close> frames.
\<close>

theorem decode_frames_bounds:
  "(decode_frame_at payload p = Inr (f, q) \<longrightarrow> p < q \<and> q \<le> length payload)
   \<and> (decode_frames payload = Inr fs \<longrightarrow> length fs \<le> length payload)"
  using decode_frame_at_progress decode_frame_at_bound decode_frames_loop_count[of payload 0 fs]
  by (auto simp: decode_frames_def)

theorem decode_frames_bounds_witness:
  "decode_frames [0x04, 0x00] = Inr [Ping, Padding] \<and> length [Ping, Padding] \<le> length [0x04, 0x00 :: u8]"
proof -
  have d: "decode_frames [0x04, 0x00] = Inr [Ping, Padding]" by code_simp
  show ?thesis using d decode_frames_bounds[of "[0x04, 0x00]" 0 None 0 "[Ping, Padding]"] by blast
qed

text \<open>
  C36: A frame type no decoder knows, and that is not length-delimited and optional, aborts the
  whole packet, whatever well-formed frames stand before it: nothing of the packet is delivered.
  This includes the types that are length-delimited and critical, although they could be skipped by
  their length and the comment on \<open>decode_frames\<close> says that every unknown length-delimited type is.
\<close>

theorem unknown_critical_aborts:
  assumes "ty \<le> MAX_VARINT" and "ty \<notin> set known_types" and "behavior ty \<noteq> OptionalLengthDelimited"
    and "encode_frames fs = Inr bs" and "\<forall>f \<in> set fs. frame_ok f"
    and "length (bs @ varint_bytes ty @ rest) < 2 ^ 63"
  shows "decode_frames (bs @ varint_bytes ty @ rest) =
     Inl (if behavior ty = OptionalFixed then UnknownOptionalFixedFrame ty else UnknownCriticalFrame ty)"
  by (simp add: decode_frames_prefix[OF assms(4-6)] decode_frames_unknown[OF assms(1-3)])

theorem unknown_critical_aborts_witness:
  "decode_frames ([0x04] @ varint_bytes 0x3A @ [1, 2]) = Inl (UnknownCriticalFrame 0x3A)"
proof -
  have "encode_frames [Ping] = Inr [0x04]" by code_simp
  moreover have "behavior 0x3A = CriticalLengthDelimited" by (simp add: behavior_def)
  moreover have "0x3A \<notin> set known_types" by (simp add: known_types_def FT_defs)
  moreover have "varint_bytes 0x3A = [0x3A]" by code_simp
  ultimately show ?thesis
    using unknown_critical_aborts[of "0x3A" "[Ping]" "[0x04]" "[1, 2]"] by (simp add: MAX_VARINT_def)
qed

text \<open>
  C37: A frame type no decoder knows that is optional and length-delimited is skipped with its
  body: the rest of the packet decodes as if the frame had not been there.
\<close>

theorem unknown_optional_skipped:
  assumes "ty \<le> MAX_VARINT" and "ty \<notin> set known_types" and "behavior ty = OptionalLengthDelimited"
    and "length body < 2 ^ 62" and "length (varint_bytes ty @ bytes_field body @ rest) < 2 ^ 63"
  shows "decode_frames (varint_bytes ty @ bytes_field body @ rest) = decode_frames rest"
  by (rule decode_frames_skip[OF assms])

theorem unknown_optional_skipped_witness:
  "decode_frames (varint_bytes 0x3B @ bytes_field [9, 9] @ [0x04]) = Inr [Ping]"
proof -
  have "behavior 0x3B = OptionalLengthDelimited" by (simp add: behavior_def)
  moreover have "0x3B \<notin> set known_types" by (simp add: known_types_def FT_defs)
  moreover have "varint_bytes 0x3B = [0x3B]" "bytes_field [9, 9] = [2, 9, 9]" by code_simp+
  moreover have "decode_frames [0x04] = Inr [Ping]" by code_simp
  ultimately show ?thesis
    using unknown_optional_skipped[of "0x3B" "[9, 9]" "[0x04]"] by (simp add: MAX_VARINT_def)
qed

end
