(* ===== verification/Header.thy ===== *)
theory Header
  imports Varint
begin

text \<open>
  \<open>crates/umc-wire/src/header.rs\<close>: the header-form byte and the long and short packet headers.
  The header encoders slice \<open>to_be_bytes()[8 - pn_bytes..]\<close>, which panics when \<open>pn_bits\<close> is more
  than 71; a panic is \<open>None\<close>.
\<close>

section \<open>Model\<close>

datatype HeaderForm = Long | Short

datatype LongPacketType = Initial | Retry | Handshake | VersionNegotiation

datatype ShortPacketSpace = SessionData | PathControl | RelayData

datatype HeaderError =
  ReservedBits | InvalidType | InvalidSpace | ConnectionIdTooLong | TokenTooLong | Truncated

record HeaderByte =
  hb_long :: bool
  hb_kind :: u8
  hb_key_phase :: bool
  hb_pn_bits :: u32

definition LONG_INITIAL :: HeaderByte where
  "LONG_INITIAL = \<lparr>hb_long = True, hb_kind = 0, hb_key_phase = False, hb_pn_bits = 8\<rparr>"
definition LONG_RETRY :: HeaderByte where
  "LONG_RETRY = \<lparr>hb_long = True, hb_kind = 1, hb_key_phase = False, hb_pn_bits = 8\<rparr>"
definition LONG_HANDSHAKE :: HeaderByte where
  "LONG_HANDSHAKE = \<lparr>hb_long = True, hb_kind = 2, hb_key_phase = False, hb_pn_bits = 8\<rparr>"
definition LONG_VERSION_NEGOTIATION :: HeaderByte where
  "LONG_VERSION_NEGOTIATION = \<lparr>hb_long = True, hb_kind = 3, hb_key_phase = False, hb_pn_bits = 8\<rparr>"
definition SHORT_SESSION :: HeaderByte where
  "SHORT_SESSION = \<lparr>hb_long = False, hb_kind = 0, hb_key_phase = False, hb_pn_bits = 8\<rparr>"
definition SHORT_PATH :: HeaderByte where
  "SHORT_PATH = \<lparr>hb_long = False, hb_kind = 1, hb_key_phase = False, hb_pn_bits = 8\<rparr>"
definition SHORT_RELAY :: HeaderByte where
  "SHORT_RELAY = \<lparr>hb_long = False, hb_kind = 2, hb_key_phase = False, hb_pn_bits = 8\<rparr>"

definition HeaderByte_encode :: "HeaderByte \<Rightarrow> u8" where
  "HeaderByte_encode h =
     (let b = set_flag (hb_long h) 0x80 0;
          b = b OR push_bit 5 (hb_kind h AND 0x03);
          b = set_flag (hb_key_phase h) 0x10 b;
          pn_field =
            (if hb_pn_bits h = 8 then 0
             else if hb_pn_bits h = 16 then 1
             else if hb_pn_bits h = 32 then 2
             else if hb_pn_bits h = 64 then 3
             else ucast (hb_pn_bits h AND 0x03)) in
      b OR push_bit 2 pn_field)"

definition HeaderByte_decode :: "u8 \<Rightarrow> HeaderError + HeaderByte" where
  "HeaderByte_decode b =
     (if flag_set b 0x03 then Inl ReservedBits
      else
        let f = drop_bit 2 b AND 0x03;
            pn_bits = (if f = 0 then 8 else if f = 1 then 16 else if f = 2 then 32 else 64) in
        Inr \<lparr>hb_long = flag_set b 0x80,
             hb_kind = drop_bit 5 b AND 0x03,
             hb_key_phase = flag_set b 0x10,
             hb_pn_bits = pn_bits\<rparr>)"

definition long_type :: "HeaderByte \<Rightarrow> LongPacketType option" where
  "long_type h =
     (if \<not> hb_long h then None
      else if hb_kind h = 0 then Some Initial
      else if hb_kind h = 1 then Some Retry
      else if hb_kind h = 2 then Some Handshake
      else Some VersionNegotiation)"

definition short_space :: "HeaderByte \<Rightarrow> ShortPacketSpace option" where
  "short_space h =
     (if hb_long h then None
      else if hb_kind h = 0 then Some SessionData
      else if hb_kind h = 1 then Some PathControl
      else if hb_kind h = 2 then Some RelayData
      else None)"

definition MAX_CONNECTION_ID_LEN :: nat where [simp]: "MAX_CONNECTION_ID_LEN = 20"
definition MAX_TOKEN_LEN :: nat where [simp]: "MAX_TOKEN_LEN = 1024"

record LongHeader =
  lh_ptype :: LongPacketType
  lh_version :: u32
  lh_dcid :: bytes
  lh_scid :: bytes
  lh_token :: bytes
  lh_payload_len :: u64
  lh_packet_number :: u64
  lh_pn_bits :: u32

fun long_header_byte :: "LongPacketType \<Rightarrow> HeaderByte" where
  "long_header_byte Initial = LONG_INITIAL"
| "long_header_byte Retry = LONG_RETRY"
| "long_header_byte Handshake = LONG_HANDSHAKE"
| "long_header_byte VersionNegotiation = LONG_VERSION_NEGOTIATION"

text \<open>\<open>packet_number.to_be_bytes()[8 - pn_bytes..]\<close>.\<close>

definition pn_suffix :: "u64 \<Rightarrow> u32 \<Rightarrow> bytes option" where
  "pn_suffix pn bits =
     (let pn_bytes = unat bits div 8 in
      if pn_bytes \<le> 8 then Some (drop (8 - pn_bytes) (to_be_bytes64 pn)) else None)"

definition LongHeader_encode :: "LongHeader \<Rightarrow> (HeaderError + bytes) option" where
  "LongHeader_encode h =
     (if length (lh_dcid h) > MAX_CONNECTION_ID_LEN \<or> length (lh_scid h) > MAX_CONNECTION_ID_LEN
      then Some (Inl ConnectionIdTooLong)
      else if length (lh_token h) > MAX_TOKEN_LEN then Some (Inl TokenTooLong)
      else
        let out = [HeaderByte_encode (long_header_byte (lh_ptype h))];
            out = out @ to_be_bytes32 (lh_version h);
            out = out @ [of_nat (length (lh_dcid h))] @ lh_dcid h;
            out = out @ [of_nat (length (lh_scid h))] @ lh_scid h in
        case varint_encode_into out (of_nat (length (lh_token h))) of
          Inl _ \<Rightarrow> Some (Inl HeaderError.Truncated)
        | Inr out \<Rightarrow>
            (case varint_encode_into (out @ lh_token h) (lh_payload_len h) of
               Inl _ \<Rightarrow> Some (Inl HeaderError.Truncated)
             | Inr out \<Rightarrow>
                 (case pn_suffix (lh_packet_number h) (lh_pn_bits h) of
                    None \<Rightarrow> None
                  | Some pn \<Rightarrow> Some (Inr (out @ pn)))))"

record ShortHeader =
  sh_space :: ShortPacketSpace
  sh_dcid :: bytes
  sh_path_id :: u64
  sh_packet_number :: u64
  sh_pn_bits :: u32
  sh_key_phase :: bool

fun short_header_byte :: "ShortPacketSpace \<Rightarrow> HeaderByte" where
  "short_header_byte SessionData = SHORT_SESSION"
| "short_header_byte PathControl = SHORT_PATH"
| "short_header_byte RelayData = SHORT_RELAY"

definition ShortHeader_encode :: "ShortHeader \<Rightarrow> (HeaderError + bytes) option" where
  "ShortHeader_encode h =
     (if length (sh_dcid h) > MAX_CONNECTION_ID_LEN then Some (Inl ConnectionIdTooLong)
      else
        let hb = (short_header_byte (sh_space h))
              \<lparr>hb_key_phase := sh_key_phase h, hb_pn_bits := sh_pn_bits h\<rparr>;
            out = HeaderByte_encode hb # sh_dcid h in
        case varint_encode_into out (sh_path_id h) of
          Inl _ \<Rightarrow> Some (Inl HeaderError.Truncated)
        | Inr out \<Rightarrow>
            (case pn_suffix (sh_packet_number h) (sh_pn_bits h) of
               None \<Rightarrow> None
             | Some pn \<Rightarrow> Some (Inr (out @ pn))))"

section \<open>The header byte\<close>

definition header_byte_ok :: "HeaderByte \<Rightarrow> bool" where
  "header_byte_ok h \<longleftrightarrow> hb_kind h < 4 \<and> hb_pn_bits h \<in> {8, 16, 32, 64}"

lemma kind_cases:
  assumes "(k :: u8) < 4"
  obtains "k = 0" | "k = 1" | "k = 2" | "k = 3"
proof -
  have "unat k < 4" using assms by (simp add: word_less_nat_alt)
  then have "unat k = 0 \<or> unat k = 1 \<or> unat k = 2 \<or> unat k = 3" by auto
  then show thesis using that by (auto simp: word_unat_eq_iff)
qed

lemma HeaderByte_decode_encode:
  assumes "header_byte_ok h"
  shows "HeaderByte_decode (HeaderByte_encode h) = Inr h"
proof (cases h)
  case (fields long kind phase bits)
  have "kind < 4" and bits: "bits \<in> {8, 16, 32, 64}" using assms by (auto simp: fields header_byte_ok_def)
  from this(1) show ?thesis
    by (cases rule: kind_cases; use bits in \<open>cases long; cases phase\<close>)
      (auto simp: fields HeaderByte_encode_def HeaderByte_decode_def Let_def set_flag_def flag_set_def)
qed

lemma header_byte_bits:
  "let b = set_flag x7 128 (set_flag x6 64 (set_flag x5 32 (set_flag x4 16 (set_flag x3 8
     (set_flag x2 4 0))))) in
   case HeaderByte_decode b of Inl _ \<Rightarrow> False | Inr h \<Rightarrow> HeaderByte_encode h = b \<and> header_byte_ok h"
  by (cases x7; cases x6; cases x5; cases x4; cases x3; cases x2)
    (simp_all add: HeaderByte_decode_def HeaderByte_encode_def header_byte_ok_def set_flag_def
      flag_set_def)

lemma HeaderByte_encode_decode:
  assumes "HeaderByte_decode b = Inr h"
  shows "HeaderByte_encode h = b \<and> header_byte_ok h"
proof -
  have "\<not> flag_set b (2 OR 1)" using assms by (simp add: HeaderByte_decode_def split: if_splits)
  then have "\<not> flag_set b 1" "\<not> flag_set b 2" unfolding flag_set_or by simp_all
  then have "b = set_flag (flag_set b 128) 128 (set_flag (flag_set b 64) 64
      (set_flag (flag_set b 32) 32 (set_flag (flag_set b 16) 16 (set_flag (flag_set b 8) 8
      (set_flag (flag_set b 4) 4 0)))))"
    using flags_of_bits[of b] by (simp add: set_flag_False)
  then show ?thesis
    using header_byte_bits[of "flag_set b 128" "flag_set b 64" "flag_set b 32" "flag_set b 16"
        "flag_set b 8" "flag_set b 4"] assms
    by (simp add: Let_def)
qed

section \<open>Packet numbers on the wire\<close>

lemma pn_suffix_length: "pn_suffix pn bits = Some bs \<Longrightarrow> length bs = unat bits div 8"
  by (auto simp: pn_suffix_def Let_def to_be_bytes64_def be_bytes_def split: if_splits)

lemma pn_suffix_value:
  "pn_suffix pn bits = Some bs \<Longrightarrow> be_nat bs = unat pn mod 256 ^ (unat bits div 8)"
  by (auto simp: pn_suffix_def Let_def to_be_bytes64_def drop_be_bytes be_nat_be_bytes split: if_splits)

section \<open>The encoders\<close>

lemma header_constants_ok [simp]:
  "header_byte_ok (long_header_byte p)"
  "bits \<in> {8, 16, 32, 64} \<Longrightarrow>
     header_byte_ok ((short_header_byte s)\<lparr>hb_key_phase := k, hb_pn_bits := bits\<rparr>)"
  by (cases p; simp add: header_byte_ok_def LONG_INITIAL_def LONG_RETRY_def LONG_HANDSHAKE_def
      LONG_VERSION_NEGOTIATION_def)
    (cases s; auto simp: header_byte_ok_def SHORT_SESSION_def SHORT_PATH_def SHORT_RELAY_def)

lemma long_header_byte_simps [simp]:
  "long_type (long_header_byte p) = Some p" "hb_pn_bits (long_header_byte p) = 8"
  by (cases p; simp add: long_type_def LONG_INITIAL_def LONG_RETRY_def LONG_HANDSHAKE_def
      LONG_VERSION_NEGOTIATION_def)+

lemma short_header_byte_simps [simp]:
  "short_space ((short_header_byte s)\<lparr>hb_key_phase := k, hb_pn_bits := bits\<rparr>) = Some s"
  by (cases s; simp add: short_space_def SHORT_SESSION_def SHORT_PATH_def SHORT_RELAY_def)

lemma ShortHeader_encode_iff:
  "ShortHeader_encode h = Some (Inr bs) \<longleftrightarrow>
     length (sh_dcid h) \<le> MAX_CONNECTION_ID_LEN \<and> sh_path_id h \<le> MAX_VARINT
     \<and> (\<exists>pn. pn_suffix (sh_packet_number h) (sh_pn_bits h) = Some pn
        \<and> bs = HeaderByte_encode ((short_header_byte (sh_space h))
                \<lparr>hb_key_phase := sh_key_phase h, hb_pn_bits := sh_pn_bits h\<rparr>)
              # sh_dcid h @ varint_bytes (sh_path_id h) @ pn)"
  by (auto simp: ShortHeader_encode_def Let_def varint_encode_into_eq split: option.splits)

lemma LongHeader_encode_iff:
  "LongHeader_encode h = Some (Inr bs) \<longleftrightarrow>
     length (lh_dcid h) \<le> MAX_CONNECTION_ID_LEN \<and> length (lh_scid h) \<le> MAX_CONNECTION_ID_LEN
     \<and> length (lh_token h) \<le> MAX_TOKEN_LEN \<and> lh_payload_len h \<le> MAX_VARINT
     \<and> (\<exists>pn. pn_suffix (lh_packet_number h) (lh_pn_bits h) = Some pn
        \<and> bs = HeaderByte_encode (long_header_byte (lh_ptype h)) # to_be_bytes32 (lh_version h)
              @ [of_nat (length (lh_dcid h))] @ lh_dcid h
              @ [of_nat (length (lh_scid h))] @ lh_scid h
              @ varint_bytes (of_nat (length (lh_token h))) @ lh_token h
              @ varint_bytes (lh_payload_len h) @ pn)"
proof -
  have "(of_nat (length (lh_token h)) :: u64) \<le> MAX_VARINT" if "length (lh_token h) \<le> MAX_TOKEN_LEN"
    using that by (simp add: unat_le_simps unat_of_nat take_bit_nat_eq_self)
  then show ?thesis
    by (auto simp: LongHeader_encode_def Let_def varint_encode_into_eq split: option.splits)
qed

section \<open>Properties\<close>

text \<open>
  C39: The header byte is a bijection between the well-formed header values (kind below 4, packet
  number width 8, 16, 32 or 64) and the bytes whose two reserved bits are clear.
\<close>

theorem header_byte_bijection:
  "HeaderByte_decode b = Inr h \<longleftrightarrow> header_byte_ok h \<and> HeaderByte_encode h = b"
  using HeaderByte_encode_decode HeaderByte_decode_encode by blast

text \<open>
  A short header carries what its reader needs: its first byte decodes to the space, the key
  phase and the packet-number width of the header, and the bytes after the connection ID and the
  path ID are the packet number's low bytes, as many as that width says.
\<close>

theorem short_header_layout:
  assumes "ShortHeader_encode h = Some (Inr bs)" and "sh_pn_bits h \<in> {8, 16, 32, 64}"
  shows "\<exists>b hb pn. bs = b # sh_dcid h @ varint_bytes (sh_path_id h) @ pn
    \<and> HeaderByte_decode b = Inr hb \<and> short_space hb = Some (sh_space h)
    \<and> hb_key_phase hb = sh_key_phase h \<and> hb_pn_bits hb = sh_pn_bits h
    \<and> length pn = unat (hb_pn_bits hb) div 8
    \<and> be_nat pn = unat (sh_packet_number h) mod 256 ^ length pn"
proof -
  let ?hb = "(short_header_byte (sh_space h))\<lparr>hb_key_phase := sh_key_phase h, hb_pn_bits := sh_pn_bits h\<rparr>"
  obtain pn where pn: "pn_suffix (sh_packet_number h) (sh_pn_bits h) = Some pn"
    and bs: "bs = HeaderByte_encode ?hb # sh_dcid h @ varint_bytes (sh_path_id h) @ pn"
    using assms(1) by (auto simp: ShortHeader_encode_iff)
  have "HeaderByte_decode (HeaderByte_encode ?hb) = Inr ?hb"
    using assms(2) by (intro HeaderByte_decode_encode header_constants_ok)
  then show ?thesis
    using bs pn_suffix_length[OF pn] pn_suffix_value[OF pn]
    by (intro exI[of _ "HeaderByte_encode ?hb"] exI[of _ ?hb] exI[of _ pn]) simp
qed

theorem short_header_layout_witness:
  "\<exists>b hb pn. [0x34, 0xAA, 0x05, 0x12, 0x34] = b # [0xAA] @ varint_bytes 5 @ pn
    \<and> HeaderByte_decode b = Inr hb \<and> short_space hb = Some PathControl
    \<and> hb_key_phase hb = True \<and> hb_pn_bits hb = 16
    \<and> length pn = unat (hb_pn_bits hb) div 8 \<and> be_nat pn = unat (0x991234 :: u64) mod 256 ^ length pn"
proof -
  let ?h = "\<lparr>sh_space = PathControl, sh_dcid = [0xAA], sh_path_id = 5, sh_packet_number = 0x991234,
    sh_pn_bits = 16, sh_key_phase = True\<rparr>"
  have "ShortHeader_encode ?h = Some (Inr [0x34, 0xAA, 0x05, 0x12, 0x34])" by code_simp
  from short_header_layout[OF this] show ?thesis by simp
qed

text \<open>
  C40: A long header announces an 8-bit packet number whatever width it writes: the first byte
  always decodes to \<open>pn_bits = 8\<close>, while \<open>pn_bits / 8\<close> bytes of packet number end the header.
\<close>

theorem long_header_pn_width:
  assumes "LongHeader_encode h = Some (Inr bs)"
  shows "\<exists>hb pre pn. HeaderByte_decode (hd bs) = Inr hb \<and> long_type hb = Some (lh_ptype h)
    \<and> hb_pn_bits hb = 8 \<and> bs = pre @ pn \<and> length pn = unat (lh_pn_bits h) div 8
    \<and> be_nat pn = unat (lh_packet_number h) mod 256 ^ length pn"
proof -
  let ?hb = "long_header_byte (lh_ptype h)"
  obtain pre pn where pn: "pn_suffix (lh_packet_number h) (lh_pn_bits h) = Some pn"
    and bs: "bs = (HeaderByte_encode ?hb # pre) @ pn"
    using assms by (auto simp: LongHeader_encode_iff)
  moreover have "HeaderByte_decode (HeaderByte_encode ?hb) = Inr ?hb"
    by (intro HeaderByte_decode_encode header_constants_ok)
  ultimately show ?thesis
    using pn_suffix_length[OF pn] pn_suffix_value[OF pn]
    by (intro exI[of _ ?hb] exI[of _ "HeaderByte_encode ?hb # pre"] exI[of _ pn]) simp
qed

theorem long_header_pn_width_witness:
  "\<exists>hb pre pn. HeaderByte_decode (hd [0xC0, 0, 0, 0, 1, 0, 0, 0, 9, 0, 7]) = Inr hb
    \<and> long_type hb = Some LongPacketType.Handshake \<and> hb_pn_bits hb = 8
    \<and> [0xC0, 0, 0, 0, 1, 0, 0, 0, 9, 0, 7] = pre @ pn \<and> length pn = unat (16 :: u32) div 8
    \<and> be_nat pn = unat (7 :: u64) mod 256 ^ length pn"
proof -
  let ?h = "\<lparr>lh_ptype = LongPacketType.Handshake, lh_version = 1, lh_dcid = [], lh_scid = [], lh_token = [],
    lh_payload_len = 9, lh_packet_number = 7, lh_pn_bits = 16\<rparr>"
  have "LongHeader_encode ?h = Some (Inr [0xC0, 0, 0, 0, 1, 0, 0, 0, 9, 0, 7])" by code_simp
  from long_header_pn_width[OF this] show ?thesis by simp
qed

end
