(* ===== verification/Packet.thy ===== *)
theory Packet
  imports Frame_Decode Header
begin

text \<open>
  \<open>crates/umc-wire/src/packet.rs\<close>: parsing a decrypted payload in its packet context.
\<close>

section \<open>Model\<close>

definition MAX_PACKET_SIZE :: nat where [simp]: "MAX_PACKET_SIZE = 65535"

datatype PacketContext = Initial | Handshake | Protected ShortPacketSpace

datatype PacketError = TooLarge | FrameErr FrameError | ContextViolation FrameType

record ParsedPacket =
  pp_context :: PacketContext
  pp_frames :: "Frame list"

definition context_allows :: "PacketContext \<Rightarrow> FrameType \<Rightarrow> bool" where
  "context_allows ctx ty =
     (if ty \<in> {FT_PADDING, FT_PING, FT_ACK, FT_CAPABILITIES} then True
      else
        case ctx of
          PacketContext.Initial \<Rightarrow> ty \<in> {FT_AUTH, FT_HANDSHAKE_DATA}
        | PacketContext.Handshake \<Rightarrow> ty \<in> {FT_AUTH, FT_HANDSHAKE_DATA}
        | Protected sp \<Rightarrow>
            ty \<in> {FT_STREAM, FT_DATAGRAM}
            \<or> ty \<in> {FT_ROUTE_REQUEST, FT_ROUTE_RESPONSE, FT_ROUTE_ERROR}
            \<or> ty \<in> {FT_RELAY_OPEN, FT_RELAY_STATUS, FT_RELAY_DATA, FT_RELAY_CLOSE}
            \<or> ty \<in> {FT_BUNDLE, FT_BUNDLE_ACK}
            \<or> ty \<in> {FT_PATH_CHALLENGE, FT_PATH_RESPONSE, FT_PATH_STATUS, FT_MIGRATE}
            \<or> ty = FT_KEY_UPDATE
            \<or> ty \<in> {FT_NEW_CONNECTION_ID, FT_RETIRE_CONNECTION_ID}
            \<or> ty \<in> {FT_PEER_HINT, FT_SERVICE_HINT, FT_DHT_LOOKUP, FT_REVOCATION_BATCH}
            \<or> ty \<in> {FT_MAX_DATA, FT_MAX_STREAM_DATA, FT_MAX_STREAMS}
            \<or> ty \<in> {FT_RESET_STREAM, FT_STOP_SENDING}
            \<or> ty = FT_CONNECTION_CLOSE
            \<or> sp \<in> {SessionData, PathControl, ShortPacketSpace.RelayData} \<and> ty = FT_SESSION_TICKET)"

fun frame_type_of :: "Frame \<Rightarrow> FrameType" where
  "frame_type_of Padding = FT_PADDING"
| "frame_type_of Ping = FT_PING"
| "frame_type_of (Ack _) = FT_ACK"
| "frame_type_of (ConnectionClose _) = FT_CONNECTION_CLOSE"
| "frame_type_of (Stream _) = FT_STREAM"
| "frame_type_of (ResetStream _) = FT_RESET_STREAM"
| "frame_type_of (StopSending _) = FT_STOP_SENDING"
| "frame_type_of (MaxData _) = FT_MAX_DATA"
| "frame_type_of (MaxStreamData _) = FT_MAX_STREAM_DATA"
| "frame_type_of (MaxStreams _) = FT_MAX_STREAMS"
| "frame_type_of (Datagram _) = FT_DATAGRAM"
| "frame_type_of (NewConnectionId _) = FT_NEW_CONNECTION_ID"
| "frame_type_of (RetireConnectionId _) = FT_RETIRE_CONNECTION_ID"
| "frame_type_of (PathChallenge _) = FT_PATH_CHALLENGE"
| "frame_type_of (PathResponse _) = FT_PATH_RESPONSE"
| "frame_type_of (PathStatus _) = FT_PATH_STATUS"
| "frame_type_of (Migrate _) = FT_MIGRATE"
| "frame_type_of (KeyUpdate _) = FT_KEY_UPDATE"
| "frame_type_of (Auth _) = FT_AUTH"
| "frame_type_of (HandshakeData _) = FT_HANDSHAKE_DATA"
| "frame_type_of (Capabilities _) = FT_CAPABILITIES"
| "frame_type_of (SessionTicket _) = FT_SESSION_TICKET"
| "frame_type_of (RouteRequest _) = FT_ROUTE_REQUEST"
| "frame_type_of (RouteResponse _) = FT_ROUTE_RESPONSE"
| "frame_type_of (RouteError _) = FT_ROUTE_ERROR"
| "frame_type_of (RelayOpen _) = FT_RELAY_OPEN"
| "frame_type_of (RelayStatus _) = FT_RELAY_STATUS"
| "frame_type_of (Frame.RelayData _) = FT_RELAY_DATA"
| "frame_type_of (RelayClose _) = FT_RELAY_CLOSE"
| "frame_type_of (Bundle _) = FT_BUNDLE"
| "frame_type_of (BundleAck _) = FT_BUNDLE_ACK"
| "frame_type_of (PeerHint _) = FT_PEER_HINT"
| "frame_type_of (ServiceHint _) = FT_SERVICE_HINT"
| "frame_type_of (DhtLookup _) = FT_DHT_LOOKUP"
| "frame_type_of (RevocationBatch _) = FT_REVOCATION_BATCH"

definition check_context :: "PacketContext \<Rightarrow> Frame \<Rightarrow> PacketError + unit" where
  "check_context ctx frame =
     (let ty = frame_type_of frame in
      if context_allows ctx ty then Inr () else Inl (ContextViolation ty))"

text \<open>\<open>for f in &frames { check_context(context, f)?; }\<close>.\<close>

fun check_all :: "PacketContext \<Rightarrow> Frame list \<Rightarrow> PacketError + unit" where
  "check_all ctx [] = Inr ()"
| "check_all ctx (f # fs) = bindR (check_context ctx f) (\<lambda>_. check_all ctx fs)"

definition parse_payload :: "PacketContext \<Rightarrow> bytes \<Rightarrow> PacketError + ParsedPacket" where
  "parse_payload ctx payload =
     (if length payload > MAX_PACKET_SIZE then Inl TooLarge
      else
        bindR (map_err FrameErr (decode_frames payload)) (\<lambda>frames.
        bindR (check_all ctx frames) (\<lambda>_.
        Inr \<lparr>pp_context = ctx, pp_frames = frames\<rparr>)))"

section \<open>Laws\<close>

definition allowed_in :: "PacketContext \<Rightarrow> Frame \<Rightarrow> bool" where
  "allowed_in ctx f = context_allows ctx (frame_type_of f)"

lemma check_all_Inr: "check_all ctx fs = Inr u \<longleftrightarrow> list_all (allowed_in ctx) fs"
  by (induction fs) (auto simp: bindR_Inr_iff check_context_def allowed_in_def Let_def)

text \<open>The first frame that is out of place is the one reported.\<close>

lemma check_all_find:
  "check_all ctx fs = (case find (\<lambda>f. \<not> allowed_in ctx f) fs of
     None \<Rightarrow> Inr () | Some f \<Rightarrow> Inl (ContextViolation (frame_type_of f)))"
  by (induction fs) (auto simp: check_context_def allowed_in_def Let_def)

lemma parse_payload_Inr:
  "parse_payload ctx payload = Inr p \<longleftrightarrow>
     length payload \<le> MAX_PACKET_SIZE \<and> pp_context p = ctx
     \<and> decode_frames payload = Inr (pp_frames p) \<and> list_all (allowed_in ctx) (pp_frames p)"
  by (cases "decode_frames payload"; cases p)
    (auto simp: parse_payload_def bindR_Inr_iff check_all_Inr)

text \<open>Before the handshake is over, a packet carries only the frames that drive it.\<close>

fun handshake_frame :: "Frame \<Rightarrow> bool" where
  "handshake_frame Padding = True"
| "handshake_frame Ping = True"
| "handshake_frame (Ack _) = True"
| "handshake_frame (Capabilities _) = True"
| "handshake_frame (Auth _) = True"
| "handshake_frame (HandshakeData _) = True"
| "handshake_frame _ = False"

lemma context_allows_handshake:
  "context_allows PacketContext.Initial (frame_type_of f) \<longleftrightarrow> handshake_frame f"
  "context_allows PacketContext.Handshake (frame_type_of f) \<longleftrightarrow> handshake_frame f"
  by (cases f; simp add: context_allows_def FT_defs)+

lemma context_allows_protected:
  "context_allows (Protected s) (frame_type_of f) \<longleftrightarrow> (case f of Auth _ \<Rightarrow> False | HandshakeData _ \<Rightarrow> False | _ \<Rightarrow> True)"
  by (cases f; cases s; simp add: context_allows_def FT_defs)

section \<open>Properties\<close>

text \<open>
  C6: A payload that parses is within the packet size, and every frame of it is allowed in its
  context: before the handshake is over only the frames that drive the handshake, and in a
  protected packet never an authentication or handshake-data frame.
\<close>

theorem parse_payload_context_safe:
  assumes "parse_payload ctx payload = Inr p"
  shows "length payload \<le> MAX_PACKET_SIZE \<and> decode_frames payload = Inr (pp_frames p)
    \<and> (\<forall>f \<in> set (pp_frames p). case ctx of
         Protected _ \<Rightarrow> frame_type_of f \<noteq> FT_AUTH \<and> frame_type_of f \<noteq> FT_HANDSHAKE_DATA
       | _ \<Rightarrow> handshake_frame f)"
proof -
  have "length payload \<le> MAX_PACKET_SIZE" "decode_frames payload = Inr (pp_frames p)"
    and ok: "list_all (allowed_in ctx) (pp_frames p)"
    using assms by (simp_all add: parse_payload_Inr)
  moreover have "case ctx of Protected _ \<Rightarrow> frame_type_of f \<noteq> FT_AUTH \<and> frame_type_of f \<noteq> FT_HANDSHAKE_DATA
       | _ \<Rightarrow> handshake_frame f" if "f \<in> set (pp_frames p)" for f
  proof -
    have "context_allows ctx (frame_type_of f)"
      using ok that by (auto simp: list_all_iff allowed_in_def)
    then show ?thesis
      by (cases ctx) (auto simp: context_allows_handshake, auto simp: context_allows_def FT_defs)
  qed
  ultimately show ?thesis by blast
qed

theorem parse_payload_context_safe_witness:
  "parse_payload PacketContext.Initial [0x04, 0x00] =
     Inr \<lparr>pp_context = PacketContext.Initial, pp_frames = [Ping, Padding]\<rparr>
   \<and> handshake_frame Ping \<and> handshake_frame Padding"
proof -
  have p: "parse_payload PacketContext.Initial [0x04, 0x00] =
     Inr \<lparr>pp_context = PacketContext.Initial, pp_frames = [Ping, Padding]\<rparr>"
  proof -
    have "decode_frames [0x04, 0x00] = Inr [Ping, Padding]" by code_simp
    then show ?thesis by (simp add: parse_payload_def check_context_def context_allows_def)
  qed
  show ?thesis using p parse_payload_context_safe[OF p] by simp
qed

text \<open>
  Parsing fails for one of three reasons, in this order: the payload is over the packet size,
  a frame of it does not decode, or, naming its type, the first frame that is not allowed in the
  context.
\<close>

theorem parse_payload_errors:
  "parse_payload ctx payload =
     (if length payload > MAX_PACKET_SIZE then Inl TooLarge
      else case decode_frames payload of
        Inl e \<Rightarrow> Inl (FrameErr e)
      | Inr fs \<Rightarrow>
          (case find (\<lambda>f. \<not> context_allows ctx (frame_type_of f)) fs of
             Some f \<Rightarrow> Inl (ContextViolation (frame_type_of f))
           | None \<Rightarrow> Inr \<lparr>pp_context = ctx, pp_frames = fs\<rparr>))"
  by (auto simp: parse_payload_def check_all_find allowed_in_def split: sum.splits option.splits)

end
