(* ===== verification/Crypto.thy ===== *)
theory Crypto
  imports Umc_Prelude
begin

text \<open>
  \<open>crates/umc-crypto/src\<close>: HMAC and HKDF over a hash, the labelled key derivation, packet keys and
  nonces, header protection and the key discard schedule. The hash (\<open>Blake2s256::digest\<close>), the
  authenticated cipher (\<open>ChaCha20Poly1305\<close>) and the key stream (\<open>ChaCha20\<close>) are external: they are
  the parameters \<open>H\<close>, \<open>enc\<close>/\<open>dec\<close> and \<open>stream\<close> of the definitions that call them. Fixed-size arrays are byte
  lists; \<open>copy_from_slice\<close> into an array of another length panics, and is \<open>None\<close> where it can happen.
\<close>

section \<open>Model\<close>

definition BLOCK_SIZE :: nat where [simp]: "BLOCK_SIZE = 64"

definition zero_pad :: "nat \<Rightarrow> bytes \<Rightarrow> bytes" where
  "zero_pad n bs = bs @ replicate (n - length bs) 0"

definition hmac_blake2s :: "(bytes \<Rightarrow> bytes) \<Rightarrow> bytes \<Rightarrow> bytes \<Rightarrow> bytes" where
  "hmac_blake2s H key data =
     (let key_block = zero_pad BLOCK_SIZE (if length key > BLOCK_SIZE then H key else key);
          ipad = map (\<lambda>b. b XOR 0x36) key_block;
          opad = map (\<lambda>b. b XOR 0x5C) key_block;
          inner_hash = H (ipad @ data) in
      H (opad @ inner_hash))"

definition hkdf_extract :: "(bytes \<Rightarrow> bytes) \<Rightarrow> bytes \<Rightarrow> bytes \<Rightarrow> bytes" where
  "hkdf_extract H salt ikm = hmac_blake2s H salt ikm"

datatype HkdfError = LengthOutOfRange | ContextTooLong

text \<open>The loop over the counter, with the counters still to come.\<close>

primrec hkdf_expand_loop ::
    "(bytes \<Rightarrow> bytes) \<Rightarrow> bytes \<Rightarrow> bytes \<Rightarrow> nat \<Rightarrow> u8 list \<Rightarrow> bytes \<Rightarrow> bytes \<Rightarrow> bytes" where
  "hkdf_expand_loop H prk info len [] out t = out"
| "hkdf_expand_loop H prk info len (counter # counters) out t =
     (let h = hmac_blake2s H prk (t @ info @ [counter]);
          need = min (len - length out) 32;
          out = out @ take need h in
      if length out = len then out else hkdf_expand_loop H prk info len counters out h)"

definition hkdf_expand :: "(bytes \<Rightarrow> bytes) \<Rightarrow> bytes \<Rightarrow> bytes \<Rightarrow> nat \<Rightarrow> HkdfError + bytes" where
  "hkdf_expand H prk info len =
     (if len > 255 * 32 then Inl LengthOutOfRange
      else Inr (hkdf_expand_loop H prk info len (map of_nat [1..<256]) [] []))"

definition LABEL_PREFIX :: bytes where
  "LABEL_PREFIX = [0x75, 0x6D, 0x70, 0x20, 0x76, 0x31, 0x20]"

definition to_be_bytes16 :: "u16 \<Rightarrow> bytes" where
  "to_be_bytes16 v = be_bytes 2 v"

definition expand_label_info :: "bytes \<Rightarrow> bytes \<Rightarrow> nat \<Rightarrow> bytes" where
  "expand_label_info label context len =
     to_be_bytes16 (of_nat len) @ LABEL_PREFIX @ label
       @ to_be_bytes16 (of_nat (length context)) @ context"

definition expand_label ::
    "(bytes \<Rightarrow> bytes) \<Rightarrow> bytes \<Rightarrow> bytes \<Rightarrow> bytes \<Rightarrow> nat \<Rightarrow> HkdfError + bytes" where
  "expand_label H secret label context len =
     (if len > 65535 then Inl LengthOutOfRange
      else if length context > 65535 then Inl ContextTooLong
      else hkdf_expand H secret (expand_label_info label context len) len)"

text \<open>\<open>let mut next = [0u8; 32]; next.copy_from_slice(&out)\<close>.\<close>

definition copy_exact :: "nat \<Rightarrow> bytes \<Rightarrow> bytes option" where
  "copy_exact n bs = (if length bs = n then Some bs else None)"

definition label_traffic_update :: bytes where
  "label_traffic_update = map (of_nat \<circ> of_char) ''traffic update''"

definition next_traffic_secret :: "(bytes \<Rightarrow> bytes) \<Rightarrow> bytes \<Rightarrow> bytes option" where
  "next_traffic_secret H current =
     (case expand_label H current label_traffic_update [] 32 of
        Inl _ \<Rightarrow> None
      | Inr out \<Rightarrow> copy_exact 32 out)"

definition label_resumption :: bytes where
  "label_resumption = map (of_nat \<circ> of_char) ''resumption''"

definition resumption_psk :: "(bytes \<Rightarrow> bytes) \<Rightarrow> bytes \<Rightarrow> bytes \<Rightarrow> bytes option" where
  "resumption_psk H resumption_master_secret ticket_nonce =
     (case expand_label H resumption_master_secret label_resumption ticket_nonce 32 of
        Inl _ \<Rightarrow> None
      | Inr out \<Rightarrow> copy_exact 32 out)"

definition TAG_LEN :: nat where [simp]: "TAG_LEN = 16"
definition IV_LEN :: nat where [simp]: "IV_LEN = 12"

datatype AeadError = InvalidKeyLength | DecryptFailed

record PacketKeys =
  pk_key :: bytes
  pk_iv :: bytes
  pk_hp_key :: bytes

definition label_packet_key :: bytes where
  "label_packet_key = map (of_nat \<circ> of_char) ''packet key''"
definition label_packet_iv :: bytes where
  "label_packet_iv = map (of_nat \<circ> of_char) ''packet iv''"
definition label_header_protection :: bytes where
  "label_header_protection = map (of_nat \<circ> of_char) ''header protection''"

definition header_protection_key :: "(bytes \<Rightarrow> bytes) \<Rightarrow> bytes \<Rightarrow> bytes option" where
  "header_protection_key H traffic_secret =
     (case expand_label H traffic_secret label_header_protection [] 32 of
        Inl _ \<Rightarrow> Some (replicate 32 0)
      | Inr expanded \<Rightarrow> copy_exact 32 expanded)"

definition from_traffic_secret :: "(bytes \<Rightarrow> bytes) \<Rightarrow> bytes \<Rightarrow> (AeadError + PacketKeys) option" where
  "from_traffic_secret H secret =
     (case expand_label H secret label_packet_key [] 32 of
        Inl _ \<Rightarrow> Some (Inl InvalidKeyLength)
      | Inr key \<Rightarrow>
          (case expand_label H secret label_packet_iv [] IV_LEN of
             Inl _ \<Rightarrow> Some (Inl InvalidKeyLength)
           | Inr iv \<Rightarrow>
               Option.bind (copy_exact 32 key) (\<lambda>k.
               Option.bind (copy_exact IV_LEN iv) (\<lambda>iv.
               Option.bind (header_protection_key H secret) (\<lambda>hp_key.
               Some (Inr \<lparr>pk_key = k, pk_iv = iv, pk_hp_key = hp_key\<rparr>))))))"

text \<open>\<open>for (x, m) in xs.iter_mut().zip(ms) { *x ^= m }\<close>.\<close>

fun xor_zip :: "bytes \<Rightarrow> bytes \<Rightarrow> bytes" where
  "xor_zip (x # xs) (m # ms) = (x XOR m) # xor_zip xs ms"
| "xor_zip xs _ = xs"

definition nonce_for :: "PacketKeys \<Rightarrow> u64 \<Rightarrow> bytes" where
  "nonce_for keys pn =
     (let start = IV_LEN - 8 in take start (pk_iv keys) @ xor_zip (drop start (pk_iv keys)) (to_be_bytes64 pn))"

type_synonym aead_fun = "bytes \<Rightarrow> bytes \<Rightarrow> bytes \<Rightarrow> bytes \<Rightarrow> bytes option"

definition seal :: "aead_fun \<Rightarrow> PacketKeys \<Rightarrow> u64 \<Rightarrow> bytes \<Rightarrow> bytes \<Rightarrow> AeadError + bytes" where
  "seal enc keys pn aad plaintext =
     ok_or (enc (pk_key keys) (nonce_for keys pn) aad plaintext) DecryptFailed"

definition unseal :: "aead_fun \<Rightarrow> PacketKeys \<Rightarrow> u64 \<Rightarrow> bytes \<Rightarrow> bytes \<Rightarrow> AeadError + bytes" where
  "unseal dec keys pn aad ciphertext =
     ok_or (dec (pk_key keys) (nonce_for keys pn) aad ciphertext) DecryptFailed"

definition MASK_LEN :: nat where [simp]: "MASK_LEN = 5"
definition SAMPLE_LEN :: nat where [simp]: "SAMPLE_LEN = 16"

text \<open>\<open>stream key nonce position\<close>: the first five key-stream bytes from a byte position.\<close>

type_synonym stream_fun = "bytes \<Rightarrow> bytes \<Rightarrow> u64 \<Rightarrow> bytes"

definition from_le_bytes32 :: "bytes \<Rightarrow> u32" where
  "from_le_bytes32 bs = foldr (\<lambda>b v. v * 256 + ucast b) bs 0"

definition hp_mask :: "stream_fun \<Rightarrow> bytes \<Rightarrow> bytes \<Rightarrow> bytes" where
  "hp_mask stream hp_key packet_number_sample =
     (let sample = zero_pad SAMPLE_LEN (take SAMPLE_LEN packet_number_sample);
          counter = from_le_bytes32 (take 4 sample) in
      stream hp_key (drop 4 sample) (ucast counter * 64))"

definition protect ::
    "stream_fun \<Rightarrow> bytes \<Rightarrow> u8 \<Rightarrow> bytes \<Rightarrow> bytes \<Rightarrow> u8 \<times> bytes" where
  "protect stream hp_key first_byte sample packet_number =
     (let m = hp_mask stream hp_key sample in
      (first_byte XOR (m ! 4 AND 0x10), xor_zip packet_number m))"

definition unprotect ::
    "stream_fun \<Rightarrow> bytes \<Rightarrow> u8 \<Rightarrow> bytes \<Rightarrow> bytes \<Rightarrow> u8 \<times> bool \<times> bytes" where
  "unprotect stream hp_key protected_first sample protected_pn =
     (let m = hp_mask stream hp_key sample;
          pn = xor_zip protected_pn m;
          first = protected_first XOR (m ! 4 AND 0x10) in
      (first, first AND 0x10 \<noteq> 0, pn))"

record KeyDiscardSchedule =
  initial_discarded :: bool
  handshake_discarded :: bool

definition KeyDiscardSchedule_default :: KeyDiscardSchedule where
  "KeyDiscardSchedule_default = \<lparr>initial_discarded = False, handshake_discarded = False\<rparr>"

definition on_handshake_packet :: "KeyDiscardSchedule \<Rightarrow> KeyDiscardSchedule" where
  "on_handshake_packet s = s\<lparr>initial_discarded := True\<rparr>"

definition on_confirmation :: "KeyDiscardSchedule \<Rightarrow> KeyDiscardSchedule" where
  "on_confirmation s = s\<lparr>handshake_discarded := True, initial_discarded := True\<rparr>"

section \<open>Key derivation\<close>

lemma length_hmac: "(\<And>x. length (H x) = 32) \<Longrightarrow> length (hmac_blake2s H key data) = 32"
  by (simp add: hmac_blake2s_def Let_def)

lemma length_expand_loop:
  assumes "\<And>x. length (H x) = 32" "length out \<le> len" "len \<le> length out + 32 * length counters"
  shows "length (hkdf_expand_loop H prk info len counters out t) = len"
  using assms(2-)
proof (induction counters arbitrary: out t)
  case (Cons counter counters)
  let ?h = "hmac_blake2s H prk (t @ info @ [counter])"
  let ?out = "out @ take (min (len - length out) 32) ?h"
  have "length ?out = length out + min (len - length out) 32"
    using length_hmac[of H, OF assms(1)] by simp
  then show ?case using Cons.IH[of ?out ?h] Cons.prems by (auto simp: Let_def min_def)
qed simp

lemma length_hkdf_expand:
  assumes "\<And>x. length (H x) = 32" "hkdf_expand H prk info len = Inr out"
  shows "length out = len"
  using assms(2) length_expand_loop[OF assms(1), of "[]" len "map of_nat [1..<256]"]
  by (auto simp: hkdf_expand_def split: if_splits)

lemma expand_label_Inr:
  assumes "\<And>x. length (H x) = 32" "len \<le> 255 * 32" "length context \<le> 65535"
  obtains out where "expand_label H secret label context len = Inr out" "length out = len"
proof -
  have "\<exists>out. hkdf_expand H secret (expand_label_info label context len) len = Inr out"
    using assms(2) by (simp add: hkdf_expand_def)
  then obtain out where o: "hkdf_expand H secret (expand_label_info label context len) len = Inr out" ..
  show ?thesis
    using that[of out] o assms(2,3) length_hkdf_expand[OF assms(1) o] by (simp add: expand_label_def)
qed

text \<open>With a 32-byte hash no derivation panics or fails.\<close>

lemma next_traffic_secret_total:
  assumes "\<And>x. length (H x) = 32"
  obtains secret where "next_traffic_secret H current = Some secret" "length secret = 32"
  by (rule expand_label_Inr[of H 32 "[]" current label_traffic_update, OF assms])
    (auto simp: next_traffic_secret_def copy_exact_def)

lemma from_traffic_secret_total:
  assumes "\<And>x. length (H x) = 32"
  obtains keys where "from_traffic_secret H secret = Some (Inr keys)"
    "length (pk_key keys) = 32" "length (pk_iv keys) = IV_LEN" "length (pk_hp_key keys) = 32"
proof -
  obtain k where k: "expand_label H secret label_packet_key [] 32 = Inr k" "length k = 32"
    by (rule expand_label_Inr[of H 32 "[]", OF assms]) auto
  obtain iv where iv: "expand_label H secret label_packet_iv [] IV_LEN = Inr iv" "length iv = IV_LEN"
    by (rule expand_label_Inr[of H IV_LEN "[]", OF assms]) auto
  obtain hp where hp: "expand_label H secret label_header_protection [] 32 = Inr hp" "length hp = 32"
    by (rule expand_label_Inr[of H 32 "[]", OF assms]) auto
  show ?thesis
    by (rule that[of "\<lparr>pk_key = k, pk_iv = iv, pk_hp_key = hp\<rparr>"])
      (use k iv hp in \<open>simp_all add: from_traffic_secret_def header_protection_key_def copy_exact_def\<close>)
qed

text \<open>The derivations that share a secret hash different inputs.\<close>

lemma label_infos_distinct:
  "distinct [expand_label_info label_packet_key [] 32, expand_label_info label_packet_iv [] 12,
     expand_label_info label_header_protection [] 32, expand_label_info label_traffic_update [] 32]"
  by code_simp

section \<open>Masks\<close>

lemma length_xor_zip [simp]: "length (xor_zip xs ms) = length xs"
  by (induction xs ms rule: xor_zip.induct) auto

lemma xor_zip_twice [simp]: "xor_zip (xor_zip xs ms) ms = xs"
  by (induction xs ms rule: xor_zip.induct) (auto simp: xor.assoc)

lemma xor_zip_inj:
  "length xs \<ge> length ms \<Longrightarrow> length ms = length ms' \<Longrightarrow> xor_zip xs ms = xor_zip xs ms' \<Longrightarrow> ms = ms'"
proof (induction xs ms arbitrary: ms' rule: xor_zip.induct)
  case (1 x xs m ms)
  obtain m' ns where ms': "ms' = m' # ns" using 1(3) by (cases ms') auto
  have "x XOR m = x XOR m'" using 1(4) ms' by simp
  then have "x XOR (x XOR m) = x XOR (x XOR m')" by simp
  then have "m = m'" by (simp add: xor.assoc[symmetric])
  then show ?case using 1 ms' by auto
qed auto

lemma to_be_bytes64_inj: "to_be_bytes64 a = to_be_bytes64 b \<Longrightarrow> a = b"
  using be_nat_be_bytes[of 8 a] be_nat_be_bytes[of 8 b] unat_u64_less[of a] unat_u64_less[of b]
  by (simp add: to_be_bytes64_def word_unat_eq_iff)

lemma length_to_be_bytes64 [simp]: "length (to_be_bytes64 v) = 8"
  by (simp add: to_be_bytes64_def)

lemma nonce_for_inj:
  assumes "length (pk_iv keys) = IV_LEN" "nonce_for keys a = nonce_for keys b"
  shows "a = b"
proof -
  have "xor_zip (drop 4 (pk_iv keys)) (to_be_bytes64 a) = xor_zip (drop 4 (pk_iv keys)) (to_be_bytes64 b)"
    using assms(2) unfolding nonce_for_def Let_def by simp
  then have "to_be_bytes64 a = to_be_bytes64 b"
    by (rule xor_zip_inj[rotated 2]) (simp_all add: assms(1))
  then show ?thesis by (rule to_be_bytes64_inj)
qed

lemma unprotect_protect:
  assumes "protect stream hp first sample pn = (first', pn')"
  shows "unprotect stream hp first' sample pn' = (first, first AND 0x10 \<noteq> 0, pn)"
  using assms by (auto simp: protect_def unprotect_def Let_def xor.assoc)

end
