(* ===== verification/Protected_Packet.thy ===== *)
theory Protected_Packet
  imports Crypto Header Packet_Number
begin

text \<open>
  \<open>crates/umc-session/src/packet.rs\<close>: protected short-header packets. The packet is sealed over its
  plain header, and the key phase bit and the packet number are masked afterwards.
\<close>

section \<open>Model\<close>

datatype PacketBuildError = Header HeaderError | Pn PnError | Aead AeadError | TooLarge

definition peek_protected_header ::
    "bytes \<Rightarrow> PacketBuildError + ShortPacketSpace \<times> bytes \<times> u64" where
  "peek_protected_header bytes =
     bindR (ok_or (get_at bytes 0) TooLarge) (\<lambda>first.
     bindR (map_err Header (HeaderByte_decode first)) (\<lambda>hb.
     if hb_long hb then Inl (Header InvalidType)
     else
       bindR (ok_or (short_space hb) (Header InvalidSpace)) (\<lambda>space.
       bindR (ok_or (get_range bytes 1 (1 + 8)) TooLarge) (\<lambda>dcid.
       bindR (ok_or (if 1 + 8 \<le> length bytes then Some (drop (1 + 8) bytes) else None) TooLarge) (\<lambda>rest.
       bindR (map_err (\<lambda>_. TooLarge) (varint_decode rest)) (\<lambda>(path_id, _).
       Inr (space, dcid, path_id)))))))"

definition packet_header_byte :: "ShortPacketSpace \<Rightarrow> bool \<Rightarrow> HeaderByte" where
  "packet_header_byte space key_phase =
     (short_header_byte space)\<lparr>hb_key_phase := key_phase, hb_pn_bits := 16\<rparr>"

definition build_protected_packet ::
    "aead_fun \<Rightarrow> stream_fun \<Rightarrow> PacketKeys \<Rightarrow> bytes \<Rightarrow> ShortPacketSpace \<Rightarrow> bytes \<Rightarrow> u64 \<Rightarrow> u64 \<Rightarrow> bool \<Rightarrow> bytes
       \<Rightarrow> PacketBuildError + bytes" where
  "build_protected_packet enc stream keys hp_key space dcid path_id packet_number key_phase payload =
     (if length payload + 16 + 32 > 65535 then Inl TooLarge
      else
        let hb = packet_header_byte space key_phase;
            header = [HeaderByte_encode hb] @ dcid in
        bindR (map_err (\<lambda>_. TooLarge) (varint_encode_into header path_id)) (\<lambda>header.
        let pn_bytes = drop 6 (to_be_bytes64 packet_number);
            aad = header @ pn_bytes in
        bindR (map_err Aead (seal enc keys packet_number aad payload)) (\<lambda>ciphertext.
        bindR (ok_or (get_range ciphertext 0 SAMPLE_LEN) TooLarge) (\<lambda>sample.
        let (protected_first, pn_bytes) = protect stream hp_key (HeaderByte_encode hb) sample pn_bytes;
            out = header[0 := protected_first] in
        Inr (out @ pn_bytes @ ciphertext)))))"

text \<open>What follows the removal of the header protection.\<close>

definition open_unprotected ::
    "aead_fun \<Rightarrow> PacketKeys \<Rightarrow> u64 \<Rightarrow> bytes \<Rightarrow> nat \<Rightarrow> bytes \<Rightarrow> u64 \<Rightarrow> nat \<Rightarrow> u8 \<Rightarrow> bytes
       \<Rightarrow> PacketBuildError + ShortPacketSpace \<times> bytes \<times> u64 \<times> u64 \<times> bytes" where
  "open_unprotected dec keys expected_pn bytes pn_len dcid path_id pos first unprotected_pn =
     bindR (map_err Header (HeaderByte_decode first)) (\<lambda>hb.
     if hb_long hb then Inl (Header InvalidType)
     else
       bindR (ok_or (short_space hb) (Header InvalidSpace)) (\<lambda>space.
       let truncated_pn = from_be_bytes64 (replicate (8 - pn_len) 0 @ unprotected_pn) in
       bindR (map_err Pn (reconstruct truncated_pn (hb_pn_bits hb) expected_pn)) (\<lambda>pn.
       let aad = (take pos bytes)[0 := first] @ unprotected_pn;
           pos = pos + pn_len in
       bindR (map_err Aead (unseal dec keys pn aad (drop pos bytes))) (\<lambda>payload.
       Inr (space, dcid, path_id, pn, payload)))))"

definition parse_protected_packet ::
    "aead_fun \<Rightarrow> stream_fun \<Rightarrow> PacketKeys \<Rightarrow> bytes \<Rightarrow> u64 \<Rightarrow> bytes
       \<Rightarrow> PacketBuildError + ShortPacketSpace \<times> bytes \<times> u64 \<times> u64 \<times> bytes" where
  "parse_protected_packet dec stream keys hp_key expected_pn bytes =
     bindR (ok_or (get_at bytes 0) TooLarge) (\<lambda>protected_first.
     bindR (map_err Header (HeaderByte_decode protected_first)) (\<lambda>phb.
     let pn_len = unat (hb_pn_bits phb) div 8; pos = 1; dcid_len = 8 in
     bindR (ok_or (get_range bytes pos (pos + dcid_len)) TooLarge) (\<lambda>dcid.
     let pos = pos + dcid_len in
     bindR (map_err (\<lambda>_. TooLarge) (varint_decode (drop pos bytes))) (\<lambda>(path_id, n).
     let pos = pos + n in
     bindR (ok_or (get_range bytes pos (pos + pn_len)) TooLarge) (\<lambda>pn_bytes.
     bindR (ok_or (get_range bytes (pos + pn_len) (pos + pn_len + SAMPLE_LEN)) TooLarge) (\<lambda>sample.
     let (first, phase, unprotected_pn) = unprotect stream hp_key protected_first sample pn_bytes in
     open_unprotected dec keys expected_pn bytes pn_len dcid path_id pos first unprotected_pn))))))"

section \<open>The masked header byte\<close>

lemma bit_16: "bit (16 :: u8) n \<longleftrightarrow> n = 4"
proof -
  have "(16 :: u8) = 2 ^ 4" by simp
  then show ?thesis by (simp only: bit_exp_iff) auto
qed

lemma and_16: "(x :: u8) AND 16 = (if bit x 4 then 16 else 0)"
  by (rule bit_eqI) (auto simp: bit_and_iff bit_16 simp del: bit_numeral_word_iff)

lemma xor_16_masks:
  fixes b :: u8
  shows "(b XOR 16) AND 3 = b AND 3" "(b XOR 16) AND 128 = b AND 128" "(b XOR 4) AND 3 = b AND 3"
  by (simp_all add: bit.conj_xor_distrib2)

lemma decode_phase_xor:
  "HeaderByte_decode (b XOR (m AND 0x10)) =
     (case HeaderByte_decode b of
        Inl e \<Rightarrow> Inl e
      | Inr hb \<Rightarrow> Inr (hb\<lparr>hb_key_phase := (hb_key_phase hb \<noteq> flag_set m 0x10)\<rparr>))"
proof (cases "bit m 4")
  case True
  have "flag_set (b XOR 16) 16 \<longleftrightarrow> \<not> flag_set b 16"
    by (simp add: flag_set_def and_16 bit_xor_iff bit_16)
  then show ?thesis
    using True by (simp add: and_16 HeaderByte_decode_def flag_set_def xor_16_masks Let_def)
next
  case False
  then show ?thesis by (simp add: and_16 HeaderByte_decode_def flag_set_def Let_def)
qed


section \<open>Packets that are built\<close>

definition pn_low :: "u64 \<Rightarrow> bytes" where
  "pn_low pn = drop 6 (to_be_bytes64 pn)"

lemma length_pn_low [simp]: "length (pn_low pn) = 2"
  by (simp add: pn_low_def)

lemma be_nat_pn_low: "be_nat (pn_low pn) = unat pn mod 2 ^ 16"
  by (simp add: pn_low_def to_be_bytes64_def drop_be_bytes be_nat_be_bytes)

lemma from_be_pn_low: "from_be_bytes64 (replicate 6 0 @ pn_low pn) = of_nat (unat pn mod 2 ^ 16)"
proof -
  have "unat pn mod 2 ^ 16 < 2 ^ 64" using unat_u64_less[of pn] by (rule le_less_trans[OF mod_less_eq_dividend])
  then show ?thesis
    using be_nat_pn_low[of pn]
    by (simp add: word_unat_eq_iff unat_from_be_bytes64 be_nat_append unat_of_nat take_bit_nat_eq_self)
qed

text \<open>The plain header, which is the associated data of the seal.\<close>

definition plain_header :: "ShortPacketSpace \<Rightarrow> bool \<Rightarrow> bytes \<Rightarrow> u64 \<Rightarrow> u64 \<Rightarrow> bytes" where
  "plain_header space key_phase dcid path_id pn =
     HeaderByte_encode (packet_header_byte space key_phase) # dcid @ varint_bytes path_id @ pn_low pn"

lemma build_protected_packet_Inr:
  assumes "build_protected_packet enc stream keys hp_key space dcid path_id pn key_phase payload = Inr pkt"
  obtains ct first' pn' where "path_id \<le> MAX_VARINT" "SAMPLE_LEN \<le> length ct"
    "enc (pk_key keys) (nonce_for keys pn) (plain_header space key_phase dcid path_id pn) payload = Some ct"
    "protect stream hp_key (HeaderByte_encode (packet_header_byte space key_phase)) (take SAMPLE_LEN ct)
       (pn_low pn) = (first', pn')"
    "pkt = first' # dcid @ varint_bytes path_id @ pn' @ ct"
proof -
  let ?hb = "HeaderByte_encode (packet_header_byte space key_phase)"
  obtain header ct sample where h: "varint_encode_into (?hb # dcid) path_id = Inr header"
    and ct: "enc (pk_key keys) (nonce_for keys pn) (header @ pn_low pn) payload = Some ct"
    and sample: "get_range ct 0 SAMPLE_LEN = Some sample"
    and pkt: "(let (f, pnb) = protect stream hp_key ?hb sample (pn_low pn) in Inr (header[0 := f] @ pnb @ ct))
      = (Inr pkt :: PacketBuildError + bytes)"
    using assms
    by (auto simp: build_protected_packet_def seal_def pn_low_def Let_def bindR_Inr_iff split: if_splits)
  obtain f pnb where p: "protect stream hp_key ?hb sample (pn_low pn) = (f, pnb)" by fastforce
  have "sample = take SAMPLE_LEN ct" "SAMPLE_LEN \<le> length ct"
    using sample by (auto simp: get_range_def split: if_splits)
  moreover have "path_id \<le> MAX_VARINT" "header = ?hb # dcid @ varint_bytes path_id"
    using h by (auto simp: varint_encode_into_eq split: if_splits)
  ultimately show ?thesis
    using that[of ct f pnb] p pkt ct by (simp add: plain_header_def)
qed

lemma packet_header_byte_ok [simp]: "header_byte_ok (packet_header_byte space key_phase)"
  by (simp add: packet_header_byte_def)

lemma packet_header_byte_fields [simp]:
  "short_space (packet_header_byte space key_phase) = Some space"
  "hb_pn_bits (packet_header_byte space key_phase) = 16"
  "hb_long (packet_header_byte space key_phase) \<longleftrightarrow> False"
  by (cases space; simp add: packet_header_byte_def short_space_def SHORT_SESSION_def SHORT_PATH_def
      SHORT_RELAY_def)+

lemma packet_header_byte_phase [simp]:
  "(packet_header_byte space k)\<lparr>hb_key_phase := k'\<rparr> = packet_header_byte space k'"
  by (cases "short_header_byte space") (simp add: packet_header_byte_def)

lemma decode_protected_first:
  assumes "protect stream hp (HeaderByte_encode (packet_header_byte space key_phase)) sample pn = (first', pn')"
  obtains phase' where "HeaderByte_decode first' = Inr (packet_header_byte space phase')"
proof -
  have "first' = HeaderByte_encode (packet_header_byte space key_phase) XOR (hp_mask stream hp sample ! 4 AND 0x10)"
    using assms by (simp add: protect_def Let_def)
  then show ?thesis
    using that by (simp add: decode_phase_xor HeaderByte_decode_encode)
qed

lemma get_range_append:
  "get_range (pre @ xs @ post) (length pre) (length pre + length xs) = Some xs"
  by (simp add: get_range_def)


lemma parse_built:
  assumes ct: "SAMPLE_LEN \<le> length ct" and path: "path_id \<le> MAX_VARINT" and dcid: "length dcid = 8"
    and prot: "protect stream hp_key (HeaderByte_encode (packet_header_byte space key_phase))
      (take SAMPLE_LEN ct) (pn_low pn) = (first', pn')"
    and rec: "reconstruct (of_nat (unat pn mod 2 ^ 16)) 16 expected = Inr pn"
    and dec: "dec (pk_key keys) (nonce_for keys pn) (plain_header space key_phase dcid path_id pn) ct = Some payload"
  shows "parse_protected_packet dec stream keys hp_key expected (first' # dcid @ varint_bytes path_id @ pn' @ ct)
    = Inr (space, dcid, path_id, pn, payload)"
proof -
  let ?b = "first' # dcid @ varint_bytes path_id @ pn' @ ct" and ?v = "varint_bytes path_id"
  obtain phase' where first: "HeaderByte_decode first' = Inr (packet_header_byte space phase')"
    by (rule decode_protected_first[OF prot])
  have pn': "length pn' = 2" using prot by (auto simp: protect_def Let_def)
  have vd: "varint_decode (?v @ pn' @ ct) = Inr (path_id, length ?v)"
    using path by (simp add: varint_decode_iff)
  have r: "get_range ?b 1 (1 + 8) = Some dcid" using dcid get_range_append[of "[first']" dcid] by simp
  have rp: "get_range ?b (1 + 8 + length ?v) (1 + 8 + length ?v + 2) = Some pn'"
    using dcid pn' get_range_append[of "first' # dcid @ ?v" pn' ct] by simp
  have rs: "get_range ?b (1 + 8 + length ?v + 2) (1 + 8 + length ?v + 2 + SAMPLE_LEN) = Some (take SAMPLE_LEN ct)"
    using dcid pn' ct get_range_append[of "first' # dcid @ ?v @ pn'" "take SAMPLE_LEN ct" "drop SAMPLE_LEN ct"]
    by simp
  have aad: "(take (1 + 8 + length ?v) ?b)[0 := HeaderByte_encode (packet_header_byte space key_phase)] @ pn_low pn
      = plain_header space key_phase dcid path_id pn"
  proof -
    have "1 + 8 + length ?v = Suc (length dcid + length ?v)" using dcid by simp
    then show ?thesis by (simp only: take_Suc_Cons) (simp add: plain_header_def)
  qed
  have d: "drop (1 + 8) ?b = ?v @ pn' @ ct" "drop (1 + 8 + length ?v + 2) ?b = ct"
  proof -
    have "1 + 8 + length ?v + 2 = Suc (length dcid + (length ?v + length pn'))" using dcid pn' by simp
    then show "drop (1 + 8 + length ?v + 2) ?b = ct" by (simp only: drop_Suc_Cons) simp
  qed (use dcid in simp)
  have g: "get_at ?b 0 = Some first'" by (simp add: get_at_def)
  have n2: "unat (16 :: u32) div 8 = 2" by simp
  show ?thesis
    unfolding parse_protected_packet_def open_unprotected_def g ok_or_Some bindR.simps first map_err.simps Let_def n2 r d(1) vd
      prod.case rp rs unprotect_protect[OF prot] HeaderByte_decode_encode[OF packet_header_byte_ok]
      packet_header_byte_fields aad d(2)
    using rec dec by (simp add: from_be_pn_low unseal_def)
qed


lemma packet_head:
  assumes "get_at pkt 0 = Some pf" "get_range pkt 1 9 = Some dcid" "varint_decode (drop 9 pkt) = Inr (path_id, n)"
  shows "take (9 + n) pkt = pf # dcid @ varint_bytes path_id" "length dcid = 8"
    "n = length (varint_bytes path_id)"
proof -
  have n: "n = length (varint_bytes path_id)" "drop 9 pkt = varint_bytes path_id @ drop n (drop 9 pkt)"
    using assms(3)[unfolded varint_decode_iff] by blast+
  have dcid: "drop 1 pkt = dcid @ drop 9 pkt" "length dcid = 8"
    using assms(2) get_range_Some_drop[OF assms(2)] by (auto simp: get_range_def split: if_splits)
  obtain rest where "drop 9 pkt = varint_bytes path_id @ rest" using n(2) by (rule that)
  then have pkt: "pkt = pf # dcid @ varint_bytes path_id @ rest"
    using get_at_Some_drop[OF assms(1)] dcid(1) by simp
  have "9 + n = Suc (length dcid + length (varint_bytes path_id))" using n(1) dcid(2) by simp
  then show "take (9 + n) pkt = pf # dcid @ varint_bytes path_id"
    unfolding pkt by (simp only: take_Suc_Cons) simp
  show "length dcid = 8" "n = length (varint_bytes path_id)" by fact+
qed

lemma open_unprotected_fields:
  "open_unprotected dec keys expected pkt k dcid path_id pos first upn = Inr (space, dcid', path_id', pn, payload)
     \<Longrightarrow> dcid' = dcid \<and> path_id' = path_id"
  by (auto simp: open_unprotected_def Let_def bindR_Inr_iff split: if_splits)

lemma parse_protected_packet_Inr:
  assumes "parse_protected_packet dec stream keys hp_key expected pkt = Inr (space, dcid, path_id, pn, payload)"
  obtains pf phb n pn_bytes sample
    where "get_at pkt 0 = Some pf" "HeaderByte_decode pf = Inr phb"
    and "get_range pkt 1 9 = Some dcid" and "varint_decode (drop 9 pkt) = Inr (path_id, n)"
    and "get_range pkt (9 + n) (9 + n + unat (hb_pn_bits phb) div 8) = Some pn_bytes"
    and "get_range pkt (9 + n + unat (hb_pn_bits phb) div 8) (9 + n + unat (hb_pn_bits phb) div 8 + SAMPLE_LEN)
      = Some sample"
    and "open_unprotected dec keys expected pkt (unat (hb_pn_bits phb) div 8) dcid path_id (9 + n)
        (fst (unprotect stream hp_key pf sample pn_bytes)) (snd (snd (unprotect stream hp_key pf sample pn_bytes)))
      = Inr (space, dcid, path_id, pn, payload)"
  using assms
  by (auto simp: parse_protected_packet_def Let_def bindR_Inr_iff case_prod_beta)
    (frule open_unprotected_fields, blast)

lemma protect_unprotect:
  "protect stream hp (fst (unprotect stream hp first sample pn)) sample
     (snd (snd (unprotect stream hp first sample pn))) = (first, pn)"
  by (simp add: protect_def unprotect_def Let_def xor.assoc)

text \<open>The fields a packet is read from, put together again.\<close>

lemma packet_parts:
  assumes "take (9 + n) pkt = h" "length h = 9 + n" "get_range pkt (9 + n) (9 + n + k) = Some pn_bytes"
    "get_range pkt (9 + n + k) (9 + n + k + SAMPLE_LEN) = Some sample"
  shows "pkt = h @ pn_bytes @ drop (9 + n + k) pkt" "sample = take SAMPLE_LEN (drop (9 + n + k) pkt)"
    "length pn_bytes = k"
proof -
  have "pkt = take (9 + n) pkt @ take k (drop (9 + n) pkt) @ drop k (drop (9 + n) pkt)"
    by (metis append_take_drop_id)
  moreover have pb: "pn_bytes = take k (drop (9 + n) pkt)" "9 + n + k \<le> length pkt"
    using assms(3) by (auto simp: get_range_def split: if_splits)
  ultimately show "pkt = h @ pn_bytes @ drop (9 + n + k) pkt"
    using assms(1) by (simp add: add.commute add.left_commute)
  show "length pn_bytes = k" using pb by simp
  show "sample = take SAMPLE_LEN (drop (9 + n + k) pkt)"
    using assms(4) by (auto simp: get_range_def split: if_splits)
qed

text \<open>A packet that was built is parsed back by a receiver that expects a number less than \<open>2 ^ 15\<close> away.\<close>

lemma parse_build:
  assumes "build_protected_packet enc stream keys hp_key space dcid path_id pn key_phase payload = Inr pkt"
    and "\<And>k n aad p c. enc k n aad p = Some c \<Longrightarrow> dec k n aad c = Some p"
    and "length dcid = 8"
    and "unat expected + 2 ^ 15 < 2 ^ 62"
    and "unat expected < unat pn + 2 ^ 15" and "unat pn < unat expected + 2 ^ 15"
  shows "parse_protected_packet dec stream keys hp_key expected pkt = Inr (space, dcid, path_id, pn, payload)"
proof -
  obtain ct first' pn' where b: "path_id \<le> MAX_VARINT" "SAMPLE_LEN \<le> length ct"
    "enc (pk_key keys) (nonce_for keys pn) (plain_header space key_phase dcid path_id pn) payload = Some ct"
    and p: "protect stream hp_key (HeaderByte_encode (packet_header_byte space key_phase)) (take SAMPLE_LEN ct)
       (pn_low pn) = (first', pn')"
    and pkt: "pkt = first' # dcid @ varint_bytes path_id @ pn' @ ct"
    by (rule build_protected_packet_Inr[OF assms(1)])
  have "reconstruct (of_nat (unat pn mod 2 ^ unat (16 :: u32))) 16 expected = Inr pn"
    by (rule reconstruct_back) (use assms(4-6) in simp_all)
  then show ?thesis
    unfolding pkt using b assms(2,3) by (intro parse_built[OF _ _ _ p]) simp_all
qed

section \<open>Properties\<close>

text \<open>
  C13: Protected packets round trip. With a cipher whose decryption undoes its encryption, a packet
  that was built is parsed back to its space, connection id, path, packet number and payload by a
  receiver that holds the keys and expects a packet number less than \<open>2 ^ 15\<close> away; a router without
  the keys reads the same space, connection id and path from it.
\<close>

theorem protected_packet_round_trip:
  assumes "build_protected_packet enc stream keys hp_key space dcid path_id pn key_phase payload = Inr pkt"
    and "\<And>k n aad p c. enc k n aad p = Some c \<Longrightarrow> dec k n aad c = Some p"
    and "length dcid = 8"
    and "unat expected + 2 ^ 15 < 2 ^ 62"
    and "unat expected < unat pn + 2 ^ 15" and "unat pn < unat expected + 2 ^ 15"
  shows "parse_protected_packet dec stream keys hp_key expected pkt = Inr (space, dcid, path_id, pn, payload)
    \<and> peek_protected_header pkt = Inr (space, dcid, path_id)"
proof -
  obtain ct first' pn' where b: "path_id \<le> MAX_VARINT" "SAMPLE_LEN \<le> length ct"
    "enc (pk_key keys) (nonce_for keys pn) (plain_header space key_phase dcid path_id pn) payload = Some ct"
    and p: "protect stream hp_key (HeaderByte_encode (packet_header_byte space key_phase)) (take SAMPLE_LEN ct)
       (pn_low pn) = (first', pn')"
    and pkt: "pkt = first' # dcid @ varint_bytes path_id @ pn' @ ct"
    by (rule build_protected_packet_Inr[OF assms(1)])
  have parse: "parse_protected_packet dec stream keys hp_key expected pkt = Inr (space, dcid, path_id, pn, payload)"
    by (rule parse_build[OF assms])
  obtain phase' where "HeaderByte_decode first' = Inr (packet_header_byte space phase')"
    by (rule decode_protected_first[OF p])
  moreover have "varint_decode (varint_bytes path_id @ pn' @ ct) = Inr (path_id, length (varint_bytes path_id))"
    using b(1) by (simp add: varint_decode_iff)
  ultimately have "peek_protected_header pkt = Inr (space, dcid, path_id)"
    using assms(3) get_range_append[of "[first']" dcid "varint_bytes path_id @ pn' @ ct"]
    by (simp add: peek_protected_header_def pkt get_at_def)
  with parse show ?thesis ..
qed

text \<open>A cipher that appends an empty tag and a key stream of zeros, to instantiate the parameters.\<close>

definition plain_enc :: aead_fun where
  "plain_enc k n aad p = Some (p @ replicate 16 0)"

definition plain_dec :: aead_fun where
  "plain_dec k n aad c = (if length c < 16 then None else Some (take (length c - 16) c))"

definition zero_stream :: stream_fun where
  "zero_stream k n pos = replicate 5 0"


theorem protected_packet_round_trip_witness:
  "\<exists>pkt. build_protected_packet plain_enc zero_stream \<lparr>pk_key = [], pk_iv = replicate 12 0, pk_hp_key = []\<rparr> []
      PathControl (replicate 8 7) 5 70000 True [1, 2, 3] = Inr pkt
    \<and> parse_protected_packet plain_dec zero_stream \<lparr>pk_key = [], pk_iv = replicate 12 0, pk_hp_key = []\<rparr> []
      69000 pkt = Inr (PathControl, replicate 8 7, 5, 70000, [1, 2, 3])"
proof -
  let ?k = "\<lparr>pk_key = [], pk_iv = replicate 12 0, pk_hp_key = []\<rparr>"
  obtain pkt where b: "build_protected_packet plain_enc zero_stream ?k [] PathControl (replicate 8 7) 5 70000 True [1, 2, 3] = Inr pkt"
    by (simp add: build_protected_packet_def seal_def plain_enc_def varint_encode_into_eq MAX_VARINT_def
        get_range_def protect_def Let_def)
  have "plain_dec k n aad c = Some p" if "plain_enc k n aad p = Some c" for k n aad p c
    using that by (auto simp: plain_enc_def plain_dec_def)
  from protected_packet_round_trip[OF b, where dec = plain_dec and expected = 69000, OF this] b
  show ?thesis by auto
qed

text \<open>
  C26: Header fields are authenticated. Whenever a packet parses, it is exactly the protected form of
  one plain header and the ciphertext behind it: the connection id and the path stand in it as
  returned, and its first byte and its packet-number bytes are those of the plain header under the
  mask of that ciphertext. That plain header encodes the space returned, its packet-number bytes
  reconstruct to the number returned, and the ciphertext was opened under the nonce of that number
  with the whole plain header, unmasked, as associated data.
\<close>

theorem protected_packet_authenticated:
  assumes "parse_protected_packet dec stream keys hp_key expected pkt = Inr (space, dcid, path_id, pn, payload)"
  shows "\<exists>hb pn_bytes ct first' pn'.
    pkt = first' # dcid @ varint_bytes path_id @ pn' @ ct
    \<and> protect stream hp_key (HeaderByte_encode hb) (take SAMPLE_LEN ct) pn_bytes = (first', pn')
    \<and> length dcid = 8 \<and> header_byte_ok hb \<and> short_space hb = Some space
    \<and> length pn_bytes = unat (hb_pn_bits hb) div 8
    \<and> reconstruct (from_be_bytes64 (replicate (8 - length pn_bytes) 0 @ pn_bytes)) (hb_pn_bits hb) expected = Inr pn
    \<and> dec (pk_key keys) (nonce_for keys pn)
        (HeaderByte_encode hb # dcid @ varint_bytes path_id @ pn_bytes) ct = Some payload"
proof -
  obtain pf phb n pn' sample
    where g: "get_at pkt 0 = Some pf" "HeaderByte_decode pf = Inr phb"
    and dcid: "get_range pkt 1 9 = Some dcid" and v: "varint_decode (drop 9 pkt) = Inr (path_id, n)"
    and pb: "get_range pkt (9 + n) (9 + n + unat (hb_pn_bits phb) div 8) = Some pn'"
    and sm: "get_range pkt (9 + n + unat (hb_pn_bits phb) div 8) (9 + n + unat (hb_pn_bits phb) div 8 + SAMPLE_LEN)
      = Some sample"
    and "open": "open_unprotected dec keys expected pkt (unat (hb_pn_bits phb) div 8) dcid path_id (9 + n)
        (fst (unprotect stream hp_key pf sample pn')) (snd (snd (unprotect stream hp_key pf sample pn')))
      = Inr (space, dcid, path_id, pn, payload)"
    by (rule parse_protected_packet_Inr[OF assms])
  define first upn ct where "first = fst (unprotect stream hp_key pf sample pn')"
    and "upn = snd (snd (unprotect stream hp_key pf sample pn'))"
    and "ct = drop (9 + n + unat (hb_pn_bits phb) div 8) pkt"
  obtain hb where hb: "HeaderByte_decode first = Inr hb" "short_space hb = Some space"
    and pn: "reconstruct (from_be_bytes64 (replicate (8 - unat (hb_pn_bits phb) div 8) 0 @ upn)) (hb_pn_bits hb) expected = Inr pn"
    and d: "dec (pk_key keys) (nonce_for keys pn) ((take (9 + n) pkt)[0 := first] @ upn) ct = Some payload"
    using "open"[folded first_def upn_def]
    by (auto simp: open_unprotected_def Let_def bindR_Inr_iff unseal_def ct_def split: if_splits)
  have bits: "hb_pn_bits hb = hb_pn_bits phb"
    using hb(1) g(2) by (auto simp: first_def unprotect_def Let_def decode_phase_xor)
  have head: "take (9 + n) pkt = pf # dcid @ varint_bytes path_id" "length dcid = 8" "n = length (varint_bytes path_id)"
    by (rule packet_head[OF g(1) dcid v])+
  have parts: "pkt = (pf # dcid @ varint_bytes path_id) @ pn' @ ct" "sample = take SAMPLE_LEN ct"
    "length pn' = unat (hb_pn_bits phb) div 8"
    unfolding ct_def by (rule packet_parts[OF head(1) _ pb sm], simp add: head(2,3))+
  have ok: "header_byte_ok hb" "HeaderByte_encode hb = first" using HeaderByte_encode_decode[OF hb(1)] by auto
  have "protect stream hp_key first (take SAMPLE_LEN ct) upn = (pf, pn')" "length upn = length pn'"
    unfolding parts(2)[symmetric] first_def upn_def
    by (simp_all add: protect_unprotect) (simp add: unprotect_def Let_def)
  then show ?thesis
    using hb(2) pn d bits head ok parts
    by (intro exI[of _ hb] exI[of _ upn] exI[of _ ct] exI[of _ pf] exI[of _ pn']) simp
qed

text \<open>A mask of ones, so that the first byte and the packet number do change on the way.\<close>

theorem protected_packet_authenticated_witness:
  "let hb = packet_header_byte PathControl True; ct = [1, 2, 3] @ replicate 16 0;
       keys = \<lparr>pk_key = [], pk_iv = replicate 12 0, pk_hp_key = []\<rparr>;
       pkt = (HeaderByte_encode hb XOR 0x10) # replicate 8 7 @ varint_bytes 5 @ [0xEE, 0x8F] @ ct in
    \<exists>hb' pn_bytes ct' first' pn'.
      pkt = first' # replicate 8 7 @ varint_bytes 5 @ pn' @ ct'
      \<and> protect (\<lambda>_ _ _. replicate 16 0xFF) [] (HeaderByte_encode hb') (take SAMPLE_LEN ct') pn_bytes
          = (first', pn')
      \<and> short_space hb' = Some PathControl
      \<and> plain_dec [] (nonce_for keys 70000)
          (HeaderByte_encode hb' # replicate 8 7 @ varint_bytes 5 @ pn_bytes) ct' = Some [1, 2, 3]"
proof -
  let ?k = "\<lparr>pk_key = [], pk_iv = replicate 12 0, pk_hp_key = []\<rparr>" and ?ct = "[1, 2, 3] @ replicate 16 0 :: bytes"
  let ?st = "\<lambda>_ _ _. replicate 16 0xFF" and ?hb = "HeaderByte_encode (packet_header_byte PathControl True)"
  have p: "protect ?st [] ?hb (take SAMPLE_LEN ?ct) (pn_low 70000) = (?hb XOR 0x10, [0xEE, 0x8F])"
    by code_simp
  have "reconstruct (of_nat (unat (70000 :: u64) mod 2 ^ unat (16 :: u32))) 16 69000 = Inr 70000"
    by (rule reconstruct_back) simp_all
  then have "parse_protected_packet plain_dec ?st ?k [] 69000
      ((?hb XOR 0x10) # replicate 8 7 @ varint_bytes 5 @ [0xEE, 0x8F] @ ?ct)
      = Inr (PathControl, replicate 8 7, 5, 70000, [1, 2, 3])"
    by (intro parse_built[OF _ _ _ p]) (simp_all add: MAX_VARINT_def plain_dec_def)
  from protected_packet_authenticated[OF this] show ?thesis
    unfolding Let_def PacketKeys.select_convs by blast
qed

text \<open>
  Nonces follow packet numbers: under one set of keys two packets are sealed with the same nonce
  only when they have the same packet number.
\<close>

theorem nonce_unique:
  assumes "length (pk_iv keys) = IV_LEN"
  shows "nonce_for keys a = nonce_for keys b \<longleftrightarrow> a = b"
  using nonce_for_inj[OF assms] by blast

theorem nonce_unique_witness:
  "nonce_for \<lparr>pk_key = [], pk_iv = replicate 12 1, pk_hp_key = []\<rparr> 1 \<noteq>
   nonce_for \<lparr>pk_key = [], pk_iv = replicate 12 1, pk_hp_key = []\<rparr> 2"
  using nonce_unique[of "\<lparr>pk_key = [], pk_iv = replicate 12 1, pk_hp_key = []\<rparr>" 1 2] by simp

end
