(* ===== verification/Session_Cid.thy ===== *)
theory Session_Cid
  imports Session_Ack
begin

text \<open>
  \<open>crates/umc-session/src/cid.rs\<close>: issuing, retiring and pruning connection ids. The entropy source
  is external: \<open>fill\<close> takes its state and a length and gives bytes and the next state.
\<close>

section \<open>Model\<close>

definition MIN_CID_LEN :: nat where [simp]: "MIN_CID_LEN = 1"
definition MAX_CID_LEN :: nat where [simp]: "MAX_CID_LEN = 20"
definition DEFAULT_ACTIVE_LIMIT :: u64 where "DEFAULT_ACTIVE_LIMIT = 4"
definition RESET_TOKEN_LEN :: nat where [simp]: "RESET_TOKEN_LEN = 16"
definition PRUNE_RETIRED_ALLOWANCE :: nat where [simp]: "PRUNE_RETIRED_ALLOWANCE = 8"
definition EXPIRY_BUDGET_MS :: u64 where "EXPIRY_BUDGET_MS = 3000"

record ConnectionId =
  cid_sequence :: u64
  cid_bytes :: bytes
  cid_reset_token :: bytes
  cid_retired :: bool

record ConnectionIdManager =
  cim_active_limit :: u64
  cim_issued :: "ConnectionId list"
  cim_next_sequence :: u64

type_synonym 'e entropy = "'e \<Rightarrow> nat \<Rightarrow> bytes \<times> 'e"

definition ConnectionIdManager_new :: "u64 \<Rightarrow> ConnectionIdManager" where
  "ConnectionIdManager_new active_limit =
     \<lparr>cim_active_limit = max active_limit 2, cim_issued = [], cim_next_sequence = 0\<rparr>"

definition cid_active :: "ConnectionIdManager \<Rightarrow> ConnectionId list" where
  "cid_active m = filter (\<lambda>c. \<not> cid_retired c) (cim_issued m)"

definition active_count :: "ConnectionIdManager \<Rightarrow> nat" where
  "active_count m = length (filter (\<lambda>c. \<not> cid_retired c) (cim_issued m))"

definition cid_issue ::
    "'e entropy \<Rightarrow> 'e \<Rightarrow> ConnectionIdManager \<Rightarrow> nat \<Rightarrow> ConnectionId option \<times> ConnectionIdManager \<times> 'e" where
  "cid_issue fill e m len =
     (if \<not> (MIN_CID_LEN \<le> len \<and> len \<le> MAX_CID_LEN) then (None, m, e)
      else if active_count m \<ge> unat (cim_active_limit m) then (None, m, e)
      else
        let (bytes, e) = fill e len;
            (reset_token, e) = fill e RESET_TOKEN_LEN;
            cid = \<lparr>cid_sequence = cim_next_sequence m, cid_bytes = bytes,
                   cid_reset_token = reset_token, cid_retired = False\<rparr> in
        (Some cid,
         m\<lparr>cim_next_sequence := cim_next_sequence m + 1, cim_issued := cim_issued m @ [cid]\<rparr>, e))"

text \<open>\<open>iter_mut().find(..)\<close>: the first match is marked.\<close>

fun retire_first :: "u64 \<Rightarrow> ConnectionId list \<Rightarrow> bool \<times> ConnectionId list" where
  "retire_first sequence [] = (False, [])"
| "retire_first sequence (c # cs) =
     (if cid_sequence c = sequence then (True, c\<lparr>cid_retired := True\<rparr> # cs)
      else let (found, cs) = retire_first sequence cs in (found, c # cs))"

definition cid_retire :: "ConnectionIdManager \<Rightarrow> u64 \<Rightarrow> bool \<times> ConnectionIdManager" where
  "cid_retire m sequence =
     (let (found, issued) = retire_first sequence (cim_issued m) in (found, m\<lparr>cim_issued := issued\<rparr>))"

fun retire_below :: "u64 \<Rightarrow> ConnectionId list \<Rightarrow> nat \<Rightarrow> ConnectionId list \<times> nat" where
  "retire_below bound [] n = ([], n)"
| "retire_below bound (c # cs) n =
     (if \<not> cid_retired c \<and> cid_sequence c < bound
      then let (cs, n) = retire_below bound cs (n + 1) in (c\<lparr>cid_retired := True\<rparr> # cs, n)
      else let (cs, n) = retire_below bound cs n in (c # cs, n))"

definition retire_prior_to :: "ConnectionIdManager \<Rightarrow> u64 \<Rightarrow> nat \<times> ConnectionIdManager" where
  "retire_prior_to m bound =
     (let (issued, n) = retire_below bound (cim_issued m) 0 in (n, m\<lparr>cim_issued := issued\<rparr>))"

definition reset_token_for :: "ConnectionIdManager \<Rightarrow> u64 \<Rightarrow> bytes option" where
  "reset_token_for m sequence =
     map_option cid_reset_token (find (\<lambda>c. cid_sequence c = sequence) (cim_issued m))"

definition retained_count :: "ConnectionIdManager \<Rightarrow> nat" where
  "retained_count m = length (cim_issued m)"

definition prune :: "ConnectionIdManager \<Rightarrow> ConnectionIdManager" where
  "prune m =
     (let keep_retired =
        map cid_sequence (take PRUNE_RETIRED_ALLOWANCE (rev (filter cid_retired (cim_issued m)))) in
      m\<lparr>cim_issued :=
         filter (\<lambda>c. \<not> cid_retired c \<or> cid_sequence c \<in> set keep_retired) (cim_issued m)\<rparr>)"

definition record_expiry_budget :: "ConnectionIdManager \<Rightarrow> Duration" where
  "record_expiry_budget m = EXPIRY_BUDGET_MS"

section \<open>Runs\<close>

datatype CidOp = Issue nat | Retire u64 | RetirePrior u64 | Prune

text \<open>A run of the manager with the ids it hands out.\<close>

fun cid_run ::
    "'e entropy \<Rightarrow> 'e \<Rightarrow> ConnectionIdManager \<Rightarrow> CidOp list \<Rightarrow> ConnectionId list \<times> ConnectionIdManager" where
  "cid_run fill e m [] = ([], m)"
| "cid_run fill e m (Issue len # ops) =
     (case cid_issue fill e m len of
        (Some cid, m', e') \<Rightarrow> let (cids, m'') = cid_run fill e' m' ops in (cid # cids, m'')
      | (None, m', e') \<Rightarrow> cid_run fill e' m' ops)"
| "cid_run fill e m (Retire sequence # ops) = cid_run fill e (snd (cid_retire m sequence)) ops"
| "cid_run fill e m (RetirePrior bound # ops) = cid_run fill e (snd (retire_prior_to m bound)) ops"
| "cid_run fill e m (Prune # ops) = cid_run fill e (prune m) ops"

text \<open>
  The sequence numbers on record ascend and lie below the next one, no more ids are active than the
  limit allows, and every id and token has a legal length.
\<close>

definition cids_ok :: "ConnectionId list \<Rightarrow> nat \<Rightarrow> bool" where
  "cids_ok cs n \<longleftrightarrow> sorted_wrt (<) (map (unat \<circ> cid_sequence) cs)
     \<and> list_all (\<lambda>c. unat (cid_sequence c) < n \<and> MIN_CID_LEN \<le> length (cid_bytes c)
          \<and> length (cid_bytes c) \<le> MAX_CID_LEN \<and> length (cid_reset_token c) = RESET_TOKEN_LEN) cs"

definition cim_inv :: "ConnectionIdManager \<Rightarrow> nat \<Rightarrow> bool" where
  "cim_inv m n \<longleftrightarrow> n < 2 ^ 64 \<and> cim_next_sequence m = of_nat n \<and> cids_ok (cim_issued m) n
     \<and> active_count m \<le> unat (cim_active_limit m)"

text \<open>Retiring keeps everything of an id but its mark, which is only ever set.\<close>

definition retires :: "ConnectionId list \<Rightarrow> ConnectionId list \<Rightarrow> bool" where
  "retires cs cs' \<longleftrightarrow>
     list_all2 (\<lambda>c c'. c' = c \<or> c' = c\<lparr>cid_retired := True\<rparr>) cs cs'"

lemma retires_refl: "retires cs cs"
  by (simp add: retires_def list_all2_refl)

lemma retire_first_retires: "retire_first s cs = (found, cs') \<Longrightarrow> retires cs cs'"
  by (induction s cs arbitrary: found cs' rule: retire_first.induct)
    (auto simp: retires_def list_all2_refl split: if_splits prod.splits)

lemma retire_below_retires: "retire_below s cs n = (cs', n') \<Longrightarrow> retires cs cs'"
  by (induction s cs n arbitrary: cs' n' rule: retire_below.induct)
    (auto simp: retires_def split: if_splits prod.splits)

lemma retires_sequences: "retires cs cs' \<Longrightarrow> map cid_sequence cs' = map cid_sequence cs"
  unfolding retires_def by (induction rule: list_all2_induct) auto

lemma retires_ok: "retires cs cs' \<Longrightarrow> cids_ok cs n \<Longrightarrow> cids_ok cs' n"
proof -
  assume r: "retires cs cs'" and ok: "cids_ok cs n"
  have "map (unat \<circ> cid_sequence) cs' = map (unat \<circ> cid_sequence) cs"
    using retires_sequences[OF r] by (metis map_map)
  moreover have "list_all (\<lambda>c. unat (cid_sequence c) < n \<and> MIN_CID_LEN \<le> length (cid_bytes c)
          \<and> length (cid_bytes c) \<le> MAX_CID_LEN \<and> length (cid_reset_token c) = RESET_TOKEN_LEN) cs'"
    using r ok unfolding retires_def cids_ok_def by (induction rule: list_all2_induct) auto
  ultimately show ?thesis using ok by (simp add: cids_ok_def)
qed

lemma retires_active:
  "retires cs cs' \<Longrightarrow> length (filter (\<lambda>c. \<not> cid_retired c) cs') \<le> length (filter (\<lambda>c. \<not> cid_retired c) cs)"
  unfolding retires_def by (induction rule: list_all2_induct) auto

lemma retires_inv:
  "cim_inv m n \<Longrightarrow> retires (cim_issued m) cs \<Longrightarrow> cim_inv (m\<lparr>cim_issued := cs\<rparr>) n"
  using retires_ok[of "cim_issued m" cs n] retires_active[of "cim_issued m" cs]
  by (simp add: cim_inv_def active_count_def)

lemma cid_retire_inv: "cim_inv m n \<Longrightarrow> cim_inv (snd (cid_retire m s)) n"
  using retire_first_retires[of s "cim_issued m"]
  by (auto simp: cid_retire_def intro: retires_inv split: prod.splits)

lemma retire_prior_to_inv: "cim_inv m n \<Longrightarrow> cim_inv (snd (retire_prior_to m b)) n"
  using retire_below_retires[of b "cim_issued m" 0]
  by (auto simp: retire_prior_to_def intro: retires_inv split: prod.splits)

lemma retire_below_sorted:
  "retire_below b cs k = (cs', k') \<Longrightarrow>
   cs' = map (\<lambda>c. if cid_sequence c < b then c\<lparr>cid_retired := True\<rparr> else c) cs"
proof (induction b cs k arbitrary: cs' k' rule: retire_below.induct)
  case (2 b c cs k)
  have "c\<lparr>cid_retired := True\<rparr> = c" if "cid_retired c" using that by (cases c) simp
  then show ?case using 2 by (auto split: if_splits prod.splits)
qed simp

lemma filter_cids_ok: "cids_ok cs n \<Longrightarrow> cids_ok (filter P cs) n"
  by (auto simp: cids_ok_def sorted_wrt_map list_all_iff intro: sorted_wrt_filter)

lemma prune_active: "filter (\<lambda>c. \<not> cid_retired c) (cim_issued (prune m)) = cid_active m"
  by (auto simp: prune_def Let_def cid_active_def intro: filter_cong)

lemma prune_inv: "cim_inv m n \<Longrightarrow> cim_inv (prune m) n"
proof -
  assume m: "cim_inv m n"
  have "active_count (prune m) = active_count m"
    using prune_active[of m] by (simp add: active_count_def cid_active_def)
  with m show ?thesis by (simp add: cim_inv_def prune_def Let_def filter_cids_ok)
qed

text \<open>With distinct sequence numbers, pruning keeps exactly the newest retired ids.\<close>

lemma cids_ok_distinct: "cids_ok cs n \<Longrightarrow> distinct (map cid_sequence cs)"
proof -
  assume "cids_ok cs n"
  then have "distinct (map (unat \<circ> cid_sequence) cs)"
    by (auto simp: cids_ok_def strict_sorted_iff)
  then show ?thesis by (simp add: distinct_map inj_on_def)
qed

lemma filter_drop_keys:
  assumes "distinct (map f xs)"
  shows "filter (\<lambda>x. f x \<in> f ` set (drop k xs)) xs = drop k xs"
proof -
  have "f x \<notin> f ` set (drop k xs)" if "x \<in> set (take k xs)" for x
  proof
    assume "f x \<in> f ` set (drop k xs)"
    then obtain y where "y \<in> set (drop k xs)" "f y = f x" by auto
    moreover from this that assms have "y = x"
      by (auto simp: distinct_map inj_on_def dest: in_set_takeD in_set_dropD)
    ultimately show False using that assms
      by (metis IntI append_take_drop_id distinct_append distinct_map empty_iff)
  qed
  then have "filter (\<lambda>x. f x \<in> f ` set (drop k xs)) (take k xs) = []"
    by (auto simp: filter_empty_conv)
  moreover have "filter (\<lambda>x. f x \<in> f ` set (drop k xs)) (drop k xs) = drop k xs"
    by (simp add: filter_id_conv)
  ultimately show ?thesis by (metis append_Nil append_take_drop_id filter_append)
qed

lemma prune_retired:
  assumes "cim_inv m n"
  shows "filter cid_retired (cim_issued (prune m)) =
     drop (length (filter cid_retired (cim_issued m)) - PRUNE_RETIRED_ALLOWANCE)
       (filter cid_retired (cim_issued m))"
proof -
  let ?r = "filter cid_retired (cim_issued m)"
  have "cids_ok ?r n" using assms filter_cids_ok by (auto simp: cim_inv_def)
  then have d: "distinct (map cid_sequence ?r)" by (rule cids_ok_distinct)
  have "filter cid_retired (cim_issued (prune m)) =
      filter (\<lambda>c. cid_sequence c \<in> cid_sequence ` set (drop (length ?r - 8) ?r)) ?r"
    by (auto simp: prune_def Let_def take_rev intro!: filter_cong)
  with filter_drop_keys[OF d] show ?thesis by simp
qed

lemma partition_length: "length xs = length (filter P xs) + length (filter (\<lambda>x. \<not> P x) xs)"
  by (induction xs) auto

lemma prune_retained:
  assumes "cim_inv m n"
  shows "retained_count (prune m) \<le> unat (cim_active_limit m) + PRUNE_RETIRED_ALLOWANCE"
  using prune_retired[OF assms] prune_active[of m] assms
    partition_length[of "cim_issued (prune m)" cid_retired]
  by (auto simp: retained_count_def cim_inv_def active_count_def cid_active_def)

lemma cid_issue_inv:
  assumes "cim_inv m n" "n + 1 < 2 ^ 64" "\<And>e k. length (fst (fill e k)) = k"
    and "cid_issue fill e m len = (Some cid, m', e')"
  shows "cim_inv m' (n + 1)" "unat (cid_sequence cid) = n" "cid \<in> set (cid_active m')"
proof -
  obtain b e1 t e2 where f: "fill e len = (b, e1)" "fill e1 RESET_TOKEN_LEN = (t, e2)"
    by (meson surj_pair)
  have l: "length b = len" "length t = RESET_TOKEN_LEN"
    using assms(3)[of e len] assms(3)[of e1 RESET_TOKEN_LEN] f by simp_all
  have n: "unat (cim_next_sequence m) = n"
    using assms(1) by (simp add: cim_inv_def unat_of_nat take_bit_nat_eq_self)
  have r: "MIN_CID_LEN \<le> len" "len \<le> MAX_CID_LEN" "active_count m < unat (cim_active_limit m)"
    "cid = \<lparr>cid_sequence = cim_next_sequence m, cid_bytes = b, cid_reset_token = t, cid_retired = False\<rparr>"
    "m' = m\<lparr>cim_next_sequence := cim_next_sequence m + 1, cim_issued := cim_issued m @ [cid]\<rparr>"
    using assms(4) f by (auto simp: cid_issue_def Let_def split: if_splits)
  then show "unat (cid_sequence cid) = n" "cid \<in> set (cid_active m')"
    using n by (simp_all add: cid_active_def)
  have "cids_ok (cim_issued m @ [cid]) (n + 1)"
    using assms(1) r l n
    by (auto simp: cim_inv_def cids_ok_def sorted_wrt_append list_all_iff)
  then show "cim_inv m' (n + 1)"
    using assms(1,2) r by (simp add: cim_inv_def active_count_def)
qed

lemma cid_issue_None: "cid_issue fill e m len = (None, m', e') \<Longrightarrow> m' = m"
  by (auto simp: cid_issue_def Let_def split: if_splits prod.splits)

lemma cid_run_inv:
  assumes "\<And>e k. length (fst (fill e k)) = k"
  shows "cim_inv m n \<Longrightarrow> n + length ops < 2 ^ 64 \<Longrightarrow> cid_run fill e m ops = (cids, m') \<Longrightarrow>
    cim_inv m' (n + length cids) \<and> map (unat \<circ> cid_sequence) cids = [n..<n + length cids]"
proof (induction ops arbitrary: e m n cids m')
  case (Cons op ops)
  show ?case
  proof (cases op)
    case (Issue len)
    obtain r m1 e1 where i: "cid_issue fill e m len = (r, m1, e1)" by (cases "cid_issue fill e m len")
    show ?thesis
    proof (cases r)
      case None
      with i have "m1 = m" using cid_issue_None by auto
      then show ?thesis using Cons.prems Cons.IH[of m n e1 cids m'] None Issue i by simp
    next
      case (Some cid)
      obtain cs where cs: "cid_run fill e1 m1 ops = (cs, m')" "cids = cid # cs"
        using Cons.prems(3) i Some Issue by (auto split: prod.splits)
      note inv = cid_issue_inv[OF Cons.prems(1) _ assms i[unfolded Some]]
      have "n + 1 < 2 ^ 64" using Cons.prems(2) by simp
      then show ?thesis
        using Cons.IH[OF inv(1) _ cs(1)] inv(2) Cons.prems(2) cs(2) by (simp add: upt_rec)
    qed
  next
    case (Retire s)
    then show ?thesis using Cons.prems Cons.IH[OF cid_retire_inv[OF Cons.prems(1), of s], of e cids m'] by simp
  next
    case (RetirePrior b)
    then show ?thesis using Cons.prems Cons.IH[OF retire_prior_to_inv[OF Cons.prems(1), of b], of e cids m'] by simp
  next
    case Prune
    then show ?thesis using Cons.prems Cons.IH[OF prune_inv[OF Cons.prems(1)], of e cids m'] by simp
  qed
qed simp

section \<open>Properties\<close>

text \<open>
  C22: Connection ids are issued once and stay bounded. Over any run of issuing, retiring and pruning
  with an entropy source that fills what it is asked to fill, the ids handed out carry the sequence
  numbers 0, 1, 2, ..., no more are active than the limit allows, and every id and token on record
  has a legal length; pruning at any moment keeps every active id and the newest retired ones, at
  most eight of them.
\<close>

theorem connection_ids_bounded:
  assumes "\<And>e k. length (fst (fill e k)) = k" "length ops < 2 ^ 64"
    and "cid_run fill e (ConnectionIdManager_new limit) ops = (cids, m)"
  shows "map (unat \<circ> cid_sequence) cids = [0..<length cids]
    \<and> active_count m \<le> unat (cim_active_limit m)
    \<and> cids_ok (cim_issued m) (length cids)
    \<and> cid_active (prune m) = cid_active m
    \<and> filter cid_retired (cim_issued (prune m)) =
        drop (length (filter cid_retired (cim_issued m)) - 8) (filter cid_retired (cim_issued m))
    \<and> retained_count (prune m) \<le> unat (cim_active_limit m) + 8"
proof -
  have new: "cim_inv (ConnectionIdManager_new limit) 0"
    by (simp add: cim_inv_def ConnectionIdManager_new_def cids_ok_def active_count_def)
  have r: "cim_inv m (0 + length cids) \<and> map (unat \<circ> cid_sequence) cids = [0..<0 + length cids]"
    by (rule cid_run_inv[OF assms(1) new _ assms(3)]) (use assms(2) in simp_all)
  then have m: "cim_inv m (length cids)" by simp
  show ?thesis
    using r m prune_active[of m] prune_retired[OF m] prune_retained[OF m]
    by (simp add: cim_inv_def cid_active_def)
qed

definition counting_fill :: "u8 entropy" where
  "counting_fill e n = (replicate n e, e + 1)"

theorem connection_ids_bounded_witness:
  "let (cids, m) = cid_run counting_fill 7 (ConnectionIdManager_new 2)
         [Issue 8, Issue 8, Issue 8, Retire 0, Issue 21, Issue 4] in
   map (unat \<circ> cid_sequence) cids = [0, 1, 2] \<and> active_count m = 2 \<and> active_count m \<le> unat (cim_active_limit m)
   \<and> retained_count (prune m) \<le> unat (cim_active_limit m) + 8"
proof -
  let ?ops = "[Issue 8, Issue 8, Issue 8, Retire 0, Issue 21, Issue 4]"
  obtain cids m where r: "cid_run counting_fill 7 (ConnectionIdManager_new 2) ?ops = (cids, m)"
    by (meson surj_pair)
  have "length (fst (counting_fill e k)) = k" for e k by (simp add: counting_fill_def)
  note * = connection_ids_bounded[OF this _ r]
  have "length (fst (cid_run counting_fill 7 (ConnectionIdManager_new 2) ?ops)) = 3
      \<and> active_count (snd (cid_run counting_fill 7 (ConnectionIdManager_new 2) ?ops)) = 2"
    by (simp add: cid_issue_def Let_def ConnectionIdManager_new_def active_count_def counting_fill_def
      cid_retire_def)
  then have "length cids = 3" "active_count m = 2" using r by simp_all
  then show ?thesis using * unfolding r by (simp add: upt_rec)
qed

end
