(* ===== verification/Session_Keys.thy ===== *)
theory Session_Keys
  imports Protected_Packet Session_Cid
begin

text \<open>
  \<open>crates/umc-session/src/key_update.rs\<close> and \<open>reset.rs\<close>: the traffic secrets of the two directions and
  their updates, and stateless resets. The hash is the parameter \<open>H\<close>; a derivation that panics is \<open>None\<close>.
\<close>

section \<open>Model: key updates\<close>

record KeyUpdateState =
  ku_local_secret :: bytes
  ku_remote_secret :: bytes
  ku_local_phase :: u8
  ku_remote_phase :: u8
  ku_sequence :: u64
  ku_awaiting_confirmation :: bool

datatype KeyUpdateError = AlreadyPending

definition KeyUpdateState_new :: "bytes \<Rightarrow> bytes \<Rightarrow> KeyUpdateState" where
  "KeyUpdateState_new local_secret remote_secret =
     \<lparr>ku_local_secret = local_secret, ku_remote_secret = remote_secret, ku_local_phase = 0,
      ku_remote_phase = 0, ku_sequence = 0, ku_awaiting_confirmation = False\<rparr>"

definition ku_local_keys :: "(bytes \<Rightarrow> bytes) \<Rightarrow> KeyUpdateState \<Rightarrow> PacketKeys option" where
  "ku_local_keys H k =
     (case from_traffic_secret H (ku_local_secret k) of Some (Inr keys) \<Rightarrow> Some keys | _ \<Rightarrow> None)"

definition ku_remote_keys :: "(bytes \<Rightarrow> bytes) \<Rightarrow> KeyUpdateState \<Rightarrow> PacketKeys option" where
  "ku_remote_keys H k =
     (case from_traffic_secret H (ku_remote_secret k) of Some (Inr keys) \<Rightarrow> Some keys | _ \<Rightarrow> None)"

definition ku_initiate ::
    "(bytes \<Rightarrow> bytes) \<Rightarrow> KeyUpdateState \<Rightarrow> ((KeyUpdateError + u64) \<times> KeyUpdateState) option" where
  "ku_initiate H k =
     (if ku_awaiting_confirmation k then Some (Inl AlreadyPending, k)
      else
        Option.bind (next_traffic_secret H (ku_local_secret k)) (\<lambda>secret.
        let k = k\<lparr>ku_local_secret := secret, ku_local_phase := ku_local_phase k XOR 1,
                  ku_sequence := ku_sequence k + 1, ku_awaiting_confirmation := True\<rparr> in
        Some (Inr (ku_sequence k), k)))"

definition confirm_remote_phase :: "KeyUpdateState \<Rightarrow> bytes \<Rightarrow> KeyUpdateState" where
  "confirm_remote_phase k new_remote_secret =
     k\<lparr>ku_remote_secret := new_remote_secret, ku_remote_phase := ku_remote_phase k XOR 1\<rparr>"

definition mark_confirmed :: "KeyUpdateState \<Rightarrow> KeyUpdateState" where
  "mark_confirmed k = k\<lparr>ku_awaiting_confirmation := False\<rparr>"

definition retention_period :: "KeyUpdateState \<Rightarrow> u64 \<Rightarrow> Duration" where
  "retention_period k pto_ms = max (3 * pto_ms) 1000"

text \<open>
  The handling of a received update, \<open>Session::on_key_update\<close>, which only touches this state. Its
  error, the first component, is \<open>SessionError::KeyUpdate\<close>.
\<close>

definition ku_receive ::
    "(bytes \<Rightarrow> bytes) \<Rightarrow> KeyUpdateState \<Rightarrow> u64 \<Rightarrow> ((unit + unit) \<times> KeyUpdateState) option" where
  "ku_receive H k sequence =
     (if sequence \<noteq> ku_sequence k + 1 \<and> sequence \<noteq> ku_sequence k
      then Some (Inl (), k)
      else
        Option.bind
          (if sequence > ku_sequence k then
             Option.bind (next_traffic_secret H (ku_remote_secret k)) (\<lambda>next_secret.
             Some ((confirm_remote_phase k next_secret)\<lparr>ku_sequence := sequence\<rparr>))
           else Some k)
          (\<lambda>k. Some (Inr (), mark_confirmed k)))"

section \<open>Model: stateless resets\<close>

definition MIN_RESET_LEN :: nat where [simp]: "MIN_RESET_LEN = 25"
definition RANDOM_TAIL_LEN :: nat where [simp]: "RANDOM_TAIL_LEN = 16"

definition reset_token :: "bytes \<Rightarrow> bytes" where
  "reset_token secret = take RESET_TOKEN_LEN secret"

definition build_stateless_reset :: "'e entropy \<Rightarrow> 'e \<Rightarrow> bytes \<Rightarrow> bytes \<times> 'e" where
  "build_stateless_reset fill e token =
     (let (tail, e) = fill e RANDOM_TAIL_LEN in ([0] @ replicate 8 0 @ token @ tail, e))"

definition token_matches :: "bytes \<Rightarrow> bytes \<Rightarrow> bool" where
  "token_matches bytes token =
     (case get_range bytes 9 (9 + RESET_TOKEN_LEN) of
        None \<Rightarrow> False
      | Some slot \<Rightarrow>
          (case HeaderByte_decode (bytes ! 0) of
             Inl _ \<Rightarrow> False
           | Inr header \<Rightarrow>
               if hb_long header then False
               else foldl (\<lambda>acc (a, b). acc OR (a XOR b)) 0 (zip slot token) = 0))"

section \<open>Two peers\<close>

text \<open>\<open>a\<close> and \<open>b\<close> agree on the secrets and phases of both directions and on the sequence.\<close>

definition in_sync :: "KeyUpdateState \<Rightarrow> KeyUpdateState \<Rightarrow> bool" where
  "in_sync a b \<longleftrightarrow> ku_local_secret a = ku_remote_secret b \<and> ku_remote_secret a = ku_local_secret b
     \<and> ku_local_phase a = ku_remote_phase b \<and> ku_remote_phase a = ku_local_phase b
     \<and> ku_sequence a = ku_sequence b"

lemma in_sync_sym: "in_sync a b \<longleftrightarrow> in_sync b a"
  by (auto simp: in_sync_def)

text \<open>One peer updates and the other hears of it before it updates itself.\<close>

definition update_and_deliver ::
    "(bytes \<Rightarrow> bytes) \<Rightarrow> KeyUpdateState \<Rightarrow> KeyUpdateState \<Rightarrow> (KeyUpdateState \<times> KeyUpdateState) option" where
  "update_and_deliver H a b =
     Option.bind (ku_initiate H a) (\<lambda>(r, a').
     case r of
       Inl _ \<Rightarrow> Some (a', b)
     | Inr sequence \<Rightarrow> Option.bind (ku_receive H b sequence) (\<lambda>(_, b'). Some (a', b')))"

fun key_run ::
    "(bytes \<Rightarrow> bytes) \<Rightarrow> bool list \<Rightarrow> KeyUpdateState \<Rightarrow> KeyUpdateState \<Rightarrow> (KeyUpdateState \<times> KeyUpdateState) option" where
  "key_run H [] a b = Some (a, b)"
| "key_run H (True # us) a b =
     Option.bind (update_and_deliver H a b) (\<lambda>(a, b). key_run H us a b)"
| "key_run H (False # us) a b =
     Option.bind (update_and_deliver H b a) (\<lambda>(b, a). key_run H us a b)"

lemma update_and_deliver_sync:
  assumes "\<And>x. length (H x) = 32" "in_sync a b" "unat (ku_sequence a) + 1 < 2 ^ 64"
  shows "\<exists>a' b'. update_and_deliver H a b = Some (a', b') \<and> in_sync a' b'
    \<and> unat (ku_sequence a') \<le> unat (ku_sequence a) + 1"
proof (cases "ku_awaiting_confirmation a")
  case True
  then show ?thesis using assms(2) by (simp add: update_and_deliver_def ku_initiate_def)
next
  case False
  obtain s where s: "next_traffic_secret H (ku_local_secret a) = Some s"
    by (rule next_traffic_secret_total[of H "ku_local_secret a", OF assms(1)])
  have seq: "unat (ku_sequence b + 1) = unat (ku_sequence b) + 1"
    using unat_u64_add[of "ku_sequence b" 1] assms(2,3) by (simp add: in_sync_def)
  then have "ku_sequence b < ku_sequence b + 1" by (simp add: word_less_nat_alt)
  then show ?thesis using False s seq assms(2)
    by (simp add: update_and_deliver_def ku_initiate_def ku_receive_def in_sync_def Let_def
        confirm_remote_phase_def mark_confirmed_def)
qed

lemma key_run_sync:
  assumes "\<And>x. length (H x) = 32"
  shows "in_sync a b \<Longrightarrow> unat (ku_sequence a) + length us < 2 ^ 64 \<Longrightarrow>
    \<exists>a' b'. key_run H us a b = Some (a', b') \<and> in_sync a' b'"
proof (induction us arbitrary: a b)
  case (Cons u us)
  show ?case
  proof (cases u)
    case True
    obtain a1 b1 where "update_and_deliver H a b = Some (a1, b1)" "in_sync a1 b1"
      "unat (ku_sequence a1) \<le> unat (ku_sequence a) + 1"
      using update_and_deliver_sync[where H = H, OF assms, of a b] Cons.prems by auto
    then show ?thesis using Cons.IH[of a1 b1] Cons.prems True by simp
  next
    case False
    obtain b1 a1 where *: "update_and_deliver H b a = Some (b1, a1)" "in_sync b1 a1"
      "unat (ku_sequence b1) \<le> unat (ku_sequence b) + 1"
      using update_and_deliver_sync[where H = H, OF assms, of b a] Cons.prems in_sync_sym[of a b]
      by (auto simp: in_sync_def)
    have "ku_sequence a1 = ku_sequence b1" "ku_sequence a = ku_sequence b"
      using * Cons.prems by (simp_all add: in_sync_def)
    then show ?thesis using * Cons.IH[of a1 b1] Cons.prems False in_sync_sym[of a1 b1] by simp
  qed
qed simp

section \<open>The reset token\<close>

lemma foldl_or_zero:
  "foldl (\<lambda>acc (a, b). acc OR (a XOR b)) acc ps = (0 :: u8) \<longleftrightarrow> acc = 0 \<and> (\<forall>(a, b) \<in> set ps. a = b)"
proof (induction ps arbitrary: acc)
  case (Cons p ps)
  have "a XOR b = 0 \<longleftrightarrow> a = b" for a b :: u8
    by (auto simp: bit_eq_iff bit_xor_iff)
  then show ?case using Cons by (cases p) (auto simp: or_eq_0_iff)
qed simp

lemma zip_all_eq: "length xs = length ys \<Longrightarrow> (\<forall>(a, b) \<in> set (zip xs ys). a = b) \<longleftrightarrow> xs = ys"
  by (induction xs ys rule: list_induct2) auto

lemma token_matches_iff:
  assumes "length token = RESET_TOKEN_LEN"
  shows "token_matches bytes token \<longleftrightarrow> MIN_RESET_LEN \<le> length bytes
     \<and> (\<exists>hb. HeaderByte_decode (bytes ! 0) = Inr hb \<and> \<not> hb_long hb)
     \<and> take RESET_TOKEN_LEN (drop 9 bytes) = token"
proof (cases "25 \<le> length bytes")
  case True
  have "length (take 16 (drop 9 bytes)) = length token" using True assms by simp
  from zip_all_eq[OF this] show ?thesis using True
    by (auto simp: token_matches_def get_range_def foldl_or_zero split: sum.splits)
next
  case False
  then show ?thesis by (simp add: token_matches_def get_range_def)
qed

section \<open>Properties\<close>

text \<open>
  C21: Key updates that do not cross keep the peers in agreement: starting in agreement, after any
  sequence of updates by either side, each heard by the other before it updates itself, no derivation
  panics and both sides hold the same secrets, phases and sequence number for both directions.
\<close>

theorem key_updates_in_sync:
  assumes "\<And>x. length (H x) = 32" "in_sync a b" "unat (ku_sequence a) + length us < 2 ^ 64"
  shows "\<exists>a' b'. key_run H us a b = Some (a', b') \<and> in_sync a' b'"
  by (rule key_run_sync[where H = H, OF assms])

theorem key_updates_in_sync_witness:
  "\<exists>a b. key_run (\<lambda>x. replicate 32 (of_nat (length x))) [True, True, False, True]
       (KeyUpdateState_new (replicate 32 1) (replicate 32 2)) (KeyUpdateState_new (replicate 32 2) (replicate 32 1))
     = Some (a, b) \<and> in_sync a b"
  by (rule key_updates_in_sync) (simp_all add: KeyUpdateState_new_def in_sync_def)

text \<open>
  C25: Key updates that cross are lost. When both peers update before they hear of each other's update,
  both accept the other's message as the confirmation of their own and keep the old secret of the
  other direction: unless the derivation maps a secret to itself, they no longer agree.
\<close>

theorem key_updates_crossing:
  assumes "in_sync a b"
    and "ku_initiate H a = Some (Inr n, a1)" "ku_initiate H b = Some (Inr m, b1)"
  shows "\<exists>a2 b2. ku_receive H a1 m = Some (Inr (), a2) \<and> ku_receive H b1 n = Some (Inr (), b2)
    \<and> ku_remote_secret a2 = ku_local_secret b \<and> ku_remote_secret b2 = ku_local_secret a
    \<and> next_traffic_secret H (ku_local_secret b) = Some (ku_local_secret b2)
    \<and> next_traffic_secret H (ku_local_secret a) = Some (ku_local_secret a2)
    \<and> (ku_local_secret b2 \<noteq> ku_local_secret b \<longrightarrow> \<not> in_sync a2 b2)"
proof -
  have a1: "next_traffic_secret H (ku_local_secret a) = Some (ku_local_secret a1)"
    "ku_remote_secret a1 = ku_remote_secret a" "n = ku_sequence a + 1" "ku_sequence a1 = n"
    using assms(2) by (auto simp: ku_initiate_def Let_def bind_eq_Some_conv split: if_splits)
  have b1: "next_traffic_secret H (ku_local_secret b) = Some (ku_local_secret b1)"
    "ku_remote_secret b1 = ku_remote_secret b" "m = ku_sequence b + 1" "ku_sequence b1 = m"
    using assms(3) by (auto simp: ku_initiate_def Let_def bind_eq_Some_conv split: if_splits)
  have nm: "n = m" using assms(1) a1 b1 by (simp add: in_sync_def)
  then have "ku_receive H a1 m = Some (Inr (), mark_confirmed a1)"
    "ku_receive H b1 n = Some (Inr (), mark_confirmed b1)"
    using a1(4) b1(4) by (simp_all add: ku_receive_def)
  then show ?thesis
    using a1 b1 assms(1) by (auto simp: mark_confirmed_def in_sync_def)
qed

definition const_hash :: "bytes \<Rightarrow> bytes" where
  "const_hash x = replicate 32 9"

lemma first_counter: "map of_nat [1..<256] = (1 :: u8) # map of_nat [2..<256]"
proof -
  have "(1::nat) < 256" by simp
  from upt_conv_Cons[OF this] have "[1..<256] = 1 # [2..<256]" by (simp only: Suc_1)
  then have "map (of_nat :: nat \<Rightarrow> u8) [1..<256] = map of_nat (1 # [2..<256])" by (rule arg_cong)
  then show ?thesis by (simp only: list.map of_nat_1)
qed

lemma hmac_const: "hmac_blake2s const_hash k d = replicate 32 9"
  by (simp add: hmac_blake2s_def const_hash_def Let_def)

lemma expand_loop_const: "n \<le> 32 \<Longrightarrow> hkdf_expand_loop const_hash s i n (c # cs) [] [] = replicate n 9"
  by (simp add: hmac_const min_def Let_def)

lemma expand_label_const:
  "n \<le> 32 \<Longrightarrow> length c \<le> 65535 \<Longrightarrow> expand_label const_hash s l c n = Inr (replicate n 9)"
  unfolding expand_label_def hkdf_expand_def first_counter by (simp only: expand_loop_const) simp

theorem key_updates_crossing_witness:
  "let a = KeyUpdateState_new (replicate 32 1) (replicate 32 2);
       b = KeyUpdateState_new (replicate 32 2) (replicate 32 1) in
   \<exists>a1 b1 a2 b2. ku_initiate const_hash a = Some (Inr 1, a1) \<and> ku_initiate const_hash b = Some (Inr 1, b1)
     \<and> ku_receive const_hash a1 1 = Some (Inr (), a2) \<and> ku_receive const_hash b1 1 = Some (Inr (), b2)
     \<and> \<not> in_sync a2 b2"
proof -
  let ?a = "KeyUpdateState_new (replicate 32 1) (replicate 32 2)"
  let ?b = "KeyUpdateState_new (replicate 32 2) (replicate 32 1)"
  have n: "next_traffic_secret const_hash (replicate 32 1) = Some (replicate 32 9)"
    "next_traffic_secret const_hash (replicate 32 2) = Some (replicate 32 9)"
    by (simp_all add: next_traffic_secret_def expand_label_const copy_exact_def)
  obtain a1 where a1: "ku_initiate const_hash ?a = Some (Inr 1, a1)"
    using n by (simp add: ku_initiate_def KeyUpdateState_new_def Let_def)
  obtain b1 where b1: "ku_initiate const_hash ?b = Some (Inr 1, b1)"
    using n by (simp add: ku_initiate_def KeyUpdateState_new_def Let_def)
  have "in_sync ?a ?b" by (simp add: in_sync_def KeyUpdateState_new_def)
  from key_updates_crossing[OF this a1 b1] obtain a2 b2 where
    r: "ku_receive const_hash a1 1 = Some (Inr (), a2)" "ku_receive const_hash b1 1 = Some (Inr (), b2)"
    and s: "next_traffic_secret const_hash (ku_local_secret ?b) = Some (ku_local_secret b2)"
    and d: "ku_local_secret b2 \<noteq> ku_local_secret ?b \<longrightarrow> \<not> in_sync a2 b2"
    by auto
  have "ku_local_secret b2 = replicate 32 9" using s n by (simp add: KeyUpdateState_new_def)
  then have "ku_local_secret b2 \<noteq> ku_local_secret ?b" by (simp add: KeyUpdateState_new_def)
  then show ?thesis using a1 b1 r d unfolding Let_def by blast
qed

text \<open>
  C24: A stateless reset is recognised, even cut down to its smallest size, by whoever holds its token,
  and by the bytes at the token's place alone: any packet that matches has a valid short header byte
  and carries the whole token there.
\<close>

theorem stateless_reset_exact:
  assumes "length token = RESET_TOKEN_LEN" "MIN_RESET_LEN \<le> n" "build_stateless_reset fill e token = (reset, e')"
  shows "token_matches (take n reset) token
    \<and> (token_matches bytes token \<longleftrightarrow> MIN_RESET_LEN \<le> length bytes
         \<and> (\<exists>hb. HeaderByte_decode (bytes ! 0) = Inr hb \<and> \<not> hb_long hb)
         \<and> take RESET_TOKEN_LEN (drop 9 bytes) = token)"
proof -
  obtain tail where reset: "reset = [0] @ replicate 8 0 @ token @ tail"
    using assms(3) by (auto simp: build_stateless_reset_def split: prod.splits)
  have "HeaderByte_decode 0 = Inr \<lparr>hb_long = False, hb_kind = 0, hb_key_phase = False, hb_pn_bits = 8\<rparr>"
    by (simp add: HeaderByte_decode_def)
  moreover have "take n reset ! 0 = 0" "25 \<le> length (take n reset)"
    using assms(1,2) reset by (simp_all)
  moreover have "take 16 (drop 9 (take n reset)) = token"
    using assms(1,2) reset by (simp add: drop_take take_append)
  ultimately show ?thesis using token_matches_iff[OF assms(1)] by auto
qed

theorem stateless_reset_exact_witness:
  "let token = replicate 16 7; reset = fst (build_stateless_reset counting_fill 3 token) in
   length reset = 41 \<and> token_matches (take 25 reset) token \<and> \<not> token_matches (take 24 reset) token"
proof -
  have l: "length (replicate 16 7 :: bytes) = RESET_TOKEN_LEN" by simp
  have b: "build_stateless_reset counting_fill 3 (replicate 16 7) =
      ([0] @ replicate 8 0 @ replicate 16 7 @ replicate 16 3, 4)"
    by (simp add: build_stateless_reset_def counting_fill_def)
  have m: "MIN_RESET_LEN \<le> 25" by simp
  have "token_matches (take 25 ([0] @ replicate 8 0 @ replicate 16 7 @ replicate 16 3)) (replicate 16 7)"
    using stateless_reset_exact[OF l m b] by blast
  moreover have "\<not> token_matches (take 24 ([0] @ replicate 8 0 @ replicate 16 7 @ replicate 16 3)) (replicate 16 7)"
    using stateless_reset_exact[OF l _ b, of 25 "take 24 ([0] @ replicate 8 0 @ replicate 16 7 @ replicate 16 3)"]
    by auto
  ultimately show ?thesis by (simp add: b Let_def)
qed

end
