(* ===== verification/Session_Flow.thy ===== *)
theory Session_Flow
  imports Umc_Prelude "HOL-Library.Sublist"
begin

text \<open>
  \<open>crates/umc-session/src/flow.rs\<close> and \<open>datagram.rs\<close>: the connection-level receive credit and the
  two datagram queues. An operation that mutates its receiver returns the new state with its result.
\<close>

section \<open>Model\<close>

record FlowControl =
  fc_max_data_local :: u64
  fc_max_data_remote :: u64
  fc_consumed :: u64
  fc_max_bidirectional_streams_local :: u64
  fc_max_unidirectional_streams_local :: u64

datatype FlowError = ExceedsCredit | Overflow

definition FlowControl_new :: "u64 \<Rightarrow> u64 \<Rightarrow> u64 \<Rightarrow> FlowControl" where
  "FlowControl_new initial_max_data max_bidi max_uni =
     \<lparr>fc_max_data_local = initial_max_data, fc_max_data_remote = initial_max_data, fc_consumed = 0,
      fc_max_bidirectional_streams_local = max_bidi, fc_max_unidirectional_streams_local = max_uni\<rparr>"

definition flow_consume :: "FlowControl \<Rightarrow> u64 \<Rightarrow> (FlowError + unit) \<times> FlowControl" where
  "flow_consume fc bytes =
     (case u64_checked_add (fc_consumed fc) bytes of
        None \<Rightarrow> (Inl Overflow, fc)
      | Some new_total \<Rightarrow>
          if new_total > fc_max_data_local fc then (Inl ExceedsCredit, fc)
          else (Inr (), fc\<lparr>fc_consumed := new_total\<rparr>))"

definition credit_remaining_local :: "FlowControl \<Rightarrow> u64" where
  "credit_remaining_local fc = u64_saturating_sub (fc_max_data_local fc) (fc_consumed fc)"

definition grant_more :: "FlowControl \<Rightarrow> u64 \<Rightarrow> FlowControl" where
  "grant_more fc new_max =
     (if new_max > fc_max_data_local fc then fc\<lparr>fc_max_data_local := new_max\<rparr> else fc)"

definition MAX_QUEUED_DATAGRAMS :: nat where [simp]: "MAX_QUEUED_DATAGRAMS = 256"
definition MAX_QUEUED_DATAGRAM_BYTES :: nat where [simp]: "MAX_QUEUED_DATAGRAM_BYTES = 2 * 1024 * 1024"

record Datagram =
  dgm_context_id :: u64
  dgm_data :: bytes
  dgm_expires_at_ms :: "u64 option"
  dgm_ack_requested :: bool

datatype DatagramError = QueueFull | BytesFull | Oversize

record DatagramQueue =
  dq_outbound :: "Datagram list"
  dq_inbound :: "Datagram list"
  dq_outbound_bytes :: nat
  dq_inbound_bytes :: nat

definition DatagramQueue_new :: DatagramQueue where
  "DatagramQueue_new =
     \<lparr>dq_outbound = [], dq_inbound = [], dq_outbound_bytes = 0, dq_inbound_bytes = 0\<rparr>"

definition enqueue_outbound ::
    "DatagramQueue \<Rightarrow> Datagram \<Rightarrow> nat \<Rightarrow> (DatagramError + unit) \<times> DatagramQueue" where
  "enqueue_outbound q d max_size =
     (if length (dgm_data d) > max_size then (Inl Oversize, q)
      else if length (dq_outbound q) \<ge> MAX_QUEUED_DATAGRAMS then (Inl QueueFull, q)
      else if dq_outbound_bytes q + length (dgm_data d) > MAX_QUEUED_DATAGRAM_BYTES then (Inl BytesFull, q)
      else (Inr (), q\<lparr>dq_outbound_bytes := dq_outbound_bytes q + length (dgm_data d),
                      dq_outbound := dq_outbound q @ [d]\<rparr>))"

definition datagram_expired :: "u64 \<Rightarrow> Datagram \<Rightarrow> bool" where
  "datagram_expired now_ms d = (case dgm_expires_at_ms d of Some exp \<Rightarrow> exp \<le> now_ms | None \<Rightarrow> False)"

text \<open>The loop that drops expired datagrams from the front, with the byte count.\<close>

fun drop_expired :: "u64 \<Rightarrow> Datagram list \<Rightarrow> nat \<Rightarrow> Datagram list \<times> nat" where
  "drop_expired now_ms [] bytes = ([], bytes)"
| "drop_expired now_ms (d # ds) bytes =
     (if datagram_expired now_ms d then drop_expired now_ms ds (bytes - length (dgm_data d))
      else (d # ds, bytes))"

definition pop_outbound :: "DatagramQueue \<Rightarrow> u64 \<Rightarrow> Datagram option \<times> DatagramQueue" where
  "pop_outbound q now_ms =
     (let (outbound, bytes) = drop_expired now_ms (dq_outbound q) (dq_outbound_bytes q) in
      case outbound of
        [] \<Rightarrow> (None, q\<lparr>dq_outbound := [], dq_outbound_bytes := bytes\<rparr>)
      | d # ds \<Rightarrow> (Some d, q\<lparr>dq_outbound := ds, dq_outbound_bytes := bytes - length (dgm_data d)\<rparr>))"

definition enqueue_inbound :: "DatagramQueue \<Rightarrow> Datagram \<Rightarrow> (DatagramError + unit) \<times> DatagramQueue" where
  "enqueue_inbound q d =
     (if length (dq_inbound q) \<ge> MAX_QUEUED_DATAGRAMS then (Inl QueueFull, q)
      else if dq_inbound_bytes q + length (dgm_data d) > MAX_QUEUED_DATAGRAM_BYTES then (Inl BytesFull, q)
      else (Inr (), q\<lparr>dq_inbound_bytes := dq_inbound_bytes q + length (dgm_data d),
                      dq_inbound := dq_inbound q @ [d]\<rparr>))"

definition pop_inbound :: "DatagramQueue \<Rightarrow> Datagram option \<times> DatagramQueue" where
  "pop_inbound q =
     (case dq_inbound q of
        [] \<Rightarrow> (None, q)
      | d # ds \<Rightarrow>
          (Some d, q\<lparr>dq_inbound := ds, dq_inbound_bytes := dq_inbound_bytes q - length (dgm_data d)\<rparr>))"

section \<open>Flow credit\<close>

definition flow_inv :: "FlowControl \<Rightarrow> bool" where
  "flow_inv fc \<longleftrightarrow> fc_consumed fc \<le> fc_max_data_local fc"

lemma flow_new_inv [simp]: "flow_inv (FlowControl_new m b u)"
  by (simp add: flow_inv_def FlowControl_new_def)

lemma flow_consume_Inr:
  "flow_consume fc n = (Inr (), fc') \<longleftrightarrow>
     unat (fc_consumed fc) + unat n \<le> unat (fc_max_data_local fc)
     \<and> fc' = fc\<lparr>fc_consumed := fc_consumed fc + n\<rparr>"
proof -
  have "unat (fc_consumed fc) + unat n < 2 ^ 64 \<Longrightarrow>
      unat (fc_consumed fc + n) = unat (fc_consumed fc) + unat n"
    by (rule unat_u64_add)
  then show ?thesis
    using unat_u64_less[of "fc_max_data_local fc"]
    by (auto simp: flow_consume_def u64_checked_add_def word_less_nat_alt)
qed

lemma flow_consume_Inl: "flow_consume fc n = (Inl e, fc') \<Longrightarrow> fc' = fc"
  by (auto simp: flow_consume_def split: option.splits if_splits)

lemma flow_consume_inv: "flow_inv fc \<Longrightarrow> flow_consume fc n = (r, fc') \<Longrightarrow> flow_inv fc'"
  by (auto simp: flow_consume_def flow_inv_def linorder_not_less split: option.splits if_splits)

lemma grant_more_inv: "flow_inv fc \<Longrightarrow> flow_inv (grant_more fc m)"
  by (auto simp: grant_more_def flow_inv_def)

lemma credit_remaining_exact:
  "flow_inv fc \<Longrightarrow>
   unat (credit_remaining_local fc) = unat (fc_max_data_local fc) - unat (fc_consumed fc)"
  by (simp add: credit_remaining_local_def unat_u64_saturating_sub)

section \<open>Bounded queues\<close>

text \<open>
  The contract of both datagram queues: what is in the queue, what it counts, and that putting
  appends and taking removes a prefix of dropped elements and the one returned.
\<close>

definition data_bytes :: "Datagram list \<Rightarrow> nat" where
  "data_bytes ds = sum_list (map (length \<circ> dgm_data) ds)"

lemma data_bytes_simps [simp]:
  "data_bytes [] = 0"
  "data_bytes (d # ds) = length (dgm_data d) + data_bytes ds"
  "data_bytes (ds @ es) = data_bytes ds + data_bytes es"
  by (simp_all add: data_bytes_def)

text \<open>A run of a queue: what was put in, and what came out.\<close>

datatype ('m, 't) QueueOp = Put Datagram 'm | Get 't

type_synonym ('q, 'm) put_fun = "'q \<Rightarrow> Datagram \<Rightarrow> 'm \<Rightarrow> (DatagramError + unit) \<times> 'q"
type_synonym ('q, 't) get_fun = "'q \<Rightarrow> 't \<Rightarrow> Datagram option \<times> 'q"

fun queue_puts :: "('q, 'm) put_fun \<Rightarrow> ('q, 't) get_fun \<Rightarrow> 'q \<Rightarrow> ('m, 't) QueueOp list \<Rightarrow> Datagram list" where
  "queue_puts put get q [] = []"
| "queue_puts put get q (Put d m # ops) =
     (case put q d m of
        (Inr _, q') \<Rightarrow> d # queue_puts put get q' ops
      | (Inl _, q') \<Rightarrow> queue_puts put get q' ops)"
| "queue_puts put get q (Get t # ops) = queue_puts put get (snd (get q t)) ops"

fun queue_gets :: "('q, 'm) put_fun \<Rightarrow> ('q, 't) get_fun \<Rightarrow> 'q \<Rightarrow> ('m, 't) QueueOp list \<Rightarrow> Datagram list" where
  "queue_gets put get q [] = []"
| "queue_gets put get q (Put d m # ops) = queue_gets put get (snd (put q d m)) ops"
| "queue_gets put get q (Get t # ops) =
     (case get q t of
        (Some d, q') \<Rightarrow> d # queue_gets put get q' ops
      | (None, q') \<Rightarrow> queue_gets put get q' ops)"

fun queue_end :: "('q, 'm) put_fun \<Rightarrow> ('q, 't) get_fun \<Rightarrow> 'q \<Rightarrow> ('m, 't) QueueOp list \<Rightarrow> 'q" where
  "queue_end put get q [] = q"
| "queue_end put get q (Put d m # ops) = queue_end put get (snd (put q d m)) ops"
| "queue_end put get q (Get t # ops) = queue_end put get (snd (get q t)) ops"

definition queue_ok :: "Datagram list \<Rightarrow> nat \<Rightarrow> bool" where
  "queue_ok ds n \<longleftrightarrow> n = data_bytes ds \<and> length ds \<le> MAX_QUEUED_DATAGRAMS
     \<and> n \<le> MAX_QUEUED_DATAGRAM_BYTES"

locale bounded_queue =
  fixes content :: "'q \<Rightarrow> Datagram list"
    and bytes_of :: "'q \<Rightarrow> nat"
    and put :: "('q, 'm) put_fun"
    and get :: "('q, 't) get_fun"
    and dropped :: "'t \<Rightarrow> Datagram \<Rightarrow> bool"
  assumes put_ok: "put q d m = (Inr (), q') \<Longrightarrow>
      content q' = content q @ [d] \<and> bytes_of q' = bytes_of q + length (dgm_data d)
      \<and> length (content q) < MAX_QUEUED_DATAGRAMS
      \<and> bytes_of q + length (dgm_data d) \<le> MAX_QUEUED_DATAGRAM_BYTES"
    and put_err: "put q d m = (Inl e, q') \<Longrightarrow> q' = q"
    and get_content: "get q t = (r, q') \<Longrightarrow>
      (case dropWhile (dropped t) (content q) of
         [] \<Rightarrow> r = None \<and> content q' = []
       | d # ds \<Rightarrow> r = Some d \<and> content q' = ds)"
    and get_bytes: "get q t = (r, q') \<Longrightarrow> bytes_of q = data_bytes (content q) \<Longrightarrow>
      bytes_of q' = data_bytes (content q')"
begin

lemma put_cases:
  obtains (ok) q' where "put q d m = (Inr (), q')" "content q' = content q @ [d]"
  | (err) e where "put q d m = (Inl e, q)"
proof -
  obtain r q' where p: "put q d m = (r, q')" by (cases "put q d m")
  then show thesis
  proof (cases r)
    case (Inl e)
    then show ?thesis using p put_err[of q d m e q'] err by simp
  next
    case (Inr u)
    then show ?thesis using p put_ok[of q d m q'] ok by simp
  qed
qed

lemma get_suffix: "get q t = (r, q') \<Longrightarrow> \<exists>pre. content q = pre @ content q'"
proof -
  assume g: "get q t = (r, q')"
  have "content q = takeWhile (dropped t) (content q) @ dropWhile (dropped t) (content q)" by simp
  then show ?thesis
    using get_content[OF g]
    by (cases "dropWhile (dropped t) (content q)")
      (auto intro: exI[of _ "takeWhile (dropped t) (content q) @ [_]"])
qed

lemma put_keeps_ok:
  "queue_ok (content q) (bytes_of q) \<Longrightarrow> put q d m = (r, q') \<Longrightarrow> queue_ok (content q') (bytes_of q')"
  using put_ok[of q d m q'] put_err[of q d m _ q'] by (cases r) (auto simp: queue_ok_def)

lemma get_keeps_ok:
  "queue_ok (content q) (bytes_of q) \<Longrightarrow> get q t = (r, q') \<Longrightarrow> queue_ok (content q') (bytes_of q')"
  using get_suffix[of q t r q'] get_bytes[of q t r q'] by (auto simp: queue_ok_def)

lemma run_keeps_ok:
  "queue_ok (content q) (bytes_of q) \<Longrightarrow>
   queue_ok (content (queue_end put get q ops)) (bytes_of (queue_end put get q ops))"
proof (induction ops arbitrary: q)
  case (Cons op ops)
  show ?case
  proof (cases op)
    case (Put d m)
    then show ?thesis using Cons put_keeps_ok[of q d m] by (cases "put q d m") simp
  next
    case (Get t)
    then show ?thesis using Cons get_keeps_ok[of q t] by (cases "get q t") simp
  qed
qed simp

text \<open>
  First in, first out: what comes out is a subsequence, in order, of what was in the queue and what
  was put in. Nothing is duplicated, reordered or invented.
\<close>

lemma gets_subseq: "subseq (queue_gets put get q ops) (content q @ queue_puts put get q ops)"
proof (induction ops arbitrary: q)
  case (Cons op ops)
  show ?case
  proof (cases op)
    case (Put d m)
    then show ?thesis using Cons by (cases rule: put_cases[of q d m]) (simp_all, metis append.assoc append_Cons append_Nil)
  next
    case (Get t)
    obtain r q' where g: "get q t = (r, q')" by (cases "get q t")
    note c = get_content[OF g]
    show ?thesis
    proof (cases "dropWhile (dropped t) (content q)")
      case Nil
      with c g Get Cons[of q'] show ?thesis by (auto intro: list_emb_append2)
    next
      case d: (Cons d ds)
      have "subseq (d # queue_gets put get q' ops)
          (dropWhile (dropped t) (content q) @ queue_puts put get q' ops)"
        using d c Cons.IH[of q'] by simp
      then have "subseq (d # queue_gets put get q' ops) (content q @ queue_puts put get q' ops)"
        by (metis append.assoc list_emb_append2 takeWhile_dropWhile_id)
      then show ?thesis using d c g Get by simp
    qed
  qed
qed simp

text \<open>Without expiry nothing is lost either: the rest is still queued.\<close>

lemma gets_exact:
  assumes "\<And>t d. \<not> dropped t d"
  shows "content q @ queue_puts put get q ops = queue_gets put get q ops @ content (queue_end put get q ops)"
proof (induction ops arbitrary: q)
  case (Cons op ops)
  show ?case
  proof (cases op)
    case (Put d m)
    then show ?thesis using Cons by (cases rule: put_cases[of q d m]) (simp_all, metis append.assoc append_Cons append_Nil)
  next
    case (Get t)
    obtain r q' where g: "get q t = (r, q')" by (cases "get q t")
    have "dropWhile (dropped t) (content q) = content q"
      using assms by (cases "content q") auto
    then show ?thesis using get_content[OF g] g Get Cons[of q'] by (cases "content q") auto
  qed
qed simp

end

lemma drop_expired_eq:
  "drop_expired now ds n =
     (dropWhile (datagram_expired now) ds, n - data_bytes (takeWhile (datagram_expired now) ds))"
  by (induction now ds n rule: drop_expired.induct) auto

lemma data_bytes_split: "data_bytes ds = data_bytes (takeWhile P ds) + data_bytes (dropWhile P ds)"
  by (metis data_bytes_simps(3) takeWhile_dropWhile_id)

interpretation outq: bounded_queue dq_outbound dq_outbound_bytes enqueue_outbound pop_outbound datagram_expired
proof unfold_locales
  fix q q' :: DatagramQueue and r now
  assume p: "pop_outbound q now = (r, q')"
  then show "case dropWhile (datagram_expired now) (dq_outbound q) of
      [] \<Rightarrow> r = None \<and> dq_outbound q' = [] | d # ds \<Rightarrow> r = Some d \<and> dq_outbound q' = ds"
    by (cases "dropWhile (datagram_expired now) (dq_outbound q)")
      (auto simp: pop_outbound_def drop_expired_eq simp del: dropWhile_eq_Nil_conv)
  assume "dq_outbound_bytes q = data_bytes (dq_outbound q)"
  then show "dq_outbound_bytes q' = data_bytes (dq_outbound q')"
    using p data_bytes_split[of "dq_outbound q" "datagram_expired now"]
    by (cases "dropWhile (datagram_expired now) (dq_outbound q)")
      (auto simp: pop_outbound_def drop_expired_eq simp del: dropWhile_eq_Nil_conv)
qed (auto simp: enqueue_outbound_def split: if_splits)

text \<open>The inbound operations take neither a size limit nor a time.\<close>

definition enq_in :: "(DatagramQueue, unit) put_fun" where
  "enq_in q d _ = enqueue_inbound q d"

definition pop_in :: "(DatagramQueue, unit) get_fun" where
  "pop_in q _ = pop_inbound q"

interpretation inq: bounded_queue dq_inbound dq_inbound_bytes enq_in pop_in "\<lambda>_ _. False"
  by unfold_locales (auto simp: enq_in_def pop_in_def enqueue_inbound_def pop_inbound_def split: if_splits list.splits)

section \<open>Properties\<close>

text \<open>
  C23: The datagram queues are bounded first-in-first-out queues. Over any run of queueing and popping,
  what the outbound queue gives out is, in order and without repetition, part of what was accepted
  (the rest being queued or expired), and the inbound queue gives out exactly what was accepted, in
  order, the rest being queued; both stay within the limits on datagrams and bytes, with the byte
  counts exact.
\<close>

theorem datagram_queues_fifo:
  assumes "queue_ok (dq_outbound q) (dq_outbound_bytes q)" "queue_ok (dq_inbound q) (dq_inbound_bytes q)"
  shows "subseq (queue_gets enqueue_outbound pop_outbound q ops)
           (dq_outbound q @ queue_puts enqueue_outbound pop_outbound q ops)
    \<and> dq_inbound q @ queue_puts enq_in pop_in q iops
        = queue_gets enq_in pop_in q iops @ dq_inbound (queue_end enq_in pop_in q iops)
    \<and> queue_ok (dq_outbound (queue_end enqueue_outbound pop_outbound q ops))
        (dq_outbound_bytes (queue_end enqueue_outbound pop_outbound q ops))
    \<and> queue_ok (dq_inbound (queue_end enq_in pop_in q iops)) (dq_inbound_bytes (queue_end enq_in pop_in q iops))"
  using assms by (simp only: outq.gets_subseq outq.run_keeps_ok inq.gets_exact inq.run_keeps_ok simp_thms)

theorem datagram_queues_fifo_witness:
  "let a = \<lparr>dgm_context_id = 0, dgm_data = [1, 2], dgm_expires_at_ms = Some 5, dgm_ack_requested = False\<rparr>;
       b = \<lparr>dgm_context_id = 0, dgm_data = [3], dgm_expires_at_ms = None, dgm_ack_requested = False\<rparr>;
       ops = [Put a 100, Put b 100, Put a 1, Get 7] in
   queue_gets enqueue_outbound pop_outbound DatagramQueue_new ops = [b]
   \<and> queue_puts enqueue_outbound pop_outbound DatagramQueue_new ops = [a, b]
   \<and> subseq (queue_gets enqueue_outbound pop_outbound DatagramQueue_new ops)
        (queue_puts enqueue_outbound pop_outbound DatagramQueue_new ops)
   \<and> queue_gets enq_in pop_in DatagramQueue_new [Put a (), Put b (), Get ()] = [a]"
proof -
  have "queue_ok (dq_outbound DatagramQueue_new) (dq_outbound_bytes DatagramQueue_new)"
    "queue_ok (dq_inbound DatagramQueue_new) (dq_inbound_bytes DatagramQueue_new)"
    by (simp_all add: DatagramQueue_new_def queue_ok_def)
  note * = datagram_queues_fifo[OF this]
  show ?thesis
    unfolding Let_def
    by (intro conjI) (use * in \<open>simp_all add: DatagramQueue_new_def enqueue_outbound_def pop_outbound_def
      datagram_expired_def enq_in_def pop_in_def enqueue_inbound_def pop_inbound_def word_le_nat_alt\<close>)
qed

end
