(* ===== verification/Session_Path.thy ===== *)
theory Session_Path
  imports Session_Ack
begin

text \<open>
  \<open>crates/umc-session/src/path.rs\<close>: carrier paths, their validation by challenge and response, and
  the send budget of a path that is not validated. What \<open>session.rs\<close> does to the fields of a path
  directly, in \<open>mark_path_degraded\<close> and \<open>force_validate\<close>, is here too.
\<close>

section \<open>Model\<close>

datatype PathState = New | Validating | Validated | Degraded | Failed | Retired

definition MAX_CANDIDATE_PATHS :: nat where [simp]: "MAX_CANDIDATE_PATHS = 2"
definition MAX_OUTSTANDING_CHALLENGES :: nat where [simp]: "MAX_OUTSTANDING_CHALLENGES = 3"
definition MAX_CHALLENGE_RETRIES :: u32 where [simp]: "MAX_CHALLENGE_RETRIES = 3"
definition CHALLENGE_RETRY_PTO_MULTIPLIER :: u64 where [simp]: "CHALLENGE_RETRY_PTO_MULTIPLIER = 3"

record PathChallenge =
  pch_data :: bytes
  pch_sent_at :: Instant
  pch_expires_at :: Instant
  pch_retries :: u32

record Path =
  path_path_id :: u64
  path_state :: PathState
  path_carrier_type :: string
  path_local_context :: bytes
  path_remote_context :: bytes
  path_validated :: bool
  path_rtt_ms :: u64
  path_mtu :: nat
  path_last_activity :: Instant
  path_received_bytes_unvalidated :: u64
  path_sent_bytes_unvalidated :: u64
  path_challenges :: "PathChallenge list"

datatype PathError = TooManyChallenges | UnknownChallenge | ValidationFailed

definition Path_new :: "u64 \<Rightarrow> string \<Rightarrow> bytes \<Rightarrow> bytes \<Rightarrow> Instant \<Rightarrow> Path" where
  "Path_new path_id carrier_type local_ctx remote_ctx now =
     \<lparr>path_path_id = path_id, path_state = New, path_carrier_type = carrier_type,
      path_local_context = local_ctx, path_remote_context = remote_ctx, path_validated = False,
      path_rtt_ms = 0, path_mtu = 1200, path_last_activity = now,
      path_received_bytes_unvalidated = 0, path_sent_bytes_unvalidated = 0, path_challenges = []\<rparr>"

definition path_send_allowance :: "Path \<Rightarrow> u64" where
  "path_send_allowance p =
     u64_saturating_sub (u64_saturating_mul (path_received_bytes_unvalidated p) 3)
       (path_sent_bytes_unvalidated p)"

definition path_record_received :: "Path \<Rightarrow> u64 \<Rightarrow> Instant \<Rightarrow> Path" where
  "path_record_received p bytes now =
     p\<lparr>path_received_bytes_unvalidated := path_received_bytes_unvalidated p + bytes,
       path_last_activity := now\<rparr>"

definition path_record_sent :: "Path \<Rightarrow> u64 \<Rightarrow> Path" where
  "path_record_sent p bytes =
     p\<lparr>path_sent_bytes_unvalidated := path_sent_bytes_unvalidated p + bytes\<rparr>"

definition start_validation :: "Path \<Rightarrow> bytes \<Rightarrow> Instant \<Rightarrow> u64 \<Rightarrow> (PathError + unit) \<times> Path" where
  "start_validation p challenge now pto_ms =
     (if length (path_challenges p) \<ge> MAX_OUTSTANDING_CHALLENGES then (Inl TooManyChallenges, p)
      else
        let pto = max pto_ms 1000 in
        (Inr (),
         p\<lparr>path_challenges := path_challenges p @
             [\<lparr>pch_data = challenge, pch_sent_at = now,
               pch_expires_at = instant_add now (CHALLENGE_RETRY_PTO_MULTIPLIER * pto),
               pch_retries = 0\<rparr>],
           path_state := Validating\<rparr>))"

text \<open>\<open>iter().position(..)\<close>.\<close>

fun position :: "('a \<Rightarrow> bool) \<Rightarrow> 'a list \<Rightarrow> nat option" where
  "position P [] = None"
| "position P (x # xs) = (if P x then Some 0 else map_option Suc (position P xs))"

definition path_confirm :: "Path \<Rightarrow> bytes \<Rightarrow> (PathError + unit) \<times> Path" where
  "path_confirm p response =
     (case position (\<lambda>c. pch_data c = response) (path_challenges p) of
        None \<Rightarrow> (Inl UnknownChallenge, p)
      | Some index \<Rightarrow>
          (Inr (),
           p\<lparr>path_challenges := remove_at index (path_challenges p), path_validated := True,
             path_state := Validated, path_sent_bytes_unvalidated := 0,
             path_received_bytes_unvalidated := 0\<rparr>))"

text \<open>The loop over the challenges, with the flag of what was re-armed so far.\<close>

fun retry_loop :: "Instant \<Rightarrow> PathChallenge list \<Rightarrow> bool \<Rightarrow> (PathError + bool) \<times> PathChallenge list" where
  "retry_loop now [] retried = (Inr retried, [])"
| "retry_loop now (c # cs) retried =
     (if pch_expires_at c \<le> now then
        let c = c\<lparr>pch_retries := pch_retries c + 1\<rparr> in
        if pch_retries c > MAX_CHALLENGE_RETRIES then (Inl ValidationFailed, c # cs)
        else
          let (r, cs) = retry_loop now cs True in
          (r, c\<lparr>pch_expires_at := instant_add now 1000\<rparr> # cs)
      else let (r, cs) = retry_loop now cs retried in (r, c # cs))"

definition retry_expired_challenges :: "Path \<Rightarrow> Instant \<Rightarrow> (PathError + bool) \<times> Path" where
  "retry_expired_challenges p now =
     (let (r, cs) = retry_loop now (path_challenges p) False in (r, p\<lparr>path_challenges := cs\<rparr>))"

definition mark_failed :: "Path \<Rightarrow> Path" where
  "mark_failed p = p\<lparr>path_state := Failed, path_validated := False\<rparr>"

text \<open>The bodies of \<open>mark_path_degraded\<close> and \<open>force_validate\<close> of a session, on the path they find.\<close>

definition path_degrade :: "Path \<Rightarrow> bool \<times> Path" where
  "path_degrade p =
     (if path_state p = Degraded then (False, p)
      else (True, p\<lparr>path_state := Degraded, path_rtt_ms := 0\<rparr>))"

definition path_force_validate :: "Path \<Rightarrow> Path" where
  "path_force_validate p =
     p\<lparr>path_validated := True, path_state := Validated, path_sent_bytes_unvalidated := 0,
       path_received_bytes_unvalidated := 0\<rparr>"

section \<open>Runs of a path\<close>

text \<open>One event per operation that changes a path.\<close>

datatype PathEvent =
    Received u64 Instant | Sent u64 | Challenge bytes Instant u64 | Response bytes | Retry Instant | Fail
  | Degrade | Force

inductive path_step :: "Path \<Rightarrow> PathEvent \<Rightarrow> Path \<Rightarrow> bool" where
  step_received: "path_step p (Received n now) (path_record_received p n now)"
| step_sent: "path_step p (Sent n) (path_record_sent p n)"
| step_challenge: "start_validation p c now pto = (r, p') \<Longrightarrow> path_step p (Challenge c now pto) p'"
| step_response: "path_confirm p c = (r, p') \<Longrightarrow> path_step p (Response c) p'"
| step_retry: "retry_expired_challenges p now = (r, p') \<Longrightarrow> path_step p (Retry now) p'"
| step_fail: "path_step p Fail (mark_failed p)"
| step_degrade: "path_degrade p = (b, p') \<Longrightarrow> path_step p Degrade p'"
| step_force: "path_step p Force (path_force_validate p)"

code_pred (modes: i \<Rightarrow> i \<Rightarrow> o \<Rightarrow> bool) path_step .

inductive_cases path_step_elims [elim!]:
  "path_step p (Received n now) p'" "path_step p (Sent n) p'" "path_step p (Challenge c now pto) p'"
  "path_step p (Response c) p'" "path_step p (Retry now) p'" "path_step p Fail p'"
  "path_step p Degrade p'" "path_step p Force p'"

inductive path_run :: "Path \<Rightarrow> PathEvent list \<Rightarrow> Path \<Rightarrow> bool" for p0 where
  run_start: "path_run p0 [] p0"
| run_step: "path_run p0 evs p \<Longrightarrow> path_step p ev p' \<Longrightarrow> path_run p0 (evs @ [ev]) p'"

lemma position_Some: "position P xs = Some i \<Longrightarrow> i < length xs \<and> P (xs ! i)"
  by (induction P xs arbitrary: i rule: position.induct) (auto split: if_splits)

lemma position_None: "position P xs = None \<longleftrightarrow> (\<forall>x \<in> set xs. \<not> P x)"
  by (induction P xs rule: position.induct) auto

lemma retry_loop_data:
  "retry_loop now cs b = (r, cs') \<Longrightarrow> map pch_data cs' = map pch_data cs"
  by (induction now cs b arbitrary: r cs' rule: retry_loop.induct)
    (auto simp: Let_def split: if_splits prod.splits)

definition outstanding :: "Path \<Rightarrow> bytes set" where
  "outstanding p = pch_data ` set (path_challenges p)"

lemma retry_outstanding:
  assumes "retry_expired_challenges p now = (r, p')"
  shows "outstanding p' = outstanding p" "length (path_challenges p') = length (path_challenges p)"
    "path_validated p' = path_validated p"
proof -
  obtain r' cs where l: "retry_loop now (path_challenges p) False = (r', cs)"
    by (meson surj_pair)
  have "map pch_data cs = map pch_data (path_challenges p)" by (rule retry_loop_data[OF l])
  then have "set (map pch_data cs) = set (map pch_data (path_challenges p))"
    "length cs = length (path_challenges p)" by (auto dest: map_eq_imp_length_eq)
  then show "outstanding p' = outstanding p" "length (path_challenges p') = length (path_challenges p)"
    "path_validated p' = path_validated p"
    using assms l by (auto simp: retry_expired_challenges_def outstanding_def)
qed

lemma confirm_Inr:
  "path_confirm p c = (Inr u, p') \<Longrightarrow> c \<in> outstanding p \<and> path_validated p'
     \<and> outstanding p' \<subseteq> outstanding p \<and> length (path_challenges p') \<le> length (path_challenges p)"
  by (auto simp: path_confirm_def outstanding_def remove_at_def split: option.splits
      dest!: position_Some in_set_takeD in_set_dropD)

lemma confirm_Inl: "path_confirm p c = (Inl e, p') \<Longrightarrow> c \<notin> outstanding p \<and> p' = p \<and> e = UnknownChallenge"
  by (auto simp: path_confirm_def outstanding_def position_None split: option.splits)

text \<open>
  What a run says of its path: every outstanding challenge was issued in it, at most three are
  outstanding, and a validated path got a response to a challenge issued before it, or was validated
  by force, and has not failed since.
\<close>

definition answered :: "PathEvent list \<Rightarrow> bool" where
  "answered evs \<longleftrightarrow> (\<exists>pre c now pto mid post. evs = pre @ Challenge c now pto # mid @ Response c # post
     \<and> Fail \<notin> set post)"

definition forced :: "PathEvent list \<Rightarrow> bool" where
  "forced evs \<longleftrightarrow> (\<exists>pre post. evs = pre @ Force # post \<and> Fail \<notin> set post)"

definition issued_in :: "PathEvent list \<Rightarrow> bytes \<Rightarrow> bool" where
  "issued_in evs c \<longleftrightarrow> (\<exists>now pto. Challenge c now pto \<in> set evs)"

lemma issued_in_snoc [simp]:
  "issued_in evs c \<Longrightarrow> issued_in (evs @ [ev]) c" "issued_in (evs @ [Challenge c now pto]) c"
  by (auto simp: issued_in_def)

definition path_inv :: "PathEvent list \<Rightarrow> Path \<Rightarrow> bool" where
  "path_inv evs p \<longleftrightarrow> (\<forall>c \<in> outstanding p. issued_in evs c)
     \<and> length (path_challenges p) \<le> MAX_OUTSTANDING_CHALLENGES
     \<and> (path_validated p \<longrightarrow> answered evs \<or> forced evs)"

lemma answered_snoc: "answered evs \<Longrightarrow> ev \<noteq> Fail \<Longrightarrow> answered (evs @ [ev])"
  unfolding answered_def by (metis (no_types, opaque_lifting) append.assoc append_Cons
      UnE empty_iff list.set(1) set_append set_ConsD)

lemma forced_snoc: "forced evs \<Longrightarrow> ev \<noteq> Fail \<Longrightarrow> forced (evs @ [ev])"
  unfolding forced_def by (metis (no_types, opaque_lifting) append.assoc append_Cons
      UnE empty_iff list.set(1) set_append set_ConsD)

lemma forced_now: "forced (evs @ [Force])"
  unfolding forced_def by (metis empty_iff list.set(1))

lemmas validated_snoc = answered_snoc forced_snoc

lemma answered_response:
  assumes "Challenge c now pto \<in> set evs"
  shows "answered (evs @ [Response c])"
proof -
  obtain pre mid where "evs = pre @ Challenge c now pto # mid" using assms by (meson split_list)
  then have "evs @ [Response c] = pre @ Challenge c now pto # mid @ Response c # []" by simp
  then show ?thesis unfolding answered_def by (metis empty_iff list.set(1))
qed

lemma path_step_inv: "path_inv evs p \<Longrightarrow> path_step p ev p' \<Longrightarrow> path_inv (evs @ [ev]) p'"
proof (cases ev)
  case (Challenge c now pto)
  assume "path_inv evs p" "path_step p ev p'"
  with Challenge validated_snoc[of evs ev] show ?thesis
    by (auto simp: path_inv_def start_validation_def outstanding_def Let_def split: if_splits)
next
  case (Response c)
  assume inv: "path_inv evs p" and "path_step p ev p'"
  then obtain r where r: "path_confirm p c = (r, p')" using Response by auto
  show ?thesis
  proof (cases r)
    case (Inl e)
    with r have "p' = p" using confirm_Inl by auto
    then show ?thesis using inv validated_snoc[of evs ev] Response by (auto simp: path_inv_def)
  next
    case (Inr u)
    note * = confirm_Inr[OF r[unfolded Inr]]
    then have "answered (evs @ [ev])"
      using inv Response answered_response by (auto simp: path_inv_def issued_in_def)
    then show ?thesis using inv * by (auto simp: path_inv_def)
  qed
next
  case (Retry now)
  assume "path_inv evs p" "path_step p ev p'"
  with Retry validated_snoc[of evs ev] retry_outstanding[of p now] show ?thesis
    by (auto simp: path_inv_def)
next
  case Force
  assume "path_inv evs p" "path_step p ev p'"
  with Force forced_now[of evs] show ?thesis
    by (auto simp: path_inv_def path_force_validate_def outstanding_def)
qed (use validated_snoc in \<open>auto simp: path_inv_def path_record_received_def path_record_sent_def
       mark_failed_def path_degrade_def outstanding_def split: if_splits\<close>)

lemma path_run_inv: "path_run (Path_new pid ct l r now) evs p \<Longrightarrow> path_inv evs p"
proof (induction rule: path_run.induct)
  case run_start
  then show ?case by (simp add: path_inv_def Path_new_def outstanding_def)
next
  case (run_step evs p ev p')
  then show ?case using path_step_inv by blast
qed

section \<open>Properties\<close>

text \<open>
  C20: What validates a path. Whatever happens to a new path (packets, challenges, responses, retries,
  failure, degradation, \<open>force_validate\<close>), if it is validated at the end then either a response came
  in that carried the bytes of a challenge issued before, or \<open>force_validate\<close> was called, and the
  path has not failed since; so without that call it is validated only by its peer. At most three
  challenges are ever outstanding, each of them issued on this path.
\<close>

theorem path_validated_by_response:
  assumes "path_run (Path_new pid ct l r now) evs p"
  shows "(path_validated p \<longrightarrow>
      (\<exists>pre c t pto mid post. evs = pre @ Challenge c t pto # mid @ Response c # post \<and> Fail \<notin> set post)
      \<or> (\<exists>pre post. evs = pre @ Force # post \<and> Fail \<notin> set post))
    \<and> length (path_challenges p) \<le> 3
    \<and> (\<forall>c \<in> outstanding p. \<exists>t pto. Challenge c t pto \<in> set evs)"
  using path_run_inv[OF assms] by (simp add: path_inv_def answered_def forced_def issued_in_def)

theorem path_validated_by_response_witness:
  "\<exists>p. path_run (Path_new 1 ''udp'' [] [] 0) [Challenge [1, 2] 0 100, Response [9], Response [1, 2]] p
     \<and> path_validated p
     \<and> (\<exists>pre c t pto mid post.
          [Challenge [1, 2] 0 100, Response [9], Response [1, 2]] =
            pre @ Challenge c t pto # mid @ Response c # post \<and> Fail \<notin> set post)"
proof -
  let ?p0 = "Path_new 1 ''udp'' [] [] 0"
  let ?p1 = "snd (start_validation ?p0 [1, 2] 0 100)"
  let ?p2 = "snd (path_confirm ?p1 [1, 2])"
  have s: "path_step ?p0 (Challenge [1, 2] 0 100) ?p1" "path_step ?p1 (Response [9]) ?p1"
    "path_step ?p1 (Response [1, 2]) ?p2"
    by (auto intro!: path_step.intros prod_eqI
        simp: start_validation_def path_confirm_def Path_new_def Let_def)
  have "path_run ?p0 (([] @ [Challenge [1, 2] 0 100]) @ [Response [9]]) ?p1"
    by (rule path_run.run_step[OF path_run.run_step[OF path_run.run_start s(1)] s(2)])
  from path_run.run_step[OF this s(3)]
  have run: "path_run ?p0 [Challenge [1, 2] 0 100, Response [9], Response [1, 2]] ?p2" by simp
  moreover have "path_validated ?p2"
    by (simp add: start_validation_def path_confirm_def Path_new_def Let_def)
  moreover have "\<nexists>pre post. [Challenge [1, 2] 0 100, Response [9], Response [1, 2]] = pre @ Force # post"
    by (auto simp: Cons_eq_append_conv)
  ultimately show ?thesis using path_validated_by_response[OF run] by blast
qed

end
