(* ===== verification/Session_Congestion.thy ===== *)
theory Session_Congestion
  imports Session_Ack
begin

text \<open>
  \<open>crates/umc-session/src/congestion.rs\<close>: the Reno congestion window and the token bucket that paces
  sends. \<open>i64\<close> values are integers, with the saturation of each operation written out; the one plain
  subtraction wraps. \<open>usize\<close> values are natural numbers.
\<close>

section \<open>Model\<close>

definition SMSS :: u64 where [simp]: "SMSS = 1200"
definition INITIAL_CWND :: u64 where [simp]: "INITIAL_CWND = 10 * SMSS"
definition MIN_CWND :: u64 where [simp]: "MIN_CWND = 2 * SMSS"
definition LOSS_THRESHOLD :: u32 where [simp]: "LOSS_THRESHOLD = 3"

definition i64_max :: int where "i64_max = 2 ^ 63 - 1"

definition i64_sat :: "int \<Rightarrow> int" where
  "i64_sat x = max (- (2 ^ 63)) (min i64_max x)"

definition i64_wrap :: "int \<Rightarrow> int" where
  "i64_wrap x = (x + 2 ^ 63) mod 2 ^ 64 - 2 ^ 63"

text \<open>\<open>i64::try_from(v).unwrap_or(i64::MAX)\<close>, and division that rounds towards zero.\<close>

definition i64_try :: "nat \<Rightarrow> int" where
  "i64_try n = min (int n) i64_max"

definition trunc_div :: "int \<Rightarrow> int \<Rightarrow> int" where
  "trunc_div a b = (if a < 0 then - (- a div b) else a div b)"

record PacingState =
  pac_rate_bps :: u64
  pac_burst_bytes :: u64
  pac_tokens_milli :: int
  pac_last_send :: "Instant option"

definition PacingState_new :: PacingState where
  "PacingState_new =
     \<lparr>pac_rate_bps = 0, pac_burst_bytes = 0, pac_tokens_milli = 0, pac_last_send = None\<rparr>"

definition pacing_rate :: "u64 \<Rightarrow> u64 \<Rightarrow> u64" where
  "pacing_rate cwnd smoothed_rtt_ms =
     (if smoothed_rtt_ms = 0 then 0
      else u64_saturating_mul (u64_saturating_mul cwnd 8) 1000 div smoothed_rtt_ms)"

definition pacing_burst :: "u64 \<Rightarrow> u64 \<Rightarrow> u64 \<Rightarrow> u64" where
  "pacing_burst cwnd smoothed_rtt_ms smss =
     (if smoothed_rtt_ms = 0 then 0 else min (cwnd div 2) (u64_saturating_mul smss 10))"

definition burst_milli :: "PacingState \<Rightarrow> int" where
  "burst_milli p = i64_sat (i64_try (unat (pac_burst_bytes p)) * 1000)"

definition set_rate :: "PacingState \<Rightarrow> u64 \<Rightarrow> u64 \<Rightarrow> u64 \<Rightarrow> PacingState" where
  "set_rate p cwnd smoothed_rtt_ms smss =
     (let was_unlimited = (pac_rate_bps p = 0);
          p = p\<lparr>pac_rate_bps := pacing_rate cwnd smoothed_rtt_ms,
                pac_burst_bytes := pacing_burst cwnd smoothed_rtt_ms smss\<rparr> in
      if pac_rate_bps p = 0 then p\<lparr>pac_tokens_milli := 0\<rparr>
      else if was_unlimited then p\<lparr>pac_tokens_milli := burst_milli p\<rparr>
      else p\<lparr>pac_tokens_milli := min (pac_tokens_milli p) (burst_milli p)\<rparr>)"

definition tokens_at_milli :: "PacingState \<Rightarrow> Instant \<Rightarrow> int" where
  "tokens_at_milli p now =
     (case pac_last_send p of
        None \<Rightarrow> pac_tokens_milli p
      | Some last_send \<Rightarrow>
          let elapsed = duration_since now last_send;
              refilled = i64_try (unat (u64_saturating_mul (pac_rate_bps p) elapsed div 8)) in
          min (i64_sat (pac_tokens_milli p + refilled)) (burst_milli p))"

definition materialize :: "PacingState \<Rightarrow> Instant \<Rightarrow> PacingState" where
  "materialize p now =
     (let p = (if pac_last_send p \<noteq> None then p\<lparr>pac_tokens_milli := tokens_at_milli p now\<rparr> else p) in
      p\<lparr>pac_last_send := Some now\<rparr>)"

definition pacing_next_send_time :: "PacingState \<Rightarrow> Instant \<Rightarrow> nat \<Rightarrow> Instant option" where
  "pacing_next_send_time p now needed =
     (if pac_rate_bps p = 0 then None
      else
        let needed_milli = i64_sat (i64_try needed * 1000);
            tokens = tokens_at_milli p now in
        if tokens \<ge> needed_milli then None
        else
          let rate = i64_try (unat (pac_rate_bps p));
              delay = trunc_div (i64_sat (i64_wrap (needed_milli - tokens) * 8)) rate;
              delay_ms = (if delay < 0 then - 1 else of_int delay) in
          Some (instant_add now delay_ms))"

definition pacing_consume :: "PacingState \<Rightarrow> nat \<Rightarrow> Instant \<Rightarrow> PacingState" where
  "pacing_consume p bytes now =
     (let consumed = i64_sat (i64_try bytes * 1000) in
      p\<lparr>pac_tokens_milli := i64_sat (tokens_at_milli p now - consumed), pac_last_send := Some now\<rparr>)"

definition pacing_tokens :: "PacingState \<Rightarrow> u64" where
  "pacing_tokens p = of_int (max (pac_tokens_milli p) 0 div 1000)"

record Reno =
  reno_cwnd :: u64
  reno_ssthresh :: u64
  reno_in_flight :: u64
  reno_smss :: u64
  reno_consecutive_losses :: u32
  reno_smoothed_rtt_ms :: u64
  reno_pacing :: PacingState

definition Reno_new :: Reno where
  "Reno_new =
     \<lparr>reno_cwnd = INITIAL_CWND, reno_ssthresh = - 1, reno_in_flight = 0, reno_smss = SMSS,
      reno_consecutive_losses = 0, reno_smoothed_rtt_ms = 0, reno_pacing = PacingState_new\<rparr>"

definition update_pacing :: "Reno \<Rightarrow> Reno" where
  "update_pacing c =
     c\<lparr>reno_pacing := set_rate (reno_pacing c) (reno_cwnd c) (reno_smoothed_rtt_ms c) (reno_smss c)\<rparr>"

definition reduce_window :: "Reno \<Rightarrow> Reno" where
  "reduce_window c =
     (let c = c\<lparr>reno_ssthresh := max (reno_cwnd c div 2) MIN_CWND\<rparr>;
          c = c\<lparr>reno_cwnd := reno_ssthresh c\<rparr> in
      update_pacing c)"

definition reno_on_ack :: "Reno \<Rightarrow> nat \<Rightarrow> Reno" where
  "reno_on_ack c newly_acked_bytes =
     (let acked = of_nat newly_acked_bytes;
          c = c\<lparr>reno_consecutive_losses := 0\<rparr>;
          c = (if reno_cwnd c < reno_ssthresh c
               then c\<lparr>reno_cwnd := u64_saturating_add (reno_cwnd c) acked\<rparr>
               else c\<lparr>reno_cwnd := u64_saturating_add (reno_cwnd c)
                       (u64_saturating_mul (reno_smss c) acked div reno_cwnd c)\<rparr>) in
      update_pacing c)"

definition reno_on_loss :: "Reno \<Rightarrow> nat \<Rightarrow> Reno" where
  "reno_on_loss c lost_bytes =
     (let c = c\<lparr>reno_in_flight := u64_saturating_sub (reno_in_flight c) (of_nat lost_bytes)\<rparr>;
          c = c\<lparr>reno_consecutive_losses := 0\<rparr> in
      reduce_window c)"

definition reno_on_packet_sent :: "Reno \<Rightarrow> nat \<Rightarrow> Reno" where
  "reno_on_packet_sent c bytes =
     c\<lparr>reno_in_flight := u64_saturating_add (reno_in_flight c) (of_nat bytes)\<rparr>"

definition reno_on_packet_acknowledged :: "Reno \<Rightarrow> nat \<Rightarrow> Reno" where
  "reno_on_packet_acknowledged c bytes =
     c\<lparr>reno_in_flight := u64_saturating_sub (reno_in_flight c) (of_nat bytes)\<rparr>"

definition reno_on_packet_lost :: "Reno \<Rightarrow> nat \<Rightarrow> Reno" where
  "reno_on_packet_lost c bytes =
     (let c = c\<lparr>reno_in_flight := u64_saturating_sub (reno_in_flight c) (of_nat bytes)\<rparr>;
          c = c\<lparr>reno_consecutive_losses := reno_consecutive_losses c + 1\<rparr> in
      if reno_consecutive_losses c \<ge> LOSS_THRESHOLD
      then reduce_window (c\<lparr>reno_consecutive_losses := 0\<rparr>)
      else c)"

definition reno_send_allowance :: "Reno \<Rightarrow> nat" where
  "reno_send_allowance c = unat (u64_saturating_sub (reno_cwnd c) (reno_in_flight c))"

definition reno_reset :: "Reno \<Rightarrow> Reno" where
  "reno_reset c =
     c\<lparr>reno_cwnd := INITIAL_CWND, reno_ssthresh := - 1, reno_in_flight := 0,
       reno_consecutive_losses := 0, reno_smoothed_rtt_ms := 0, reno_pacing := PacingState_new\<rparr>"

definition set_smoothed_rtt :: "Reno \<Rightarrow> u64 \<Rightarrow> Instant \<Rightarrow> Reno" where
  "set_smoothed_rtt c ms now =
     (if reno_smoothed_rtt_ms c = ms then c
      else
        let c = c\<lparr>reno_smoothed_rtt_ms := ms\<rparr>;
            c = c\<lparr>reno_pacing := materialize (reno_pacing c) now\<rparr> in
        update_pacing c)"

definition reno_next_send_time :: "Reno \<Rightarrow> Instant \<Rightarrow> nat \<Rightarrow> Instant option" where
  "reno_next_send_time c now bytes = pacing_next_send_time (reno_pacing c) now bytes"

definition consume_pacing :: "Reno \<Rightarrow> nat \<Rightarrow> Instant \<Rightarrow> Reno" where
  "consume_pacing c bytes now = c\<lparr>reno_pacing := pacing_consume (reno_pacing c) bytes now\<rparr>"

section \<open>The window\<close>

datatype RenoEvent =
    OnAck nat | OnLoss nat | OnSent nat | OnAcked nat | OnLost nat | OnReset
  | OnRtt u64 Instant | OnConsume nat Instant

fun reno_step :: "Reno \<Rightarrow> RenoEvent \<Rightarrow> Reno" where
  "reno_step c (OnAck n) = reno_on_ack c n"
| "reno_step c (OnLoss n) = reno_on_loss c n"
| "reno_step c (OnSent n) = reno_on_packet_sent c n"
| "reno_step c (OnAcked n) = reno_on_packet_acknowledged c n"
| "reno_step c (OnLost n) = reno_on_packet_lost c n"
| "reno_step c OnReset = reno_reset c"
| "reno_step c (OnRtt ms now) = set_smoothed_rtt c ms now"
| "reno_step c (OnConsume n now) = consume_pacing c n now"

text \<open>The bucket fits the window: rate and burst are those of the window and the round-trip time.\<close>

definition bucket_fits :: "PacingState \<Rightarrow> u64 \<Rightarrow> u64 \<Rightarrow> bool" where
  "bucket_fits p cwnd rtt \<longleftrightarrow> pac_rate_bps p = pacing_rate cwnd rtt
     \<and> pac_burst_bytes p = pacing_burst cwnd rtt SMSS \<and> pac_tokens_milli p \<le> burst_milli p"

definition reno_inv :: "Reno \<Rightarrow> bool" where
  "reno_inv c \<longleftrightarrow> reno_cwnd c \<ge> MIN_CWND \<and> reno_ssthresh c \<ge> MIN_CWND \<and> reno_smss c = SMSS
     \<and> reno_consecutive_losses c < LOSS_THRESHOLD
     \<and> bucket_fits (reno_pacing c) (reno_cwnd c) (reno_smoothed_rtt_ms c)"

lemma i64_sat_nonneg: "0 \<le> x \<Longrightarrow> 0 \<le> i64_sat x"
  by (simp add: i64_sat_def i64_max_def)

lemma i64_try_nonneg: "0 \<le> i64_try n"
  by (simp add: i64_try_def i64_max_def)

lemma i64_sat_id: "- (2 ^ 63) \<le> x \<Longrightarrow> x < 2 ^ 63 \<Longrightarrow> i64_sat x = x"
  by (simp add: i64_sat_def i64_max_def)

lemma i64_wrap_id: "- (2 ^ 63) \<le> x \<Longrightarrow> x < 2 ^ 63 \<Longrightarrow> i64_wrap x = x"
  unfolding i64_wrap_def by (subst mod_pos_pos_trivial) simp_all

lemma unat_of_int_u64: "0 \<le> k \<Longrightarrow> k < 2 ^ 64 \<Longrightarrow> unat (of_int k :: u64) = nat k"
  unfolding unat_eq_nat_uint uint_word_of_int_eq by (subst take_bit_int_eq_self) simp_all

lemma burst_milli_nonneg: "0 \<le> burst_milli p"
  unfolding burst_milli_def by (intro i64_sat_nonneg mult_nonneg_nonneg i64_try_nonneg) simp

lemma burst_milli_cong: "pac_burst_bytes p = pac_burst_bytes q \<Longrightarrow> burst_milli p = burst_milli q"
  by (simp add: burst_milli_def)

lemma set_rate_fits: "bucket_fits (set_rate p cwnd rtt SMSS) cwnd rtt"
  by (auto simp: bucket_fits_def set_rate_def Let_def burst_milli_def intro!: i64_sat_nonneg
      mult_nonneg_nonneg i64_try_nonneg)

lemma update_pacing_inv:
  assumes "reno_cwnd c \<ge> MIN_CWND" "reno_ssthresh c \<ge> MIN_CWND" "reno_smss c = SMSS"
    "reno_consecutive_losses c < LOSS_THRESHOLD"
  shows "reno_inv (update_pacing c)"
  using assms set_rate_fits by (simp add: reno_inv_def update_pacing_def del: SMSS_def)

lemma u64_saturating_add_ge: "a \<le> u64_saturating_add a b"
  using unat_u64_less[of a] by (simp add: word_le_nat_alt unat_u64_saturating_add)

lemma reduce_window_inv:
  assumes "reno_smss c = SMSS" "reno_consecutive_losses c < LOSS_THRESHOLD"
  shows "reno_inv (reduce_window c)"
  unfolding reduce_window_def Let_def by (rule update_pacing_inv) (use assms in simp_all)

lemma reno_on_ack_inv: "reno_inv c \<Longrightarrow> reno_inv (reno_on_ack c n)"
  unfolding reno_on_ack_def Let_def
  by (rule update_pacing_inv)
    (auto simp: reno_inv_def intro: order_trans[OF _ u64_saturating_add_ge])

lemma tokens_at_le_burst:
  "pac_tokens_milli p \<le> burst_milli p \<Longrightarrow> tokens_at_milli p now \<le> burst_milli p"
  by (auto simp: tokens_at_milli_def Let_def split: option.splits)

lemma consume_fits: "bucket_fits p cwnd rtt \<Longrightarrow> bucket_fits (pacing_consume p n now) cwnd rtt"
proof -
  assume p: "bucket_fits p cwnd rtt"
  then have "tokens_at_milli p now \<le> burst_milli p" by (simp add: bucket_fits_def tokens_at_le_burst)
  moreover have "burst_milli (pacing_consume p n now) = burst_milli p"
    by (rule burst_milli_cong) (simp add: pacing_consume_def Let_def)
  moreover have "i64_sat (t - i64_sat (i64_try n * 1000)) \<le> b" if "t \<le> b" "0 \<le> b" for t b :: int
    using that i64_sat_nonneg[of "i64_try n * 1000"] i64_try_nonneg[of n] by (auto simp: i64_sat_def)
  ultimately show ?thesis
    using p burst_milli_nonneg[of p] by (simp add: bucket_fits_def pacing_consume_def Let_def)
qed

lemma reno_on_packet_lost_inv: "reno_inv c \<Longrightarrow> reno_inv (reno_on_packet_lost c n)"
proof -
  assume c: "reno_inv c"
  show ?thesis
  proof (cases "reno_consecutive_losses c + 1 \<ge> LOSS_THRESHOLD")
    case True
    then have "reno_on_packet_lost c n =
        reduce_window (c\<lparr>reno_in_flight := u64_saturating_sub (reno_in_flight c) (of_nat n),
          reno_consecutive_losses := 0\<rparr>)"
      by (simp add: reno_on_packet_lost_def Let_def)
    moreover have "reno_smss c = SMSS" using c by (simp add: reno_inv_def)
    ultimately show ?thesis by (simp add: reduce_window_inv)
  next
    case False
    with c show ?thesis by (simp add: reno_on_packet_lost_def Let_def reno_inv_def)
  qed
qed

lemma reno_invD:
  assumes "reno_inv c"
  shows "reno_cwnd c \<ge> MIN_CWND" "reno_ssthresh c \<ge> MIN_CWND" "reno_smss c = SMSS"
    "reno_consecutive_losses c < LOSS_THRESHOLD"
    "bucket_fits (reno_pacing c) (reno_cwnd c) (reno_smoothed_rtt_ms c)"
  using assms unfolding reno_inv_def by blast+

lemma set_smoothed_rtt_inv:
  assumes "reno_inv c"
  shows "reno_inv (set_smoothed_rtt c ms now)"
proof (cases "reno_smoothed_rtt_ms c = ms")
  case False
  have "reno_inv (update_pacing (c\<lparr>reno_smoothed_rtt_ms := ms, reno_pacing := materialize (reno_pacing c) now\<rparr>))"
    by (rule update_pacing_inv) (use reno_invD[OF assms] in simp_all)
  with False show ?thesis by (simp add: set_smoothed_rtt_def Let_def)
qed (use assms in \<open>simp add: set_smoothed_rtt_def\<close>)

lemma reno_on_loss_inv: "reno_inv c \<Longrightarrow> reno_inv (reno_on_loss c n)"
  unfolding reno_on_loss_def Let_def by (rule reduce_window_inv) (simp_all add: reno_inv_def)

lemma reno_reset_inv: "reno_inv c \<Longrightarrow> reno_inv (reno_reset c)"
  using burst_milli_nonneg
  by (simp add: reno_inv_def reno_reset_def bucket_fits_def PacingState_new_def pacing_rate_def
      pacing_burst_def word_order.extremum)

lemma reno_new_inv: "reno_inv Reno_new"
  using burst_milli_nonneg
  by (simp add: reno_inv_def Reno_new_def bucket_fits_def PacingState_new_def pacing_rate_def
      pacing_burst_def word_order.extremum)

lemma reno_step_inv: "reno_inv c \<Longrightarrow> reno_inv (reno_step c e)"
  by (cases e)
    (simp_all add: reno_on_ack_inv reno_on_loss_inv reno_on_packet_lost_inv reno_reset_inv set_smoothed_rtt_inv,
     simp_all add: reno_inv_def reno_on_packet_sent_def reno_on_packet_acknowledged_def consume_pacing_def
       consume_fits)

lemma reno_run_inv: "reno_inv c \<Longrightarrow> reno_inv (foldl reno_step c es)"
  by (induction es arbitrary: c) (auto intro: reno_step_inv)

section \<open>The token bucket\<close>

declare of_nat_unat [simp del]

text \<open>The refill over an interval: never more than the rate allows, and not less unless it is huge.\<close>

definition refill :: "PacingState \<Rightarrow> Duration \<Rightarrow> int" where
  "refill p d = i64_try (unat (u64_saturating_mul (pac_rate_bps p) d div 8))"

lemma refill_eq: "refill p d = min (int (unat (pac_rate_bps p)) * int (unat d)) (2 ^ 64 - 1) div 8"
proof -
  let ?x = "min (unat (pac_rate_bps p) * unat d) (2 ^ 64 - 1)"
  have "unat (u64_saturating_mul (pac_rate_bps p) d div 8) = ?x div 8"
    by (simp add: unat_div unat_u64_saturating_mul)
  moreover have "?x div 8 \<le> (2 ^ 64 - 1) div 8" by (rule div_le_mono) simp
  ultimately have "refill p d = int (?x div 8)"
    by (simp add: refill_def i64_try_def i64_max_def)
  also have "\<dots> = int ?x div 8" by (simp add: zdiv_int)
  also have "int ?x = min (int (unat (pac_rate_bps p)) * int (unat d)) (2 ^ 64 - 1)"
    by (simp add: of_nat_min of_nat_diff)
  finally show ?thesis .
qed

lemma refill_le: "8 * refill p d \<le> int (unat (pac_rate_bps p)) * int (unat d)"
proof -
  have "8 * (x div 8) \<le> x" for x :: int by linarith
  from this[of "min (int (unat (pac_rate_bps p)) * int (unat d)) (2 ^ 64 - 1)"]
  show ?thesis unfolding refill_eq by linarith
qed

lemma tokens_at_eq:
  assumes "pac_last_send p = Some l" "l \<le> now"
  shows "tokens_at_milli p now = min (i64_sat (pac_tokens_milli p + refill p (now - l))) (burst_milli p)"
  using assms by (simp add: tokens_at_milli_def refill_def duration_since_def u64_saturating_sub_def Let_def)

text \<open>What a paced sender works with: a positive rate below \<open>2 ^ 59\<close> bits per second, a burst of
  at most \<open>10 * SMSS\<close>, and tokens between the debt of one millisecond and a full bucket.\<close>

definition bucket_ok :: "PacingState \<Rightarrow> bool" where
  "bucket_ok p \<longleftrightarrow> 0 < unat (pac_rate_bps p) \<and> unat (pac_rate_bps p) < 2 ^ 59
     \<and> unat (pac_burst_bytes p) \<le> 12000
     \<and> - (int (unat (pac_rate_bps p)) div 8) - 1 \<le> pac_tokens_milli p
     \<and> pac_tokens_milli p \<le> burst_milli p"

lemma burst_milli_eq: "unat (pac_burst_bytes p) \<le> 12000 \<Longrightarrow> burst_milli p = 1000 * int (unat (pac_burst_bytes p))"
proof -
  assume b: "unat (pac_burst_bytes p) \<le> 12000"
  then have "i64_try (unat (pac_burst_bytes p)) = int (unat (pac_burst_bytes p))"
    by (simp add: i64_try_def i64_max_def)
  with b show ?thesis unfolding burst_milli_def by (subst i64_sat_id) simp_all
qed

lemma needed_milli_eq: "n \<le> 12000 \<Longrightarrow> i64_sat (i64_try n * 1000) = 1000 * int n"
  by (subst i64_sat_id) (simp_all add: i64_try_def i64_max_def)

lemma tokens_at_exact:
  assumes "bucket_ok p" "pac_last_send p = Some l" "l \<le> now"
  shows "tokens_at_milli p now = min (pac_tokens_milli p + refill p (now - l)) (burst_milli p)"
proof -
  have r: "0 \<le> refill p (now - l)" "refill p (now - l) \<le> (2 ^ 64 - 1) div 8"
    unfolding refill_eq by (auto intro: zdiv_mono1 simp: pos_imp_zdiv_nonneg_iff)
  have "burst_milli p \<le> 12000000" using assms(1) burst_milli_eq[of p] by (simp add: bucket_ok_def)
  moreover have "- (2 ^ 57) \<le> pac_tokens_milli p" "pac_tokens_milli p \<le> 12000000"
    using assms(1) calculation by (auto simp: bucket_ok_def)
  ultimately have "i64_sat (pac_tokens_milli p + refill p (now - l)) = pac_tokens_milli p + refill p (now - l)"
    using r by (intro i64_sat_id) simp_all
  then show ?thesis using tokens_at_eq[OF assms(2,3)] by simp
qed

text \<open>A send at \<open>t\<close> after a query at \<open>q\<close>, no earlier than the answer.\<close>

definition obeys :: "PacingState \<Rightarrow> Instant \<Rightarrow> Instant \<Rightarrow> nat \<Rightarrow> bool" where
  "obeys p q t n \<longleftrightarrow> q \<le> t
     \<and> (case pacing_next_send_time p q n of None \<Rightarrow> True | Some w \<Rightarrow> w \<le> t)"

lemma refill_mono:
  assumes "int (unat d) + k \<le> int (unat f)" "0 \<le> k"
  shows "min (refill p d + int (unat (pac_rate_bps p)) * k div 8) (2 ^ 61 - 1) \<le> refill p f"
proof -
  let ?r = "int (unat (pac_rate_bps p))"
  have "?r * (int (unat d) + k) \<le> ?r * int (unat f)" by (intro mult_left_mono assms) simp
  then have *: "?r * int (unat d) + ?r * k \<le> ?r * int (unat f)" by (simp add: distrib_left)
  have "min (min a m div 8 + b div 8) (m div 8) \<le> min c m div 8" if "a + b \<le> c" "0 \<le> b" for a b c m :: int
  proof (cases "c \<le> m")
    case True
    then have "min a m = a" "min c m = c" using that by simp_all
    moreover have "a div 8 + b div 8 \<le> (a + b) div 8"
      using div_add1_eq[of a b 8] by (simp add: pos_imp_zdiv_nonneg_iff)
    moreover have "(a + b) div 8 \<le> c div 8" using that by (intro zdiv_mono1) simp_all
    ultimately show ?thesis by (simp add: min_le_iff_disj)
  qed simp
  moreover have "0 \<le> ?r * k" using assms(2) by simp
  moreover have "(2 ^ 64 - 1) div 8 = (2 ^ 61 - 1 :: int)" by simp
  ultimately show ?thesis unfolding refill_eq using * by metis
qed

lemma delay_covers:
  fixes r D :: int
  assumes "0 < r"
  shows "D - r div 8 - 1 \<le> r * (8 * D div r) div 8"
proof -
  have "8 * D - r < r * (8 * D div r)"
    using assms by (metis add_diff_cancel_left' diff_less_eq mult_div_mod_eq pos_mod_bound less_diff_eq
        add.commute)
  then show ?thesis by linarith
qed

text \<open>The wait that is asked for: the deficit over the rate, rounded down.\<close>

lemma next_send_time_Some:
  assumes "bucket_ok p" "n \<le> 12000" "pac_last_send p = Some l" "l \<le> q"
    "pacing_next_send_time p q n = Some w" "unat w < 2 ^ 60"
  shows "tokens_at_milli p q < 1000 * int n"
    "unat w = unat q + nat (8 * (1000 * int n - tokens_at_milli p q) div int (unat (pac_rate_bps p)))"
proof -
  let ?r = "int (unat (pac_rate_bps p))"
  define D where "D = 1000 * int n - tokens_at_milli p q"
  have r: "0 < ?r" "?r < 2 ^ 59" "pac_rate_bps p \<noteq> 0"
    using assms(1) by (auto simp: bucket_ok_def)
  show lt: "tokens_at_milli p q < 1000 * int n"
    using assms(5) r needed_milli_eq[OF assms(2)]
    by (auto simp: pacing_next_send_time_def Let_def split: if_splits)
  have refill0: "0 \<le> refill p (q - l)" unfolding refill_eq by (simp add: pos_imp_zdiv_nonneg_iff)
  have "- (2 ^ 57) \<le> tokens_at_milli p q"
    using tokens_at_exact[OF assms(1,3,4)] refill0 assms(1) burst_milli_nonneg[of p]
    by (auto simp: bucket_ok_def)
  then have D: "0 < D" "D \<le> 2 ^ 58" using lt assms(2) by (auto simp: D_def)
  have "i64_wrap D = D" using D by (intro i64_wrap_id) simp_all
  moreover have "i64_sat (D * 8) = 8 * D" using D by (subst i64_sat_id) auto
  moreover have "i64_try (unat (pac_rate_bps p)) = ?r" using r by (simp add: i64_try_def i64_max_def)
  moreover have "0 \<le> 8 * D div ?r" using D r by (simp add: pos_imp_zdiv_nonneg_iff)
  ultimately have w: "w = instant_add q (of_int (8 * D div ?r))"
    using assms(5) r lt needed_milli_eq[OF assms(2)] D
    by (simp add: pacing_next_send_time_def Let_def trunc_div_def D_def split: if_splits)
  have le: "8 * D div ?r \<le> 8 * D div 1" by (rule zdiv_mono2) (use D r in auto)
  have min_small: "min a (2 ^ 64 - 1) = a" if "min a (2 ^ 64 - 1) < 2 ^ 60" for a :: nat
    using that by (auto simp: min_def split: if_splits)
  have "unat (of_int (8 * D div ?r) :: u64) = nat (8 * D div ?r)"
    using D le \<open>0 \<le> 8 * D div ?r\<close> by (intro unat_of_int_u64) simp_all
  then show "unat w = unat q + nat (8 * (1000 * int n - tokens_at_milli p q) div ?r)"
    using assms(6) min_small unfolding w instant_add_def unat_u64_saturating_add D_def by simp
qed

text \<open>One send keeps the bucket in order and spends no more than was earned.\<close>

lemma consume_step:
  assumes p: "bucket_ok p" "pac_last_send p = Some l" "l \<le> q" and o: "obeys p q t n"
    and n: "n \<le> unat (pac_burst_bytes p)" and t: "unat t < 2 ^ 60"
  shows "bucket_ok (pacing_consume p n t)"
    "8 * (pac_tokens_milli (pacing_consume p n t) + 1000 * int n)
       \<le> 8 * pac_tokens_milli p + int (unat (pac_rate_bps p)) * (int (unat t) - int (unat l))"
proof -
  let ?r = "int (unat (pac_rate_bps p))"
  have qt: "q \<le> t" "l \<le> t" using o p(3) by (auto simp: obeys_def)
  have d: "unat (t - l) = unat t - unat l" "unat (q - l) = unat q - unat l" "unat l \<le> unat q" "unat q \<le> unat t"
    using qt p(3) by (simp_all add: unat_sub word_le_nat_alt)
  have b: "unat (pac_burst_bytes p) \<le> 12000" using p(1) by (simp add: bucket_ok_def)
  have n': "n \<le> 12000" using n b by simp
  note B = burst_milli_eq[OF b]
  have nB: "1000 * int n \<le> burst_milli p" using B n by simp
  have r: "0 < ?r" "?r < 2 ^ 59" using p(1) by (auto simp: bucket_ok_def)
  have big: "- (2 ^ 57) \<le> pac_tokens_milli p" "pac_tokens_milli p \<le> 12000000" "1000 * int n \<le> 12000000"
    using p(1) B n' b by (auto simp: bucket_ok_def)
  note T = tokens_at_exact[OF p(1,2) qt(2)] and Q = tokens_at_exact[OF p(1,2,3)]
  have low: "1000 * int n - ?r div 8 - 1 \<le> tokens_at_milli p t"
  proof (cases "pacing_next_send_time p q n")
    case None
    then have "1000 * int n \<le> tokens_at_milli p q"
      using needed_milli_eq[OF n'] p(1)
      by (auto simp: pacing_next_send_time_def Let_def bucket_ok_def split: if_splits)
    then have "1000 * int n \<le> pac_tokens_milli p + refill p (q - l)" using Q by linarith
    moreover have "min (refill p (q - l)) (2 ^ 61 - 1) \<le> refill p (t - l)"
      using refill_mono[of "q - l" 0 "t - l" p] d by simp
    ultimately have "1000 * int n \<le> pac_tokens_milli p + refill p (t - l)"
      using big by (auto simp: min_le_iff_disj)
    moreover have "0 \<le> ?r div 8" by (simp add: pos_imp_zdiv_nonneg_iff)
    ultimately show ?thesis using T nB by linarith
  next
    case (Some w)
    have w: "unat w \<le> unat t" using o Some by (simp add: obeys_def word_le_nat_alt)
    then have "unat w < 2 ^ 60" using t by simp
    note S = next_send_time_Some[OF p(1) n' p(2,3) Some this]
    define D where "D = 1000 * int n - tokens_at_milli p q"
    define k where "k = 8 * D div ?r"
    have "0 < D" using S(1) by (simp add: D_def)
    then have k: "0 \<le> k" using r by (simp add: k_def pos_imp_zdiv_nonneg_iff)
    have "unat w = unat q + nat k" using S(2) by (simp add: k_def D_def)
    then have "int (unat (q - l)) + k \<le> int (unat (t - l))" using w d k by linarith
    from refill_mono[OF this k, of p] delay_covers[OF r(1), of D]
    have "min (refill p (q - l) + D - ?r div 8 - 1) (2 ^ 61 - 1) \<le> refill p (t - l)"
      by (simp add: k_def)
    moreover have "tokens_at_milli p q = pac_tokens_milli p + refill p (q - l)"
      using Q S(1) nB by linarith
    moreover have "0 \<le> ?r div 8" by (simp add: pos_imp_zdiv_nonneg_iff)
    ultimately show ?thesis using T nB big unfolding D_def by (auto simp: min_le_iff_disj)
  qed
  have hi: "tokens_at_milli p t \<le> 12000000" using T B b by auto
  have "?r div 8 \<le> 2 ^ 59" using r by linarith
  then have "i64_sat (tokens_at_milli p t - 1000 * int n) = tokens_at_milli p t - 1000 * int n"
    using low hi big(3) by (intro i64_sat_id) auto
  then have c: "pac_tokens_milli (pacing_consume p n t) = tokens_at_milli p t - 1000 * int n"
    "burst_milli (pacing_consume p n t) = burst_milli p"
    "pac_rate_bps (pacing_consume p n t) = pac_rate_bps p"
    "pac_burst_bytes (pacing_consume p n t) = pac_burst_bytes p"
    using needed_milli_eq[OF n'] by (simp_all add: pacing_consume_def Let_def burst_milli_def)
  show "bucket_ok (pacing_consume p n t)"
    using p(1) c low T unfolding bucket_ok_def by auto
  show "8 * (pac_tokens_milli (pacing_consume p n t) + 1000 * int n)
       \<le> 8 * pac_tokens_milli p + int (unat (pac_rate_bps p)) * (int (unat t) - int (unat l))" 
  proof -
    have "8 * refill p (t - l) \<le> ?r * (int (unat t) - int (unat l))"
      using refill_le[of p "t - l"] d by (simp add: of_nat_diff)
    moreover define x where "x = ?r * (int (unat t) - int (unat l))"
    moreover have "tokens_at_milli p t \<le> pac_tokens_milli p + refill p (t - l)" using T by simp
    ultimately show ?thesis using c(1) by simp
  qed
qed

fun paced :: "PacingState \<Rightarrow> (Instant \<times> Instant \<times> nat) list \<Rightarrow> bool" where
  "paced p [] \<longleftrightarrow> True"
| "paced p ((q, t, n) # sends) \<longleftrightarrow>
     (case pac_last_send p of Some l \<Rightarrow> l \<le> q | None \<Rightarrow> False) \<and> obeys p q t n
     \<and> n \<le> unat (pac_burst_bytes p) \<and> unat t < 2 ^ 60
     \<and> paced (pacing_consume p n t) sends"

definition send_end :: "Instant \<Rightarrow> (Instant \<times> Instant \<times> nat) list \<Rightarrow> Instant" where
  "send_end l sends = (if sends = [] then l else fst (snd (last sends)))"

definition send_bytes :: "(Instant \<times> Instant \<times> nat) list \<Rightarrow> nat" where
  "send_bytes sends = sum_list (map (snd \<circ> snd) sends)"

lemma paced_bound:
  "bucket_ok p \<Longrightarrow> pac_last_send p = Some l \<Longrightarrow> paced p sends \<Longrightarrow>
   8000 * int (send_bytes sends) \<le> 8 * pac_tokens_milli p
     + int (unat (pac_rate_bps p)) * (int (unat (send_end l sends)) - int (unat l))
     + 8 * (int (unat (pac_rate_bps p)) div 8 + 1)"
proof (induction sends arbitrary: p l)
  case Nil
  then show ?case by (simp add: send_bytes_def send_end_def bucket_ok_def)
next
  case (Cons x sends)
  obtain q t n where x: "x = (q, t, n)" by (cases x)
  let ?p = "pacing_consume p n t"
  have o: "l \<le> q" "obeys p q t n" "n \<le> unat (pac_burst_bytes p)" "unat t < 2 ^ 60" "paced ?p sends"
    using Cons.prems x by simp_all
  note step = consume_step[OF Cons.prems(1,2) o(1-4)]
  have p: "pac_last_send ?p = Some t" "pac_rate_bps ?p = pac_rate_bps p"
    by (simp_all add: pacing_consume_def Let_def)
  have e: "send_end l (x # sends) = send_end t sends" "send_bytes (x # sends) = n + send_bytes sends"
    by (simp_all add: send_end_def send_bytes_def x)
  show ?case
    using Cons.IH[OF step(1) p(1) o(5)] step(2) unfolding e p(2)
    by (simp add: algebra_simps)
qed

section \<open>Properties\<close>

text \<open>
  C17: The window never collapses. After any sequence of acknowledgements, losses, sends, resets,
  round-trip samples and paced sends, the window and the slow-start threshold are at least two
  segments, the allowance is exactly the room below the window, the pacing rate and burst are those
  of the window and the round-trip time, and the bucket holds no more than a burst; a loss event
  halves the window down to that floor, and an acknowledgement never shrinks it.
\<close>

theorem reno_window_invariant:
  "let c = foldl reno_step Reno_new es in
   reno_cwnd c \<ge> MIN_CWND \<and> reno_ssthresh c \<ge> MIN_CWND
   \<and> reno_send_allowance c = unat (reno_cwnd c) - unat (reno_in_flight c)
   \<and> pac_rate_bps (reno_pacing c) = pacing_rate (reno_cwnd c) (reno_smoothed_rtt_ms c)
   \<and> pac_burst_bytes (reno_pacing c) = pacing_burst (reno_cwnd c) (reno_smoothed_rtt_ms c) SMSS
   \<and> pac_tokens_milli (reno_pacing c) \<le> burst_milli (reno_pacing c)
   \<and> reno_cwnd (reno_on_loss c n) = max (reno_cwnd c div 2) MIN_CWND
   \<and> reno_cwnd c \<le> reno_cwnd (reno_on_ack c n)"
proof -
  define c where "c = foldl reno_step Reno_new es"
  have "reno_inv c" unfolding c_def by (rule reno_run_inv[OF reno_new_inv])
  moreover have "reno_cwnd (update_pacing x) = reno_cwnd x" for x by (simp add: update_pacing_def)
  ultimately show ?thesis
    unfolding c_def[symmetric] Let_def
    by (simp add: reno_inv_def bucket_fits_def reno_send_allowance_def unat_u64_saturating_sub
        reno_on_loss_def reduce_window_def reno_on_ack_def Let_def u64_saturating_add_ge del: SMSS_def)
qed

text \<open>
  C18: Paced senders keep to the rate. A sender that asks the bucket before every send of at most a
  burst, and sends no earlier than it is told, has sent by any time at most the burst, what the rate
  allows since the bucket was last used, and what one millisecond at that rate allows (the rounding
  of the wait), whatever the pattern of sends.
\<close>

theorem pacing_conforms:
  assumes "bucket_ok p" "pac_last_send p = Some l" "paced p sends"
  shows "8000 * int (send_bytes sends) \<le> 8000 * int (unat (pac_burst_bytes p))
     + int (unat (pac_rate_bps p)) * (int (unat (send_end l sends)) - int (unat l))
     + 8 * (int (unat (pac_rate_bps p)) div 8 + 1)"
  using paced_bound[OF assms] assms(1) burst_milli_eq[of p] by (simp add: bucket_ok_def)

theorem pacing_conforms_witness:
  "let p = \<lparr>pac_rate_bps = 80000, pac_burst_bytes = 100, pac_tokens_milli = 100000, pac_last_send = Some 0\<rparr>;
       sends = [(0, 0, 100), (0, 10, 100)] in
   paced p sends \<and> send_bytes sends = 200 \<and> send_end 0 sends = 10
   \<and> 8000 * int (send_bytes sends) \<le> 8000 * 100 + 80000 * 10 + 8 * (80000 div 8 + 1)"
proof -
  let ?p = "\<lparr>pac_rate_bps = 80000, pac_burst_bytes = 100, pac_tokens_milli = 100000, pac_last_send = Some 0\<rparr>"
  let ?p1 = "\<lparr>pac_rate_bps = 80000, pac_burst_bytes = 100, pac_tokens_milli = 0, pac_last_send = Some 0\<rparr>"
  let ?sends = "[(0, 0, 100), (0, 10, 100)] :: (Instant \<times> Instant \<times> nat) list"
  have ok: "bucket_ok ?p"
    by (simp add: bucket_ok_def burst_milli_def i64_sat_def i64_try_def i64_max_def)
  have n: "i64_sat (i64_try 100 * 1000) = 100000" by (simp add: i64_sat_def i64_try_def i64_max_def)
  have b: "burst_milli ?p = 100000" "burst_milli ?p1 = 100000" by (simp_all add: burst_milli_def n)
  have t: "tokens_at_milli ?p 0 = 100000" "tokens_at_milli ?p1 0 = 0"
    by (simp_all add: tokens_at_milli_def b Let_def duration_since_def u64_saturating_sub_def
        u64_saturating_mul_def i64_try_def i64_sat_def i64_max_def)
  have "obeys ?p 0 0 100" by (simp add: obeys_def pacing_next_send_time_def t n)
  moreover have "pacing_next_send_time ?p1 0 100 = Some 10"
    by (simp add: pacing_next_send_time_def t n i64_wrap_id i64_sat_id i64_max_def i64_try_def trunc_div_def
        instant_add_def u64_saturating_add_def Let_def)
  then have "obeys ?p1 0 10 100" by (simp add: obeys_def)
  moreover have "pacing_consume ?p 100 0 = ?p1" by (simp add: pacing_consume_def t n i64_sat_id)
  ultimately have run: "paced ?p ?sends" by simp
  have "pac_last_send ?p = Some 0" by simp
  note * = pacing_conforms[OF ok this run]
  have "send_bytes ?sends = 200" "send_end 0 ?sends = 10" by (simp_all add: send_bytes_def send_end_def)
  then show ?thesis using * run by (simp add: Let_def)
qed

end
