(* ===== verification/Session_State.thy ===== *)
theory Session_State
  imports Session_Stream Session_Loss Packet Session_Keys Session_Flow Session_Path Session_Congestion
    "HOL-Library.Finite_Map"
begin

text \<open>
  \<open>crates/umc-session/src/session.rs\<close>: the state of a session and the operations that do not build or
  process packets. A \<open>HashMap\<close> is a finite map, a \<open>HashSet\<close> a set. The external functions (the hash,
  the cipher, the key stream) are the record \<open>Crypto_Fns\<close>; the clock and the entropy source are
  arguments. An operation that mutates the session returns the new session with its result; on an
  error the session returned has the changes made before the error.
\<close>

section \<open>Constants and types\<close>

definition DEFAULT_DCID_LEN :: nat where [simp]: "DEFAULT_DCID_LEN = 8"
definition INITIAL_STREAMS :: u64 where [simp]: "INITIAL_STREAMS = 16"
definition MAX_CLOSED_STREAM_IDS :: nat where [simp]: "MAX_CLOSED_STREAM_IDS = 1024"
definition MAX_STREAMS_PER_SESSION :: nat where [simp]: "MAX_STREAMS_PER_SESSION = 1024"
definition IDLE_TIMEOUT_MS :: u64 where [simp]: "IDLE_TIMEOUT_MS = 30000"
definition CLOSE_REASON_IDLE_TIMEOUT :: u64 where [simp]: "CLOSE_REASON_IDLE_TIMEOUT = 0x16"
definition MIN_DRAIN_MS :: u64 where [simp]: "MIN_DRAIN_MS = 1000"
definition STATELESS_RESET_INTERVAL_MS :: u64 where [simp]: "STATELESS_RESET_INTERVAL_MS = 60000"
definition TRAFFIC_PADDING_TARGET :: nat where [simp]: "TRAFFIC_PADDING_TARGET = 1024"
definition PROTECTED_OVERHEAD_ESTIMATE :: nat where [simp]: "PROTECTED_OVERHEAD_ESTIMATE = 64"
definition DEFAULT_PATH_ID :: u64 where [simp]: "DEFAULT_PATH_ID = 0"

record Crypto_Fns =
  fn_hash :: "bytes \<Rightarrow> bytes"
  fn_enc :: aead_fun
  fn_dec :: aead_fun
  fn_stream :: stream_fun

record ClosedStreamRegistry =
  csr_ids :: "u64 set"
  csr_order :: "u64 list"

definition csr_contains :: "ClosedStreamRegistry \<Rightarrow> u64 \<Rightarrow> bool" where
  "csr_contains r stream_id = (stream_id \<in> csr_ids r)"

definition csr_insert :: "ClosedStreamRegistry \<Rightarrow> u64 \<Rightarrow> ClosedStreamRegistry" where
  "csr_insert r stream_id =
     (if stream_id \<in> csr_ids r then r
      else
        let r = r\<lparr>csr_ids := insert stream_id (csr_ids r), csr_order := csr_order r @ [stream_id]\<rparr> in
        if length (csr_order r) > MAX_CLOSED_STREAM_IDS then
          (case csr_order r of
             [] \<Rightarrow> r
           | oldest # rest \<Rightarrow> r\<lparr>csr_order := rest, csr_ids := csr_ids r - {oldest}\<rparr>)
        else r)"

datatype Role = Client | Server

datatype SessionState = Active | Draining | Closed

record SessionConfig =
  cfg_role :: Role
  cfg_dcid :: bytes
  cfg_local_traffic_secret :: bytes
  cfg_remote_traffic_secret :: bytes
  cfg_initial_max_data :: u64
  cfg_initial_max_stream_data :: u64
  cfg_max_ack_delay_ms :: u64

datatype SessionError =
    BadConnectionId | BadKeys | NoSpace | Space SpaceError | Packet PacketBuildError
  | WirePacket PacketError | StreamErr StreamError | Flow FlowError | DatagramErr DatagramError
  | Encode | StreamNotFound | StreamClosed | InvalidStreamId | ProtocolViolation | StreamLimit
  | AckErr AckError | KeyUpdateErr | PathBudget | PathNotFound | PathNotValidated | PathMigration
  | PathValidation | AmplificationLimit | CongestionLimited | DirectPathForbidden
  | ConnectionIdLimit | StatelessReset

record Session =
  ses_role :: Role
  ses_state :: SessionState
  ses_created_at :: Instant
  ses_local_keys :: PacketKeys
  ses_remote_keys :: PacketKeys
  ses_local_hp_key :: bytes
  ses_remote_hp_key :: bytes
  ses_spaces :: "(PacketSpace, PacketSpaceState) fmap"
  ses_sent :: AckSendState
  ses_congestion :: Reno
  ses_retransmit_payloads :: "(u64, bytes) fmap"
  ses_recv_acks :: "(PacketSpace, AckReceiveState) fmap"
  ses_rtt :: RttEstimator
  ses_loss :: LossDetector
  ses_streams :: "(u64, Stream) fmap"
  ses_next_outgoing_stream :: u64
  ses_next_outgoing_unidirectional :: u64
  ses_closed_streams :: ClosedStreamRegistry
  ses_flow :: FlowControl
  ses_stream_consumed :: "(u64, u64) fmap"
  ses_stream_app_consumed :: "(u64, u64) fmap"
  ses_reset_final_sizes :: "u64 set"
  ses_peer_initiated_streams :: nat
  ses_default_max_stream_data :: u64
  ses_max_streams_sent :: u64
  ses_datagrams :: DatagramQueue
  ses_dcid :: bytes
  ses_key_update :: KeyUpdateState
  ses_paths :: "(u64, Path) fmap"
  ses_last_migration_sequence :: u64
  ses_last_path_migration :: "(u64 \<times> u64 \<times> bool) option"
  ses_last_path_validation :: "u64 option"
  ses_primary_path_id :: u64
  ses_next_migration_sequence :: u64
  ses_cids :: ConnectionIdManager
  ses_direct_path_allowed :: bool
  ses_last_activity :: "Instant option"
  ses_draining_deadline :: "Instant option"
  ses_stateless_reset_secret :: "bytes option"
  ses_last_reset_ms :: "u64 option"
  ses_traffic_padding :: bool
  ses_timing_jitter_ms :: u64
  ses_privacy_profile :: u8


section \<open>Results with a state\<close>

text \<open>The \<open>?\<close> operator in a method that has mutated its session.\<close>

definition bindS :: "('e + 'a) \<times> 's \<Rightarrow> ('a \<Rightarrow> 's \<Rightarrow> ('e + 'b) \<times> 's) \<Rightarrow> ('e + 'b) \<times> 's" where
  "bindS rs f = (case rs of (Inl e, s) \<Rightarrow> (Inl e, s) | (Inr x, s) \<Rightarrow> f x s)"

lemma bindS_simps [simp]:
  "bindS (Inl e, s) f = (Inl e, s)"
  "bindS (Inr x, s) f = f x s"
  by (simp_all add: bindS_def)

text \<open>The length of a map, and the number of its values that satisfy a predicate.\<close>

definition fmlen :: "('k, 'v) fmap \<Rightarrow> nat" where
  "fmlen m = fcard (fmdom m)"

definition count_values :: "('v \<Rightarrow> bool) \<Rightarrow> ('k, 'v) fmap \<Rightarrow> nat" where
  "count_values P m =
     fcard (ffilter (\<lambda>k. case fmlookup m k of Some v \<Rightarrow> P v | None \<Rightarrow> False) (fmdom m))"

definition u64_checked_mul :: "u64 \<Rightarrow> u64 \<Rightarrow> u64 option" where
  "u64_checked_mul a b = (if unat a * unat b < 2 ^ 64 then Some (a * b) else None)"

section \<open>Construction\<close>

definition Session_init :: "SessionConfig \<Rightarrow> Instant \<Rightarrow> PacketKeys \<Rightarrow> PacketKeys \<Rightarrow> bytes \<Rightarrow> bytes \<Rightarrow> Session" where
  "Session_init config now local_keys remote_keys local_hp_key remote_hp_key =
     \<lparr>ses_role = cfg_role config, ses_state = Active, ses_created_at = now,
      ses_local_keys = local_keys, ses_remote_keys = remote_keys,
      ses_local_hp_key = local_hp_key, ses_remote_hp_key = remote_hp_key,
      ses_spaces =
        fmupd PacketSpace.RelayData (PacketSpaceState_new PacketSpace.RelayData)
          (fmupd PacketSpace.PathControl (PacketSpaceState_new PacketSpace.PathControl)
            (fmupd PacketSpace.SessionData (PacketSpaceState_new PacketSpace.SessionData) fmempty)),
      ses_sent = AckSendState_new, ses_congestion = Reno_new, ses_retransmit_payloads = fmempty,
      ses_recv_acks = fmempty, ses_rtt = RttEstimator_new,
      ses_loss = LossDetector_new (cfg_max_ack_delay_ms config), ses_streams = fmempty,
      ses_next_outgoing_stream = 0, ses_next_outgoing_unidirectional = 0,
      ses_closed_streams = \<lparr>csr_ids = {}, csr_order = []\<rparr>,
      ses_flow = FlowControl_new (cfg_initial_max_data config) INITIAL_STREAMS INITIAL_STREAMS,
      ses_stream_consumed = fmempty, ses_stream_app_consumed = fmempty, ses_reset_final_sizes = {},
      ses_peer_initiated_streams = 0, ses_default_max_stream_data = cfg_initial_max_stream_data config,
      ses_max_streams_sent = INITIAL_STREAMS, ses_datagrams = DatagramQueue_new,
      ses_dcid = cfg_dcid config,
      ses_key_update =
        KeyUpdateState_new (cfg_local_traffic_secret config) (cfg_remote_traffic_secret config),
      ses_paths = fmempty, ses_last_migration_sequence = 0, ses_last_path_migration = None,
      ses_last_path_validation = None, ses_primary_path_id = DEFAULT_PATH_ID,
      ses_next_migration_sequence = 0, ses_cids = ConnectionIdManager_new DEFAULT_ACTIVE_LIMIT,
      ses_direct_path_allowed = True, ses_last_activity = None, ses_draining_deadline = None,
      ses_stateless_reset_secret = None, ses_last_reset_ms = None, ses_traffic_padding = False,
      ses_timing_jitter_ms = 0, ses_privacy_profile = 0\<rparr>"

definition Session_new :: "Crypto_Fns \<Rightarrow> SessionConfig \<Rightarrow> Instant \<Rightarrow> (SessionError + Session) option" where
  "Session_new C config now =
     (if length (cfg_dcid config) \<noteq> DEFAULT_DCID_LEN then Some (Inl BadConnectionId)
      else
        Option.bind (from_traffic_secret (fn_hash C) (cfg_local_traffic_secret config)) (\<lambda>r.
        case r of
          Inl _ \<Rightarrow> Some (Inl BadKeys)
        | Inr local_keys \<Rightarrow>
            Option.bind (from_traffic_secret (fn_hash C) (cfg_remote_traffic_secret config)) (\<lambda>r.
            case r of
              Inl _ \<Rightarrow> Some (Inl BadKeys)
            | Inr remote_keys \<Rightarrow>
                Option.bind (header_protection_key (fn_hash C) (cfg_local_traffic_secret config)) (\<lambda>local_hp_key.
                Option.bind (header_protection_key (fn_hash C) (cfg_remote_traffic_secret config)) (\<lambda>remote_hp_key.
                Some (Inr (Session_init config now local_keys remote_keys local_hp_key remote_hp_key)))))))"

definition set_stateless_reset_secret :: "Session \<Rightarrow> bytes \<Rightarrow> Session" where
  "set_stateless_reset_secret s secret = s\<lparr>ses_stateless_reset_secret := Some secret\<rparr>"

section \<open>Streams\<close>

definition open_stream_kind :: "Session \<Rightarrow> bool \<Rightarrow> (SessionError + u64) \<times> Session" where
  "open_stream_kind s unidirectional =
     (if fmlen (ses_streams s) \<ge> MAX_STREAMS_PER_SESSION then (Inl StreamLimit, s)
      else
        let sequence =
              (if unidirectional then ses_next_outgoing_unidirectional s else ses_next_outgoing_stream s) in
        case u64_checked_add sequence 1 of
          None \<Rightarrow> (Inl StreamLimit, s)
        | Some next_sequence \<Rightarrow>
            let s = (if unidirectional then s\<lparr>ses_next_outgoing_unidirectional := next_sequence\<rparr>
                     else s\<lparr>ses_next_outgoing_stream := next_sequence\<rparr>);
                initiator = (case ses_role s of Client \<Rightarrow> 0 | Server \<Rightarrow> 1);
                direction = push_bit 1 (of_bool unidirectional) in
            (case Option.bind (u64_checked_mul sequence 4) (\<lambda>v. u64_checked_add v (initiator OR direction)) of
              None \<Rightarrow> (Inl StreamLimit, s)
            | Some sid \<Rightarrow>
                (Inr sid,
                 s\<lparr>ses_streams :=
                    fmupd sid ((Stream_new sid [] (ses_default_max_stream_data s))
                                \<lparr>st_unidirectional := unidirectional\<rparr>) (ses_streams s)\<rparr>)))"

definition open_stream :: "Session \<Rightarrow> (SessionError + u64) \<times> Session" where
  "open_stream s = open_stream_kind s False"

definition open_stream_with_protocol ::
    "Session \<Rightarrow> bytes \<Rightarrow> bool \<Rightarrow> (SessionError + u64) \<times> Session" where
  "open_stream_with_protocol s protocol_id unidirectional =
     (if length protocol_id > MAX_PROTOCOL_ID_LEN then (Inl Encode, s)
      else
        bindS (open_stream_kind s unidirectional) (\<lambda>stream_id s.
        (Inr stream_id,
         case fmlookup (ses_streams s) stream_id of
           None \<Rightarrow> s
         | Some st \<Rightarrow>
             s\<lparr>ses_streams :=
                fmupd stream_id (st\<lparr>st_protocol_id := protocol_id, st_unidirectional := unidirectional\<rparr>)
                  (ses_streams s)\<rparr>)))"

definition validate_stream_id :: "u64 \<Rightarrow> u64 \<Rightarrow> bool \<Rightarrow> bool" where
  "validate_stream_id stream_id initiator_bit unidirectional =
     (let direction_bit = (if unidirectional then 2 else 0) in
      initiator_bit \<le> 1 \<and> stream_id AND 3 = initiator_bit OR direction_bit)"

definition put_stream :: "Session \<Rightarrow> u64 \<Rightarrow> Stream \<Rightarrow> Session" where
  "put_stream s stream_id st = s\<lparr>ses_streams := fmupd stream_id st (ses_streams s)\<rparr>"

definition send_stream_data ::
    "Session \<Rightarrow> u64 \<Rightarrow> bytes \<Rightarrow> bool \<Rightarrow> (SessionError + bytes) \<times> Session" where
  "send_stream_data s stream_id data fin =
     (case fmlookup (ses_streams s) stream_id of
        None \<Rightarrow> (Inl StreamNotFound, s)
      | Some st \<Rightarrow>
          (case send_ready st data of
             (Inl e, st) \<Rightarrow> (Inl (StreamErr e), put_stream s stream_id st)
           | (Inr (offset, chunk), st) \<Rightarrow>
               let s = put_stream s stream_id st;
                   fin = (fin \<and> length chunk = length data);
                   frame = \<lparr>sf_stream_id = stream_id, sf_fin = fin, sf_offset_present = (offset \<noteq> 0),
                            sf_len_present = True, sf_open = (offset = 0),
                            sf_unidirectional = st_unidirectional st, sf_offset = offset, sf_data = chunk,
                            sf_protocol_id = st_protocol_id st, sf_metadata = []\<rparr> in
               (bindR (map_err (\<lambda>_. Encode) (varint_encode_into [] FT_STREAM)) (\<lambda>payload.
                bindR (map_err (\<lambda>_. Encode) (StreamFrame_encode frame)) (\<lambda>enc.
                Inr (payload @ drop 1 enc))), s)))"

definition close_stream_send_payload :: "Session \<Rightarrow> u64 \<Rightarrow> (SessionError + bytes) \<times> Session" where
  "close_stream_send_payload s stream_id =
     (case fmlookup (ses_streams s) stream_id of
        None \<Rightarrow> (Inl StreamNotFound, s)
      | Some st \<Rightarrow>
          if st_send_state st \<in> {DataAcked, ResetAcked, ResetSent} then (Inl (StreamErr AlreadyClosed), s)
          else
            let offset = st_next_send_offset st;
                frame = \<lparr>sf_stream_id = stream_id, sf_fin = True, sf_offset_present = (offset \<noteq> 0),
                         sf_len_present = True, sf_open = (offset = 0),
                         sf_unidirectional = st_unidirectional st, sf_offset = offset, sf_data = [],
                         sf_protocol_id = (if offset = 0 then st_protocol_id st else []), sf_metadata = []\<rparr> in
            (map_err (\<lambda>_. Encode) (StreamFrame_encode frame),
             put_stream s stream_id (st\<lparr>st_send_state := DataSent\<rparr>)))"

definition reset_stream_payload :: "Session \<Rightarrow> u64 \<Rightarrow> u64 \<Rightarrow> (SessionError + bytes) \<times> Session" where
  "reset_stream_payload s stream_id application_error_code =
     (case fmlookup (ses_streams s) stream_id of
        None \<Rightarrow> (Inl StreamNotFound, s)
      | Some st \<Rightarrow>
          (map_err (\<lambda>_. Encode)
             (ResetStreamFrame_encode \<lparr>rs_stream_id = stream_id, rs_app_error_code = application_error_code,
                                       rs_final_size = st_next_send_offset st\<rparr>),
           put_stream s stream_id (st\<lparr>st_send_state := ResetSent\<rparr>)))"

definition stop_stream_payload :: "Session \<Rightarrow> u64 \<Rightarrow> u64 \<Rightarrow> SessionError + bytes" where
  "stop_stream_payload s stream_id application_error_code =
     (if fmlookup (ses_streams s) stream_id = None then Inl StreamNotFound
      else
        map_err (\<lambda>_. Encode)
          (StopSendingFrame_encode \<lparr>ss_stream_id = stream_id, ss_app_error_code = application_error_code\<rparr>))"

section \<open>Datagrams\<close>

definition send_datagram :: "Session \<Rightarrow> Datagram \<Rightarrow> nat \<Rightarrow> (SessionError + unit) \<times> Session" where
  "send_datagram s d max_size =
     (let (r, q) = enqueue_outbound (ses_datagrams s) d max_size in
      (map_err DatagramErr r, s\<lparr>ses_datagrams := q\<rparr>))"

definition ok_opt :: "'e + 'a \<Rightarrow> 'a option" where
  "ok_opt r = (case r of Inl _ \<Rightarrow> None | Inr x \<Rightarrow> Some x)"

definition pop_outbound_datagram_payload :: "Session \<Rightarrow> u64 \<Rightarrow> bytes option \<times> Session" where
  "pop_outbound_datagram_payload s now_ms =
     (let (r, q) = pop_outbound (ses_datagrams s) now_ms;
          s = s\<lparr>ses_datagrams := q\<rparr> in
      case r of
        None \<Rightarrow> (None, s)
      | Some d \<Rightarrow>
          (ok_opt (DatagramFrame_encode
             \<lparr>dg_context_id = dgm_context_id d, dg_ack_requested = dgm_ack_requested d,
              dg_duplicate_suppression = False,
              dg_expiration_delta =
                map_option (\<lambda>expires_at. u64_saturating_sub expires_at now_ms) (dgm_expires_at_ms d),
              dg_data = dgm_data d\<rparr>), s))"

definition recv_datagram :: "Session \<Rightarrow> Datagram option \<times> Session" where
  "recv_datagram s =
     (let (r, q) = pop_inbound (ses_datagrams s) in (r, s\<lparr>ses_datagrams := q\<rparr>))"

section \<open>Reading\<close>

definition map_update :: "'k \<Rightarrow> ('v \<Rightarrow> 'v) \<Rightarrow> ('k, 'v) fmap \<Rightarrow> ('k, 'v) fmap" where
  "map_update k f m = (case fmlookup m k of None \<Rightarrow> m | Some v \<Rightarrow> fmupd k (f v) m)"

text \<open>\<open>*map.entry(k).or_insert(d) = f(..)\<close>.\<close>

definition entry_update :: "'k \<Rightarrow> 'v \<Rightarrow> ('v \<Rightarrow> 'v) \<Rightarrow> ('k, 'v) fmap \<Rightarrow> ('k, 'v) fmap" where
  "entry_update k d f m = fmupd k (f (case fmlookup m k of None \<Rightarrow> d | Some v \<Rightarrow> v)) m"

definition read_stream :: "Session \<Rightarrow> u64 \<Rightarrow> (SessionError + bytes \<times> bool) \<times> Session" where
  "read_stream s stream_id =
     (case fmlookup (ses_streams s) stream_id of
        None \<Rightarrow> (Inl StreamNotFound, s)
      | Some st \<Rightarrow>
          if st_recv_state st = ResetRecvd then
            (Inl (StreamErr ResetByPeer), put_stream s stream_id (st\<lparr>st_recv_state := ResetRead\<rparr>))
          else if st_recv_state st = ResetRead then (Inl (StreamErr AlreadyClosed), s)
          else
            let ((data, eof), st) = read_available st;
                s = put_stream s stream_id st;
                n = of_nat (length data);
                s = (if data \<noteq> [] then
                       s\<lparr>ses_stream_consumed :=
                           map_update stream_id (\<lambda>c. u64_saturating_sub c n) (ses_stream_consumed s),
                         ses_stream_app_consumed :=
                           entry_update stream_id 0 (\<lambda>c. u64_saturating_add c n) (ses_stream_app_consumed s)\<rparr>
                     else s);
                s = (if eof then
                       s\<lparr>ses_closed_streams := csr_insert (ses_closed_streams s) stream_id,
                         ses_stream_consumed := fmdrop stream_id (ses_stream_consumed s),
                         ses_stream_app_consumed := fmdrop stream_id (ses_stream_app_consumed s),
                         ses_reset_final_sizes := ses_reset_final_sizes s - {stream_id}\<rparr>
                     else s) in
            (Inr (data, eof), s))"

definition stream_reset_error :: "Session \<Rightarrow> u64 \<Rightarrow> u64 option" where
  "stream_reset_error s stream_id =
     Option.bind (fmlookup (ses_streams s) stream_id) st_reset_error_code"

section \<open>Flow-control frames\<close>

definition push_ok :: "bytes list \<Rightarrow> 'e + bytes \<Rightarrow> bytes list" where
  "push_ok frames r = (case r of Inl _ \<Rightarrow> frames | Inr enc \<Rightarrow> frames @ [enc])"

definition stream_credit :: "Session \<Rightarrow> u64 \<Rightarrow> bytes list \<Rightarrow> bytes list \<times> Session" where
  "stream_credit s stream_id frames =
     (case fmlookup (ses_streams s) stream_id of
        None \<Rightarrow> (frames, s)
      | Some st \<Rightarrow>
          let unread = (case fmlookup (ses_stream_consumed s) stream_id of None \<Rightarrow> 0 | Some v \<Rightarrow> v);
              app_consumed = (case fmlookup (ses_stream_app_consumed s) stream_id of None \<Rightarrow> 0 | Some v \<Rightarrow> v);
              limit = st_max_stream_data_local st;
              below_unread_watermark = u64_saturating_sub limit unread < limit div 2;
              below_consumption_watermark = u64_saturating_sub limit app_consumed < limit div 2 in
          if below_unread_watermark \<or> below_consumption_watermark then
            let new_max = u64_saturating_mul limit 2 in
            if new_max > limit then
              (push_ok frames (MaxStreamDataFrame_encode
                 \<lparr>msd_stream_id = stream_id, msd_maximum_stream_data = new_max\<rparr>),
               put_stream s stream_id (st\<lparr>st_max_stream_data_local := new_max\<rparr>))
            else (frames, s)
          else (frames, s))"

fun stream_credits :: "Session \<Rightarrow> u64 list \<Rightarrow> bytes list \<Rightarrow> bytes list \<times> Session" where
  "stream_credits s [] frames = (frames, s)"
| "stream_credits s (i # ids) frames =
     (let (frames, s) = stream_credit s i frames in stream_credits s ids frames)"

text \<open>The iteration order of the set of stream ids is the argument \<open>iter\<close>.\<close>

definition flow_control_frames :: "(u64 set \<Rightarrow> u64 list) \<Rightarrow> Session \<Rightarrow> bytes list \<times> Session" where
  "flow_control_frames iter s =
     (let (frames, s) =
        (if credit_remaining_local (ses_flow s) < fc_max_data_local (ses_flow s) div 2 then
           let new_max = u64_saturating_mul (fc_max_data_local (ses_flow s)) 2 in
           if new_max > fc_max_data_local (ses_flow s) then
             (push_ok [] (MaxDataFrame_encode \<lparr>md_maximum_data = new_max\<rparr>),
              s\<lparr>ses_flow := grant_more (ses_flow s) new_max\<rparr>)
           else ([], s)
         else ([], s));
          ids = iter (fset (fmdom (ses_stream_consumed s) |\<union>| fmdom (ses_stream_app_consumed s)));
          (frames, s) = stream_credits s ids frames;
          peer = of_nat (ses_peer_initiated_streams s) in
      if peer > INITIAL_STREAMS \<and> u64_saturating_mul peer 2 > ses_max_streams_sent s then
        let new_count = u64_saturating_mul peer 2 in
        (push_ok frames (MaxStreamsFrame_encode \<lparr>ms_bidirectional = True, ms_maximum_streams = new_count\<rparr>),
         s\<lparr>ses_max_streams_sent := new_count,
           ses_flow := (ses_flow s)\<lparr>fc_max_bidirectional_streams_local := new_count\<rparr>\<rparr>)
      else (frames, s))"

end
