(* ===== verification/Session_Control.thy ===== *)
theory Session_Control
  imports Session_State
begin

text \<open>
  \<open>crates/umc-session/src/session.rs\<close>: timers and closing, stateless resets, key updates, paths and
  migration, connection ids and the privacy settings of a session.
\<close>

section \<open>Timers and closing\<close>

definition prune_retransmit_payload :: "Session \<Rightarrow> u64 \<Rightarrow> Session" where
  "prune_retransmit_payload s pn = s\<lparr>ses_retransmit_payloads := fmdrop pn (ses_retransmit_payloads s)\<rparr>"

definition touch :: "Session \<Rightarrow> Instant \<Rightarrow> Session" where
  "touch s now = s\<lparr>ses_last_activity := Some now\<rparr>"

definition idle_expired :: "Session \<Rightarrow> Instant \<Rightarrow> bool" where
  "idle_expired s now =
     (case ses_last_activity s of
        None \<Rightarrow> False
      | Some activity \<Rightarrow> duration_since now activity \<ge> IDLE_TIMEOUT_MS)"

definition idle_reason :: bytes where
  "idle_reason = map (of_nat \<circ> of_char) ''idle timeout''"

definition build_idle_close :: "Session \<Rightarrow> Instant \<Rightarrow> bytes option" where
  "build_idle_close s now =
     (if \<not> idle_expired s now then None
      else
        Option.bind (ok_opt (ConnectionCloseFrame_encode
          \<lparr>cc_error_code = CLOSE_REASON_IDLE_TIMEOUT, cc_trigger_frame_type = 0, cc_reason = idle_reason\<rparr>)) (\<lambda>enc.
        Option.bind (ok_opt (varint_encode_into [] FT_CONNECTION_CLOSE)) (\<lambda>payload.
        Some (payload @ drop 1 enc))))"

definition session_close :: "Session \<Rightarrow> Instant \<Rightarrow> Session" where
  "session_close s now =
     (if ses_state s \<noteq> Active then s
      else
        let s = s\<lparr>ses_state := Draining\<rparr>;
            pto_ms = pto (ses_loss s) (ses_rtt s);
            drain_ms = max (3 * pto_ms) MIN_DRAIN_MS in
        s\<lparr>ses_draining_deadline := Some (instant_add now drain_ms)\<rparr>)"

definition draining_expired :: "Session \<Rightarrow> Instant \<Rightarrow> bool" where
  "draining_expired s now =
     (case ses_draining_deadline s of None \<Rightarrow> False | Some deadline \<Rightarrow> now \<ge> deadline)"

definition finalize_close :: "Session \<Rightarrow> Session" where
  "finalize_close s = s\<lparr>ses_state := Closed\<rparr>"

definition maybe_emit_stateless_reset ::
    "'e entropy \<Rightarrow> 'e \<Rightarrow> Session \<Rightarrow> Instant \<Rightarrow> nat \<Rightarrow> bytes option \<times> Session \<times> 'e" where
  "maybe_emit_stateless_reset fill e s now trigger_len =
     (case ses_stateless_reset_secret s of
        None \<Rightarrow> (None, s, e)
      | Some secret \<Rightarrow>
          if (case ses_last_reset_ms s of
                None \<Rightarrow> False
              | Some t \<Rightarrow> u64_saturating_sub now t < STATELESS_RESET_INTERVAL_MS)
          then (None, s, e)
          else
            let s = s\<lparr>ses_last_reset_ms := Some now\<rparr>;
                (reset, e) = build_stateless_reset fill e (reset_token secret);
                max_len = min (max trigger_len MIN_RESET_LEN) (length reset) in
            (Some (take max_len reset), s, e))"

definition session_replay_bytes :: "Session \<Rightarrow> PacketSpace \<Rightarrow> nat option" where
  "session_replay_bytes s space = map_option replay_bytes (fmlookup (ses_spaces s) space)"

definition expected_pn :: "Session \<Rightarrow> PacketSpace \<Rightarrow> u64" where
  "expected_pn s space =
     (case fmlookup (ses_spaces s) space of
        None \<Rightarrow> 0
      | Some st \<Rightarrow> u64_saturating_add (pss_largest_received st) 1)"

section \<open>Key updates\<close>

definition initiate_key_update :: "Crypto_Fns \<Rightarrow> Session \<Rightarrow> ((SessionError + bytes) \<times> Session) option" where
  "initiate_key_update C s =
     Option.bind (ku_initiate (fn_hash C) (ses_key_update s)) (\<lambda>(r, k).
     let s = s\<lparr>ses_key_update := k\<rparr> in
     Some
       (bindR (map_err (\<lambda>_. KeyUpdateErr) r) (\<lambda>sequence.
        bindR (map_err (\<lambda>_. Encode) (KeyUpdateFrame_encode
          \<lparr>ku_update_sequence = sequence, ku_request_peer_update = False\<rparr>)) (\<lambda>enc.
        bindR (map_err (\<lambda>_. Encode) (varint_encode FT_KEY_UPDATE)) (\<lambda>ty.
        bindR (map_err (\<lambda>_. Encode) (varint_encode_into [] FT_KEY_UPDATE)) (\<lambda>payload.
        Inr (payload @ drop (length ty) enc))))), s))"

definition on_key_update :: "Crypto_Fns \<Rightarrow> Session \<Rightarrow> u64 \<Rightarrow> ((SessionError + unit) \<times> Session) option" where
  "on_key_update C s sequence =
     Option.bind (ku_receive (fn_hash C) (ses_key_update s) sequence) (\<lambda>(r, k).
     Some (map_err (\<lambda>_. KeyUpdateErr) r, s\<lparr>ses_key_update := k\<rparr>))"

section \<open>Paths\<close>

definition is_direct_carrier :: "string \<Rightarrow> bool" where
  "is_direct_carrier carrier_type = (\<not> sublist ''relay'' carrier_type \<and> \<not> sublist ''route'' carrier_type)"

definition add_path_with_challenge_bytes ::
    "Session \<Rightarrow> u64 \<Rightarrow> string \<Rightarrow> bytes \<Rightarrow> bytes \<Rightarrow> Instant \<Rightarrow> bytes \<Rightarrow> (SessionError + bytes) \<times> Session" where
  "add_path_with_challenge_bytes s path_id carrier_type local_ctx remote_ctx now challenge =
     (if fmlookup (ses_paths s) path_id \<noteq> None then (Inl PathBudget, s)
      else if \<not> ses_direct_path_allowed s \<and> is_direct_carrier carrier_type then (Inl DirectPathForbidden, s)
      else
        let active = count_values (\<lambda>p. path_state p = Validated \<or> path_state p = Degraded) (ses_paths s);
            validating = count_values (\<lambda>p. path_state p = Validating) (ses_paths s) in
        if active + validating > MAX_CANDIDATE_PATHS then (Inl PathBudget, s)
        else
          let path = Path_new path_id carrier_type local_ctx remote_ctx now;
              pto_ms = pto (ses_loss s) (ses_rtt s) in
          case start_validation path challenge now pto_ms of
            (Inl _, _) \<Rightarrow> (Inl PathBudget, s)
          | (Inr _, path) \<Rightarrow> (Inr challenge, s\<lparr>ses_paths := fmupd path_id path (ses_paths s)\<rparr>))"

definition add_path_with_challenge ::
    "Session \<Rightarrow> u64 \<Rightarrow> string \<Rightarrow> bytes \<Rightarrow> bytes \<Rightarrow> Instant \<Rightarrow> (SessionError + bytes) \<times> Session" where
  "add_path_with_challenge s path_id carrier_type local_ctx remote_ctx now =
     add_path_with_challenge_bytes s path_id carrier_type local_ctx remote_ctx now (replicate 8 0xAB)"

definition add_path ::
    "Session \<Rightarrow> u64 \<Rightarrow> string \<Rightarrow> bytes \<Rightarrow> bytes \<Rightarrow> Instant \<Rightarrow> (SessionError + unit) \<times> Session" where
  "add_path s path_id carrier_type local_ctx remote_ctx now =
     bindS (add_path_with_challenge s path_id carrier_type local_ctx remote_ctx now) (\<lambda>_ s. (Inr (), s))"

definition add_path_with_entropy ::
    "'e entropy \<Rightarrow> 'e \<Rightarrow> Session \<Rightarrow> u64 \<Rightarrow> string \<Rightarrow> bytes \<Rightarrow> bytes \<Rightarrow> Instant
       \<Rightarrow> (SessionError + bytes) \<times> Session \<times> 'e" where
  "add_path_with_entropy fill e s path_id carrier_type local_ctx remote_ctx now =
     (let (challenge, e) = fill e 8;
          (r, s) = add_path_with_challenge_bytes s path_id carrier_type local_ctx remote_ctx now challenge in
      (r, s, e))"

definition on_path_challenge :: "bytes \<Rightarrow> bytes" where
  "on_path_challenge challenge =
     (let payload = (case varint_encode_into [] FT_PATH_RESPONSE of Inl _ \<Rightarrow> [] | Inr p \<Rightarrow> p) in
      case PathResponseFrame_encode \<lparr>pr_data = challenge\<rparr> of
        Inl _ \<Rightarrow> payload
      | Inr enc \<Rightarrow>
          let type_len = (case varint_encode FT_PATH_RESPONSE of Inl _ \<Rightarrow> 0 | Inr ty \<Rightarrow> length ty) in
          if type_len \<le> length enc then payload @ drop type_len enc else payload)"

definition on_path_response :: "Session \<Rightarrow> u64 \<Rightarrow> bytes \<Rightarrow> (SessionError + unit) \<times> Session" where
  "on_path_response s path_id response =
     (case fmlookup (ses_paths s) path_id of
        None \<Rightarrow> (Inl PathNotFound, s)
      | Some path \<Rightarrow>
          (case path_confirm path response of
             (Inl _, path) \<Rightarrow> (Inl PathValidation, s\<lparr>ses_paths := fmupd path_id path (ses_paths s)\<rparr>)
           | (Inr _, path) \<Rightarrow>
               (Inr (), s\<lparr>ses_paths := fmupd path_id path (ses_paths s),
                          ses_last_path_validation := Some path_id\<rparr>)))"

definition migrate_to :: "Session \<Rightarrow> u64 \<Rightarrow> bool \<Rightarrow> (SessionError + unit) \<times> Session" where
  "migrate_to s new_path_id keep_old =
     (case fmlookup (ses_paths s) new_path_id of
        None \<Rightarrow> (Inl PathNotFound, s)
      | Some path \<Rightarrow>
          if \<not> ses_direct_path_allowed s \<and> is_direct_carrier (path_carrier_type path)
          then (Inl DirectPathForbidden, s)
          else if path_state path \<noteq> Validated then (Inl PathNotValidated, s)
          else
            let s = (if \<not> keep_old then
                       s\<lparr>ses_paths :=
                          fmmap_keys (\<lambda>i p. if i \<noteq> new_path_id then mark_failed p else p) (ses_paths s)\<rparr>
                     else s);
                old_path_id = ses_primary_path_id s in
            (Inr (), s\<lparr>ses_primary_path_id := new_path_id,
                       ses_last_path_migration := Some (old_path_id, new_path_id, keep_old)\<rparr>))"

definition build_migrate_payload :: "Session \<Rightarrow> u64 \<Rightarrow> bool \<Rightarrow> bool \<Rightarrow> (SessionError + bytes) \<times> Session" where
  "build_migrate_payload s new_path_id keep_old_path duplicate_critical_frames =
     (case fmlookup (ses_paths s) new_path_id of
        None \<Rightarrow> (Inl PathNotFound, s)
      | Some path \<Rightarrow>
          if path_state path \<noteq> Validated then (Inl PathNotValidated, s)
          else
            let s = s\<lparr>ses_next_migration_sequence := u64_saturating_add (ses_next_migration_sequence s) 1\<rparr> in
            (map_err (\<lambda>_. Encode) (MigrateFrame_encode
               \<lparr>mg_old_path_id = ses_primary_path_id s, mg_new_path_id = new_path_id,
                mg_migration_sequence = ses_next_migration_sequence s, mg_make_primary = True,
                mg_keep_old_path = keep_old_path,
                mg_duplicate_critical_frames = duplicate_critical_frames\<rparr>), s))"

definition take_path_migration :: "Session \<Rightarrow> (u64 \<times> u64 \<times> bool) option \<times> Session" where
  "take_path_migration s = (ses_last_path_migration s, s\<lparr>ses_last_path_migration := None\<rparr>)"

definition take_path_validation :: "Session \<Rightarrow> u64 option \<times> Session" where
  "take_path_validation s = (ses_last_path_validation s, s\<lparr>ses_last_path_validation := None\<rparr>)"

definition mark_path_degraded :: "Session \<Rightarrow> u64 \<Rightarrow> bool \<times> Session" where
  "mark_path_degraded s path_id =
     (case fmlookup (ses_paths s) path_id of
        None \<Rightarrow> (False, s)
      | Some path \<Rightarrow>
          let (transitioned, path) = path_degrade path in
          if \<not> transitioned then (False, s)
          else (True, s\<lparr>ses_paths := fmupd path_id path (ses_paths s)\<rparr>))"

definition is_path_degraded :: "Session \<Rightarrow> u64 \<Rightarrow> bool" where
  "is_path_degraded s path_id =
     (case fmlookup (ses_paths s) path_id of None \<Rightarrow> False | Some p \<Rightarrow> path_state p = Degraded)"

definition force_validate :: "Session \<Rightarrow> u64 \<Rightarrow> Session" where
  "force_validate s path_id =
     s\<lparr>ses_paths := map_update path_id path_force_validate (ses_paths s)\<rparr>"

section \<open>Connection ids and settings\<close>

definition set_direct_path_allowed :: "Session \<Rightarrow> bool \<Rightarrow> Session" where
  "set_direct_path_allowed s allowed = s\<lparr>ses_direct_path_allowed := allowed\<rparr>"

definition set_privacy_profile :: "Session \<Rightarrow> u8 \<Rightarrow> Session" where
  "set_privacy_profile s profile =
     (let s = s\<lparr>ses_privacy_profile := min profile 3\<rparr> in
      if ses_privacy_profile s \<ge> 3 then s\<lparr>ses_traffic_padding := True\<rparr> else s)"

definition issue_connection_id ::
    "'e entropy \<Rightarrow> 'e \<Rightarrow> Session \<Rightarrow> (SessionError + bytes) \<times> Session \<times> 'e" where
  "issue_connection_id fill e s =
     (case cid_issue fill e (ses_cids s) DEFAULT_DCID_LEN of
        (None, m, e) \<Rightarrow> (Inl ConnectionIdLimit, s\<lparr>ses_cids := m\<rparr>, e)
      | (Some cid, m, e) \<Rightarrow>
          let bound = u64_saturating_sub (cid_sequence cid) 1;
              m = (if bound > 0 then snd (retire_prior_to m bound) else m) in
          (map_err (\<lambda>_. Encode) (NewConnectionIdFrame_encode
             \<lparr>nc_sequence = cid_sequence cid, nc_retire_prior_to = bound,
              nc_connection_id = cid_bytes cid, nc_reset_token = cid_reset_token cid\<rparr>),
           s\<lparr>ses_cids := m\<rparr>, e))"

definition set_traffic_padding :: "Session \<Rightarrow> bool \<Rightarrow> Session" where
  "set_traffic_padding s enabled = s\<lparr>ses_traffic_padding := enabled\<rparr>"

definition set_timing_jitter_ms :: "Session \<Rightarrow> u64 \<Rightarrow> Session" where
  "set_timing_jitter_ms s jitter_ms = s\<lparr>ses_timing_jitter_ms := min jitter_ms 10000\<rparr>"

definition payload_is_exempt :: "bytes \<Rightarrow> bool" where
  "payload_is_exempt payload =
     (case varint_decode payload of
        Inl _ \<Rightarrow> False
      | Inr (frame_type, _) \<Rightarrow>
          frame_type = FT_ACK \<or> frame_type = FT_PING \<or> frame_type = FT_PATH_CHALLENGE
          \<or> frame_type = FT_PATH_RESPONSE \<or> frame_type = FT_MIGRATE)"

definition outbound_payload :: "Session \<Rightarrow> bytes \<Rightarrow> bytes" where
  "outbound_payload s payload =
     (if \<not> ses_traffic_padding s \<or> payload_is_exempt payload \<or> length payload \<ge> TRAFFIC_PADDING_TARGET
      then payload
      else payload @ replicate (TRAFFIC_PADDING_TARGET - length payload) 0)"

end
