(* ===== verification/Session_Packets.thy ===== *)
theory Session_Packets
  imports Session_Control
begin

text \<open>
  \<open>crates/umc-session/src/session.rs\<close>: building outbound packets and processing inbound ones.
  Processing can derive secrets, which panics with a hash of another length; a panic is \<open>None\<close>.
\<close>

section \<open>Sending\<close>

text \<open>The accounting after a packet is built.\<close>

definition record_outbound :: "Session \<Rightarrow> u64 \<Rightarrow> Instant \<Rightarrow> u64 \<Rightarrow> bytes \<Rightarrow> bytes \<Rightarrow> Session" where
  "record_outbound s path_id now pn payload pkt =
     (let s = s\<lparr>ses_retransmit_payloads := fmupd pn payload (ses_retransmit_payloads s)\<rparr>;
          (evicted, sent) =
            record_sent (ses_sent s) (SentPacket_new pn PacketSpace.SessionData now (length pkt) True 0);
          s = s\<lparr>ses_sent := sent\<rparr>;
          s = (case evicted of
                 None \<Rightarrow> s
               | Some (lost_pn, lost_size) \<Rightarrow>
                   s\<lparr>ses_retransmit_payloads := fmdrop lost_pn (ses_retransmit_payloads s),
                     ses_congestion := reno_on_packet_acknowledged (ses_congestion s) lost_size\<rparr>);
          s = s\<lparr>ses_paths :=
                 map_update path_id
                   (\<lambda>p. if \<not> path_validated p then path_record_sent p (of_nat (length pkt)) else p)
                   (ses_paths s)\<rparr> in
      s\<lparr>ses_congestion := reno_on_packet_sent (ses_congestion s) (length pkt)\<rparr>)"

definition over_amplification :: "Session \<Rightarrow> u64 \<Rightarrow> bytes \<Rightarrow> bool" where
  "over_amplification s path_id payload =
     (case fmlookup (ses_paths s) path_id of
        None \<Rightarrow> False
      | Some path \<Rightarrow>
          \<not> path_validated path \<and> \<not> payload_is_exempt payload
          \<and> of_nat (length payload) > path_send_allowance path)"

definition build_outbound_inner ::
    "Crypto_Fns \<Rightarrow> Session \<Rightarrow> u64 \<Rightarrow> Instant \<Rightarrow> bytes \<Rightarrow> (SessionError + bytes option) \<times> Session" where
  "build_outbound_inner C s path_id now payload =
     (if ses_state s \<noteq> Active then (Inr None, s)
      else
        let payload = outbound_payload s payload in
        if over_amplification s path_id payload then (Inl AmplificationLimit, s)
        else if \<not> payload_is_exempt payload
          \<and> length payload + PROTECTED_OVERHEAD_ESTIMATE > reno_send_allowance (ses_congestion s)
        then (Inl CongestionLimited, s)
        else
          case fmlookup (ses_spaces s) PacketSpace.SessionData of
            None \<Rightarrow> (Inl NoSpace, s)
          | Some space \<Rightarrow>
              (let (r, space) = allocate_packet_number space;
                   s = s\<lparr>ses_spaces := fmupd PacketSpace.SessionData space (ses_spaces s)\<rparr> in
               case r of
                 Inl e \<Rightarrow> (Inl (Space e), s)
               | Inr pn \<Rightarrow>
                   (case build_protected_packet (fn_enc C) (fn_stream C) (ses_local_keys s)
                           (ses_local_hp_key s) ShortPacketSpace.SessionData (ses_dcid s) path_id pn False payload of
                      Inl e \<Rightarrow> (Inl (Packet e), s)
                    | Inr pkt \<Rightarrow> (Inr (Some pkt), record_outbound s path_id now pn payload pkt))))"

text \<open>The public variants differ in the path and in where the time comes from.\<close>

definition build_outbound ::
    "Crypto_Fns \<Rightarrow> Session \<Rightarrow> Instant \<Rightarrow> bytes \<Rightarrow> (SessionError + bytes option) \<times> Session" where
  "build_outbound C s now payload = build_outbound_inner C s (ses_primary_path_id s) now payload"

definition build_outbound_on_path ::
    "Crypto_Fns \<Rightarrow> Session \<Rightarrow> u64 \<Rightarrow> Instant \<Rightarrow> bytes \<Rightarrow> (SessionError + bytes option) \<times> Session" where
  "build_outbound_on_path C s path_id now payload = build_outbound_inner C s path_id now payload"

definition retransmit ::
    "Crypto_Fns \<Rightarrow> Session \<Rightarrow> u64 \<Rightarrow> Instant \<Rightarrow> (SessionError + bytes option) \<times> Session" where
  "retransmit C s pn now =
     (case fmlookup (ses_retransmit_payloads s) pn of
        None \<Rightarrow> (Inr None, s)
      | Some payload \<Rightarrow>
          bindS (build_outbound_inner C s (ses_primary_path_id s) now payload) (\<lambda>bytes s.
          (Inr bytes, s\<lparr>ses_retransmit_payloads := fmdrop pn (ses_retransmit_payloads s)\<rparr>)))"

section \<open>Acknowledgements\<close>

text \<open>A \<open>HashMap\<close> collected from pairs: the last one wins.\<close>

definition collect_map :: "('k \<times> 'v) list \<Rightarrow> 'k \<Rightarrow> 'v option" where
  "collect_map ps = map_of (rev ps)"

fun release_acked :: "Reno \<Rightarrow> (u64 \<Rightarrow> nat option) \<Rightarrow> u64 list \<Rightarrow> nat \<Rightarrow> Reno \<times> nat" where
  "release_acked c size_by_pn [] acked_bytes = (c, acked_bytes)"
| "release_acked c size_by_pn (pn # pns) acked_bytes =
     (case size_by_pn pn of
        None \<Rightarrow> release_acked c size_by_pn pns acked_bytes
      | Some n \<Rightarrow> release_acked (reno_on_packet_acknowledged c n) size_by_pn pns (acked_bytes + n))"

fun sample_acked :: "RttEstimator \<Rightarrow> (u64 \<Rightarrow> Instant option) \<Rightarrow> Instant \<Rightarrow> u64 \<Rightarrow> u64 list \<Rightarrow> RttEstimator" where
  "sample_acked rtt sent_at_by_pn now ack_delay [] = rtt"
| "sample_acked rtt sent_at_by_pn now ack_delay (pn # pns) =
     (case sent_at_by_pn pn of
        None \<Rightarrow> sample_acked rtt sent_at_by_pn now ack_delay pns
      | Some sent_at \<Rightarrow>
          let sample = u64_saturating_sub (duration_since now sent_at) ack_delay;
              rtt = (if sample > 0 then rtt_sample rtt sample else rtt) in
          sample_acked rtt sent_at_by_pn now ack_delay pns)"

definition apply_peer_ack :: "Session \<Rightarrow> AckFrame \<Rightarrow> Instant \<Rightarrow> (SessionError + u64 list) \<times> Session" where
  "apply_peer_ack s ack now =
     (let flat = (ack_first_ack_range ack, 0) # map (\<lambda>r. (ar_gap r, ar_length r)) (ack_additional_ranges ack);
          sent_at_by_pn = collect_map (map (\<lambda>p. (sp_packet_number p, sp_sent_at p)) (ses_sent s));
          size_by_pn = collect_map (map (\<lambda>p. (sp_packet_number p, sp_size p)) (ses_sent s));
          (r, sent) = apply_ack (ses_sent s) (ack_largest_acknowledged ack) flat;
          s = s\<lparr>ses_sent := sent\<rparr> in
      case r of
        Inl e \<Rightarrow> (Inl (AckErr e), s)
      | Inr acked \<Rightarrow>
          let s = s\<lparr>ses_retransmit_payloads := fmdrop_set (set acked) (ses_retransmit_payloads s)\<rparr>;
              (c, acked_bytes) = release_acked (ses_congestion s) size_by_pn acked 0;
              c = (if acked_bytes > 0 then reno_on_ack c acked_bytes else c);
              newest_sample =
                (if acked = [] then None
                 else map_option (\<lambda>sent_at. u64_saturating_sub (duration_since now sent_at) (ack_ack_delay ack))
                        (sent_at_by_pn (last acked)));
              rtt = sample_acked (ses_rtt s) sent_at_by_pn now (ack_ack_delay ack) acked;
              rtt = (case newest_sample of
                       Some sample \<Rightarrow> if sample > 0 then rtt\<lparr>latest_rtt := sample\<rparr> else rtt
                     | None \<Rightarrow> rtt) in
          (Inr acked, s\<lparr>ses_congestion := c, ses_rtt := rtt\<rparr>))"

section \<open>Stream frames\<close>

text \<open>The part of \<open>apply_stream_frame\<close> after the stream exists.\<close>

definition receive_on_stream :: "Session \<Rightarrow> StreamFrame \<Rightarrow> bool \<Rightarrow> Stream \<Rightarrow> (SessionError + unit) \<times> Session" where
  "receive_on_stream s f is_new st =
     (if is_new \<or> sf_open f \<and> st_protocol_id st = sf_protocol_id f \<and> st_metadata st = sf_metadata f
         \<or> \<not> sf_open f \<and> st_recv_opened st \<and> sf_protocol_id f = [] \<and> sf_metadata f = []
      then
        let st = (if is_new then st\<lparr>st_metadata := sf_metadata f, st_recv_opened := True\<rparr>
                  else if sf_open f then st\<lparr>st_recv_opened := True\<rparr> else st) in
        if st_recv_state st \<in> {DataRead, ResetRead, ResetRecvd}
        then (Inl StreamClosed, put_stream s (sf_stream_id f) st)
        else
          (case stream_receive st (sf_offset f) (sf_data f) (sf_fin f) of
             (Inl e, st) \<Rightarrow> (Inl (StreamErr e), put_stream s (sf_stream_id f) st)
           | (Inr new_bytes, st) \<Rightarrow>
               let s = put_stream s (sf_stream_id f) st;
                   (r, flow) = flow_consume (ses_flow s) (of_nat new_bytes);
                   s = s\<lparr>ses_flow := flow\<rparr> in
               bindS (map_err Flow r, s) (\<lambda>_ s.
               (Inr (), s\<lparr>ses_stream_consumed :=
                            entry_update (sf_stream_id f) 0 (\<lambda>c. c + of_nat new_bytes) (ses_stream_consumed s)\<rparr>)))
      else (Inl ProtocolViolation, s))"

definition apply_stream_frame :: "Session \<Rightarrow> StreamFrame \<Rightarrow> (SessionError + unit) \<times> Session" where
  "apply_stream_frame s f =
     (let sid = sf_stream_id f;
          peer_initiator = (case ses_role s of Client \<Rightarrow> 1 | Server \<Rightarrow> 0);
          local_initiator = 1 - peer_initiator in
      if \<not> validate_stream_id sid (sid AND 1) (sf_unidirectional f) then (Inl InvalidStreamId, s)
      else if (case fmlookup (ses_streams s) sid of
                 Some st \<Rightarrow>
                   sid AND 1 = local_initiator \<and> st_unidirectional st
                   \<or> st_unidirectional st \<noteq> sf_unidirectional f
               | None \<Rightarrow> sid AND 1 \<noteq> peer_initiator)
      then (Inl InvalidStreamId, s)
      else if csr_contains (ses_closed_streams s) sid then (Inl StreamClosed, s)
      else
        case fmlookup (ses_streams s) sid of
          Some st \<Rightarrow> receive_on_stream s f False st
        | None \<Rightarrow>
            if fmlen (ses_streams s) \<ge> MAX_STREAMS_PER_SESSION then (Inl StreamLimit, s)
            else if \<not> sf_open f then (Inl ProtocolViolation, s)
            else
              let st = (Stream_new sid (sf_protocol_id f) (ses_default_max_stream_data s))
                         \<lparr>st_unidirectional := sf_unidirectional f\<rparr>;
                  s = put_stream s sid st;
                  s = s\<lparr>ses_peer_initiated_streams := ses_peer_initiated_streams s + 1\<rparr> in
              receive_on_stream s f True st)"

section \<open>The other frames\<close>

definition on_reset_stream :: "Session \<Rightarrow> ResetStreamFrame \<Rightarrow> (SessionError + unit) \<times> Session" where
  "on_reset_stream s f =
     (let sid = rs_stream_id f in
      if csr_contains (ses_closed_streams s) sid then (Inl StreamClosed, s)
      else
        case fmlookup (ses_streams s) sid of
          None \<Rightarrow> (Inr (), s)
        | Some st \<Rightarrow>
            if rs_final_size f < max_received_offset st then (Inl (Flow ExceedsCredit), s)
            else if (case st_final_size st of Some known \<Rightarrow> known \<noteq> rs_final_size f | None \<Rightarrow> False)
            then (Inl (Flow ExceedsCredit), s)
            else
              let (r, s) =
                (if sid \<in> ses_reset_final_sizes s then (Inr (), s)
                 else
                   let s = s\<lparr>ses_reset_final_sizes := insert sid (ses_reset_final_sizes s)\<rparr>;
                       (r, flow) = flow_consume (ses_flow s) (rs_final_size f) in
                   (map_err Flow r, s\<lparr>ses_flow := flow\<rparr>)) in
              bindS (r, s) (\<lambda>_ s.
              let s = put_stream s sid
                        (st\<lparr>st_recv_state := ResetRecvd, st_reset_error_code := Some (rs_app_error_code f)\<rparr>) in
              (Inr (), s\<lparr>ses_stream_consumed := fmdrop sid (ses_stream_consumed s),
                         ses_stream_app_consumed := fmdrop sid (ses_stream_app_consumed s)\<rparr>)))"

definition on_max_streams :: "Session \<Rightarrow> MaxStreamsFrame \<Rightarrow> Session" where
  "on_max_streams s f =
     (if ms_bidirectional f then
        s\<lparr>ses_flow := (ses_flow s)\<lparr>fc_max_bidirectional_streams_local :=
           max (fc_max_bidirectional_streams_local (ses_flow s)) (ms_maximum_streams f)\<rparr>\<rparr>
      else
        s\<lparr>ses_flow := (ses_flow s)\<lparr>fc_max_unidirectional_streams_local :=
           max (fc_max_unidirectional_streams_local (ses_flow s)) (ms_maximum_streams f)\<rparr>\<rparr>)"

definition on_migrate :: "Session \<Rightarrow> MigrateFrame \<Rightarrow> (SessionError + unit) \<times> Session" where
  "on_migrate s m =
     (if mg_migration_sequence m > ses_last_migration_sequence s then
        if mg_old_path_id m \<noteq> ses_primary_path_id s then (Inl PathMigration, s)
        else
          let s = s\<lparr>ses_last_migration_sequence := mg_migration_sequence m\<rparr> in
          if mg_make_primary m then migrate_to s (mg_new_path_id m) (mg_keep_old_path m)
          else (Inr (), s)
      else (Inr (), s))"

definition on_datagram :: "Session \<Rightarrow> DatagramFrame \<Rightarrow> (SessionError + unit) \<times> Session" where
  "on_datagram s d =
     (let (r, q) = enqueue_inbound (ses_datagrams s)
            \<lparr>dgm_context_id = dg_context_id d, dgm_data = dg_data d, dgm_expires_at_ms = None,
             dgm_ack_requested = dg_ack_requested d\<rparr> in
      (map_err DatagramErr r, s\<lparr>ses_datagrams := q\<rparr>))"

text \<open>
  One arm of the dispatch. The result is the control payload to answer with, empty for most frames;
  the outer option is a panic.
\<close>

definition handle_frame ::
    "Crypto_Fns \<Rightarrow> Session \<Rightarrow> Instant \<Rightarrow> u64 \<Rightarrow> Frame \<Rightarrow> ((SessionError + bytes) \<times> Session) option" where
  "handle_frame C s now path_id frame =
     (let plain = (\<lambda>rs. Some (bindS rs (\<lambda>_ s. (Inr [], s)))) in
      case frame of
        Frame.Stream f \<Rightarrow> plain (apply_stream_frame s f)
      | Datagram d \<Rightarrow> plain (on_datagram s d)
      | ResetStream f \<Rightarrow> plain (on_reset_stream s f)
      | StopSending f \<Rightarrow>
          plain (Inr (), s\<lparr>ses_streams :=
            map_update (ss_stream_id f) (\<lambda>st. st\<lparr>st_send_state := ResetSent\<rparr>) (ses_streams s)\<rparr>)
      | MaxData f \<Rightarrow>
          plain (Inr (), if md_maximum_data f > fc_max_data_remote (ses_flow s)
                         then s\<lparr>ses_flow := (ses_flow s)\<lparr>fc_max_data_remote := md_maximum_data f\<rparr>\<rparr> else s)
      | MaxStreamData f \<Rightarrow>
          plain (Inr (), s\<lparr>ses_streams :=
            map_update (msd_stream_id f)
              (\<lambda>st. st\<lparr>st_max_stream_data_remote := max (st_max_stream_data_remote st) (msd_maximum_stream_data f)\<rparr>)
              (ses_streams s)\<rparr>)
      | MaxStreams f \<Rightarrow> plain (Inr (), on_max_streams s f)
      | ConnectionClose _ \<Rightarrow> plain (Inr (), s\<lparr>ses_state := Closed\<rparr>)
      | NewConnectionId f \<Rightarrow>
          if length (nc_connection_id f) \<noteq> DEFAULT_DCID_LEN then Some (Inl BadConnectionId, s)
          else plain (Inr (), s\<lparr>ses_dcid := nc_connection_id f\<rparr>)
      | RetireConnectionId f \<Rightarrow> plain (Inr (), s\<lparr>ses_cids := snd (cid_retire (ses_cids s) (rc_sequence f))\<rparr>)
      | Ack ack \<Rightarrow> Some (bindS (apply_peer_ack s ack now) (\<lambda>_ s. (Inr [], s)))
      | KeyUpdate u \<Rightarrow> map_option (\<lambda>rs. bindS rs (\<lambda>_ s. (Inr [], s))) (on_key_update C s (ku_update_sequence u))
      | Frame.PathChallenge c \<Rightarrow> Some (Inr (on_path_challenge (pc_data c)), s)
      | PathResponse r \<Rightarrow> plain (on_path_response s path_id (pr_data r))
      | Migrate m \<Rightarrow> plain (on_migrate s m)
      | _ \<Rightarrow> Some (Inr [], s))"

fun handle_frames ::
    "Crypto_Fns \<Rightarrow> Session \<Rightarrow> Instant \<Rightarrow> u64 \<Rightarrow> Frame list \<Rightarrow> bytes \<Rightarrow> ((SessionError + bytes) \<times> Session) option" where
  "handle_frames C s now path_id [] response = Some (Inr response, s)"
| "handle_frames C s now path_id (f # fs) response =
     Option.bind (handle_frame C s now path_id f) (\<lambda>(r, s).
     case r of
       Inl e \<Rightarrow> Some (Inl e, s)
     | Inr out \<Rightarrow> handle_frames C s now path_id fs (response @ out))"

section \<open>Receiving\<close>

fun encode_ranges :: "bytes \<Rightarrow> (u64 \<times> u64) list \<Rightarrow> SessionError + bytes" where
  "encode_ranges out [] = Inr out"
| "encode_ranges out ((gap, len) # rs) =
     bindR (map_err (\<lambda>_. Encode) (varint_encode_into out gap)) (\<lambda>out.
     bindR (map_err (\<lambda>_. Encode) (varint_encode_into out len)) (\<lambda>out.
     encode_ranges out rs))"

definition encode_ack :: "bytes \<Rightarrow> AckFields \<Rightarrow> SessionError + bytes" where
  "encode_ack out ack_fields =
     (let (largest, delay, first_len, extra) = ack_fields;
          put = (\<lambda>v out. map_err (\<lambda>_. Encode) (varint_encode_into out v)) in
      bindR (put FT_ACK out) (\<lambda>out.
      bindR (put largest out) (\<lambda>out.
      bindR (put delay out) (\<lambda>out.
      bindR (put (of_nat (length extra) + 1) out) (\<lambda>out.
      bindR (put first_len out) (\<lambda>out.
      encode_ranges out extra))))))"

definition append_ack :: "Session \<Rightarrow> PacketSpace \<Rightarrow> bytes \<Rightarrow> (SessionError + bytes) \<times> Session" where
  "append_ack s space payload =
     (case fmlookup (ses_recv_acks s) space of
        None \<Rightarrow> (Inr payload, s)
      | Some state \<Rightarrow>
          let (needed, state) = take_needs_ack state;
              s = s\<lparr>ses_recv_acks := fmupd space state (ses_recv_acks s)\<rparr> in
          if needed then
            (case build_ack state 0 of
               None \<Rightarrow> (Inr payload, s)
             | Some ack_fields \<Rightarrow> (encode_ack payload ack_fields, s))
          else (Inr payload, s))"

definition space_of :: "ShortPacketSpace \<Rightarrow> PacketSpace" where
  "space_of sp =
     (case sp of
        ShortPacketSpace.SessionData \<Rightarrow> PacketSpace.SessionData
      | ShortPacketSpace.PathControl \<Rightarrow> PacketSpace.PathControl
      | ShortPacketSpace.RelayData \<Rightarrow> PacketSpace.RelayData)"

text \<open>What is recorded of an admitted packet before its frames are looked at.\<close>

definition record_inbound :: "Session \<Rightarrow> PacketSpace \<Rightarrow> u64 \<Rightarrow> u64 \<Rightarrow> Instant \<Rightarrow> nat \<Rightarrow> Session" where
  "record_inbound s space path_id pn now len =
     (let s = s\<lparr>ses_recv_acks :=
                 entry_update space AckReceiveState_new (\<lambda>a. ack_record a pn) (ses_recv_acks s)\<rparr>;
          budget_path = (if fmlookup (ses_paths s) path_id \<noteq> None then path_id else DEFAULT_PATH_ID) in
      s\<lparr>ses_paths :=
         map_update budget_path (\<lambda>p. path_record_received p (of_nat len) now) (ses_paths s)\<rparr>)"

definition process_payload ::
    "Crypto_Fns \<Rightarrow> Session \<Rightarrow> Instant \<Rightarrow> ShortPacketSpace \<Rightarrow> u64 \<Rightarrow> bytes \<Rightarrow> ((SessionError + bytes) \<times> Session) option" where
  "process_payload C s now space_kind path_id payload =
     (case parse_payload (Protected space_kind) payload of
        Inl e \<Rightarrow> Some (Inl (WirePacket e), s)
      | Inr parsed \<Rightarrow>
          let s = (if list_ex (\<lambda>f. f \<noteq> Padding) (pp_frames parsed)
                   then s\<lparr>ses_last_activity := Some now\<rparr> else s) in
          Option.bind (handle_frames C s now path_id (pp_frames parsed) []) (\<lambda>(r, s).
          case r of
            Inl e \<Rightarrow> Some (Inl e, s)
          | Inr response \<Rightarrow> Some (append_ack s (space_of space_kind) response)))"

definition on_inbound ::
    "Crypto_Fns \<Rightarrow> Session \<Rightarrow> Instant \<Rightarrow> bytes \<Rightarrow> ((SessionError + bytes) \<times> Session) option" where
  "on_inbound C s now bytes =
     (let expected = expected_pn s PacketSpace.SessionData in
      case parse_protected_packet (fn_dec C) (fn_stream C) (ses_remote_keys s) (ses_remote_hp_key s) expected bytes of
        Inl e \<Rightarrow>
          (case ses_stateless_reset_secret s of
             Some secret \<Rightarrow>
               if token_matches bytes (reset_token secret)
               then Some (Inl StatelessReset, s\<lparr>ses_state := Closed\<rparr>)
               else Some (Inl (Packet e), s)
           | None \<Rightarrow> Some (Inl (Packet e), s))
      | Inr (space_kind, _, path_id, pn, payload) \<Rightarrow>
          let space = space_of space_kind in
          (case fmlookup (ses_spaces s) space of
             None \<Rightarrow> Some (Inl NoSpace, s)
           | Some space_state \<Rightarrow>
               let (r, space_state) = admit_reconstructed space_state pn;
                   s = s\<lparr>ses_spaces := fmupd space space_state (ses_spaces s)\<rparr> in
               (case r of
                  Inl e \<Rightarrow> Some (Inl (Space e), s)
                | Inr pn \<Rightarrow>
                    process_payload C (record_inbound s space path_id pn now (length bytes))
                      now space_kind path_id payload)))"

end
