(* ===== verification/Session_Recovery.thy ===== *)
theory Session_Recovery
  imports Session_Packets
begin

text \<open>
  The part of the daemon's session loop (\<open>bins/umcd/src/session_task.rs\<close>) that drives loss recovery:
  what it does with an ACK after the session has processed it, and the probe timer. Metrics, events and
  log lines are left out.
\<close>

section \<open>Lost packets\<close>

text \<open>The path is degraded when the lost ack-eliciting packets span three probe timeouts.\<close>

definition lost_times :: "(u64 \<Rightarrow> (Instant \<times> bool) option) \<Rightarrow> u64 list \<Rightarrow> Instant list" where
  "lost_times sent_at_by_pn lost =
     map fst (filter snd (map the (filter (\<lambda>v. v \<noteq> None) (map sent_at_by_pn lost))))"

definition degrade_if_persistent ::
    "Session \<Rightarrow> u64 \<Rightarrow> (u64 \<Rightarrow> (Instant \<times> bool) option) \<Rightarrow> u64 list \<Rightarrow> Session" where
  "degrade_if_persistent s path_id sent_at_by_pn lost =
     (let times = lost_times sent_at_by_pn lost in
      if times \<noteq> [] \<and> persistent_congestion (pto (ses_loss s) (ses_rtt s)) (Min (set times)) (Max (set times))
      then snd (mark_path_degraded s path_id)
      else s)"

text \<open>The loop over the lost packets, with the packets to send.\<close>

fun resend_lost ::
    "Crypto_Fns \<Rightarrow> Session \<Rightarrow> (u64 \<Rightarrow> nat option) \<Rightarrow> Instant \<Rightarrow> u64 list \<Rightarrow> bytes list \<Rightarrow> bytes list \<times> Session" where
  "resend_lost C s sizes_by_pn now [] retransmits = (retransmits, s)"
| "resend_lost C s sizes_by_pn now (pn # pns) retransmits =
     (let s = (case sizes_by_pn pn of
                 None \<Rightarrow> s
               | Some n \<Rightarrow> s\<lparr>ses_congestion := reno_on_packet_lost (ses_congestion s) n\<rparr>) in
      case retransmit C s pn now of
        (Inr (Some bytes), s) \<Rightarrow> resend_lost C s sizes_by_pn now pns (retransmits @ [bytes])
      | (Inr None, s) \<Rightarrow> resend_lost C (prune_retransmit_payload s pn) sizes_by_pn now pns retransmits
      | (Inl _, s) \<Rightarrow> resend_lost C s sizes_by_pn now pns retransmits)"

definition recover_lost ::
    "Crypto_Fns \<Rightarrow> Session \<Rightarrow> u64 \<Rightarrow> Instant \<Rightarrow> u64 \<Rightarrow> bytes list \<times> Session" where
  "recover_lost C s path_id now largest_acked =
     (let sizes_by_pn = collect_map (map (\<lambda>p. (sp_packet_number p, sp_size p)) (ses_sent s));
          sent_at_by_pn =
            collect_map (map (\<lambda>p. (sp_packet_number p, (sp_sent_at p, sp_ack_eliciting p))) (ses_sent s));
          (lost, sent) = detect_lost_packets (ses_sent s) (ses_rtt s) now largest_acked;
          s = s\<lparr>ses_sent := sent\<rparr>;
          s = (if lost \<noteq> [] then degrade_if_persistent s path_id sent_at_by_pn lost else s) in
      resend_lost C s sizes_by_pn now lost [])"

definition largest_acked :: "Frame list \<Rightarrow> u64 option" where
  "largest_acked frames =
     (let acks = List.map_filter
        (\<lambda>f. case f of Ack ack \<Rightarrow> Some (ack_largest_acknowledged ack) | _ \<Rightarrow> None) frames in
      if acks = [] then None else Some (Max (set acks)))"

text \<open>What follows a packet the session accepted: loss recovery, then the pacing rate.\<close>

definition after_inbound ::
    "Crypto_Fns \<Rightarrow> Session \<Rightarrow> ShortPacketSpace \<Rightarrow> u64 \<Rightarrow> Frame list \<Rightarrow> Instant \<Rightarrow> bytes list \<times> Session" where
  "after_inbound C s space path_id frames now =
     (let (retransmits, s) =
        (case (space, largest_acked frames) of
           (ShortPacketSpace.SessionData, Some largest) \<Rightarrow> recover_lost C s path_id now largest
         | _ \<Rightarrow> ([], s)) in
      (retransmits,
       s\<lparr>ses_congestion := set_smoothed_rtt (ses_congestion s) (smoothed_rtt (ses_rtt s)) now\<rparr>))"

section \<open>The probe timer\<close>

definition eliciting_in_flight :: "Session \<Rightarrow> bool" where
  "eliciting_in_flight s = list_ex (\<lambda>p. sp_ack_eliciting p \<and> sp_in_flight p) (ses_sent s)"

definition pto_deadline_ms :: "Session \<Rightarrow> PtoState \<Rightarrow> u64 option" where
  "pto_deadline_ms s pto_state =
     (if \<not> eliciting_in_flight s then None
      else Some (next_deadline pto_state (pto (ses_loss s) (ses_rtt s)) 0))"

definition pto_probe :: "Crypto_Fns \<Rightarrow> Session \<Rightarrow> Instant \<Rightarrow> bytes option \<times> Session" where
  "pto_probe C s now =
     (if eliciting_in_flight s then
        let ping = (case varint_encode FT_PING of Inl _ \<Rightarrow> [] | Inr ty \<Rightarrow> ty) in
        (case build_outbound_inner C s (ses_primary_path_id s) now ping of
           (Inr (Some bytes), s) \<Rightarrow> (Some bytes, s)
         | (_, s) \<Rightarrow> (None, s))
      else (None, s))"

end
