(* ===== verification/Session_Inv.thy ===== *)
theory Session_Inv
  imports Session_Recovery
begin

text \<open>
  The invariant of a session across its components: the packet numbers, the sent queue, the congestion
  window and the receive credit; which operations leave which part alone, and what a step may do.
\<close>

section \<open>What an operation leaves alone\<close>

text \<open>The part of a session that sending depends on, and what the frames of a peer can change besides.\<close>

definition pkt_core where
  "pkt_core s = (ses_local_keys s, ses_local_hp_key s, ses_spaces s, ses_sent s, ses_congestion s,
     ses_retransmit_payloads s)"

definition peer_core where
  "peer_core s = (ses_flow s, ses_state s, ses_dcid s)"

definition core where
  "core s = (pkt_core s, peer_core s)"

lemmas core_defs = core_def pkt_core_def peer_core_def

lemma core_update [simp]:
  "core (s\<lparr>ses_streams := a\<rparr>) = core s" "core (s\<lparr>ses_stream_consumed := b\<rparr>) = core s"
  "core (s\<lparr>ses_stream_app_consumed := b\<rparr>) = core s" "core (s\<lparr>ses_closed_streams := d\<rparr>) = core s"
  "core (s\<lparr>ses_reset_final_sizes := e\<rparr>) = core s" "core (s\<lparr>ses_datagrams := f\<rparr>) = core s"
  "core (s\<lparr>ses_paths := g\<rparr>) = core s" "core (s\<lparr>ses_cids := h\<rparr>) = core s"
  "core (s\<lparr>ses_key_update := i\<rparr>) = core s" "core (s\<lparr>ses_next_outgoing_stream := j\<rparr>) = core s"
  "core (s\<lparr>ses_next_outgoing_unidirectional := j\<rparr>) = core s"
  "core (s\<lparr>ses_peer_initiated_streams := k\<rparr>) = core s" "core (s\<lparr>ses_last_activity := l\<rparr>) = core s"
  "core (s\<lparr>ses_last_path_validation := m\<rparr>) = core s" "core (s\<lparr>ses_last_path_migration := n\<rparr>) = core s"
  "core (s\<lparr>ses_primary_path_id := j\<rparr>) = core s" "core (s\<lparr>ses_last_migration_sequence := j\<rparr>) = core s"
  "core (s\<lparr>ses_next_migration_sequence := j\<rparr>) = core s" "core (s\<lparr>ses_direct_path_allowed := p\<rparr>) = core s"
  "core (s\<lparr>ses_privacy_profile := q\<rparr>) = core s" "core (s\<lparr>ses_traffic_padding := p\<rparr>) = core s"
  "core (s\<lparr>ses_timing_jitter_ms := j\<rparr>) = core s" "core (s\<lparr>ses_stateless_reset_secret := r\<rparr>) = core s"
  "core (s\<lparr>ses_last_reset_ms := t\<rparr>) = core s" "core (s\<lparr>ses_recv_acks := u\<rparr>) = core s"
  "core (s\<lparr>ses_max_streams_sent := j\<rparr>) = core s"
  "core (s\<lparr>ses_rtt := w\<rparr>) = core s"
  by (simp_all add: core_defs)

lemma pkt_core_update [simp]:
  "pkt_core (s\<lparr>ses_flow := a\<rparr>) = pkt_core s" "pkt_core (s\<lparr>ses_state := b\<rparr>) = pkt_core s"
  "pkt_core (s\<lparr>ses_dcid := v\<rparr>) = pkt_core s"
  by (simp_all add: pkt_core_def)

lemma coreD:
  assumes "core s' = core s"
  shows "pkt_core s' = pkt_core s" "peer_core s' = peer_core s"
  using assms by (simp_all add: core_def)

lemma bindS_keeps:
  assumes "g (snd rs) = v" "\<And>x s. g (snd (f x s)) = g s"
  shows "g (snd (bindS rs f)) = v"
  using assms by (cases rs rule: prod.exhaust; cases "fst rs") (auto simp: bindS_def)

lemma bindS_keep_state [simp]: "snd (bindS rs (\<lambda>x s. (h x, s))) = snd rs"
  by (auto simp: bindS_def split: prod.splits sum.splits)

lemma core_put_stream [simp]: "core (put_stream s i st) = core s"
  by (simp add: put_stream_def)

lemma core_open_stream_kind [simp]: "core (snd (open_stream_kind s u)) = core s"
  by (auto simp: open_stream_kind_def Let_def split: option.splits)

lemma core_open_stream_with_protocol [simp]: "core (snd (open_stream_with_protocol s p u)) = core s"
  unfolding open_stream_with_protocol_def
  by (auto intro!: bindS_keeps[where g = core] split: option.splits)

lemma core_send_stream_data [simp]: "core (snd (send_stream_data s i d f)) = core s"
  by (auto simp: send_stream_data_def Let_def split: option.splits prod.splits sum.splits)

lemma core_close_stream_send [simp]: "core (snd (close_stream_send_payload s i)) = core s"
  by (auto simp: close_stream_send_payload_def Let_def split: option.splits)

lemma core_reset_stream [simp]: "core (snd (reset_stream_payload s i e)) = core s"
  by (auto simp: reset_stream_payload_def split: option.splits)

lemma core_send_datagram [simp]: "core (snd (send_datagram s d m)) = core s"
  by (auto simp: send_datagram_def split: prod.splits)

lemma core_pop_outbound_datagram [simp]: "core (snd (pop_outbound_datagram_payload s t)) = core s"
  by (auto simp: pop_outbound_datagram_payload_def Let_def split: prod.splits option.splits)

lemma core_recv_datagram [simp]: "core (snd (recv_datagram s)) = core s"
  by (auto simp: recv_datagram_def split: prod.splits)

lemma core_read_stream [simp]: "core (snd (read_stream s i)) = core s"
  by (auto simp: read_stream_def Let_def split: option.splits prod.splits)

lemma core_settings [simp]:
  "core (set_stateless_reset_secret s r) = core s" "core (touch s now) = core s"
  "core (set_direct_path_allowed s a) = core s" "core (set_privacy_profile s p) = core s"
  "core (set_traffic_padding s a) = core s" "core (set_timing_jitter_ms s j) = core s"
  "core (force_validate s path) = core s" "core (snd (take_path_migration s)) = core s"
  "core (snd (take_path_validation s)) = core s"
  by (simp_all add: set_stateless_reset_secret_def touch_def set_direct_path_allowed_def
      set_privacy_profile_def set_traffic_padding_def set_timing_jitter_ms_def force_validate_def
      take_path_migration_def take_path_validation_def Let_def)

lemma core_maybe_emit [simp]: "core (fst (snd (maybe_emit_stateless_reset fill e s now n))) = core s"
  by (auto simp: maybe_emit_stateless_reset_def Let_def split: option.splits prod.splits)

lemma core_issue_connection_id [simp]: "core (fst (snd (issue_connection_id fill e s))) = core s"
  by (auto simp: issue_connection_id_def Let_def split: option.splits prod.splits)

lemma core_key_updates:
  "initiate_key_update C s = Some (r, s') \<Longrightarrow> core s' = core s"
  "on_key_update C s q = Some (r', s') \<Longrightarrow> core s' = core s"
  by (auto simp: initiate_key_update_def on_key_update_def Let_def Option.bind_eq_Some_conv)

lemma core_add_path [simp]:
  "core (snd (add_path_with_challenge_bytes s path ct lc rc now ch)) = core s"
  by (auto simp: add_path_with_challenge_bytes_def Let_def split: prod.splits sum.splits)

lemma core_on_path_response [simp]: "core (snd (on_path_response s path r)) = core s"
  by (auto simp: on_path_response_def split: option.splits prod.splits sum.splits)

lemma core_migrate_to [simp]: "core (snd (migrate_to s path k)) = core s"
  by (auto simp: migrate_to_def Let_def split: option.splits)

lemma core_build_migrate [simp]: "core (snd (build_migrate_payload s path k d)) = core s"
  by (auto simp: build_migrate_payload_def Let_def split: option.splits)

lemma core_mark_path_degraded [simp]: "core (snd (mark_path_degraded s path)) = core s"
  by (auto simp: mark_path_degraded_def split: option.splits prod.splits)

lemma core_stream_credits: "stream_credits s ids fs = (fs', s') \<Longrightarrow> core s' = core s"
proof (induction s ids fs rule: stream_credits.induct)
  case (2 s i ids frames)
  obtain f1 s1 where s1: "stream_credit s i frames = (f1, s1)" by fastforce
  then have "core s1 = core s"
    by (auto simp: stream_credit_def Let_def split: option.splits if_splits)
  with 2 s1 show ?case by simp
qed simp

section \<open>The invariant\<close>

definition next_pn :: "Session \<Rightarrow> nat" where
  "next_pn s = (case fmlookup (ses_spaces s) PacketSpace.SessionData of
     None \<Rightarrow> 0 | Some sp \<Rightarrow> unat (pss_next_packet_number sp))"

definition sent_pns :: "Session \<Rightarrow> u64 set" where
  "sent_pns s = sp_packet_number ` set (ses_sent s)"

definition sent_bytes :: "AckSendState \<Rightarrow> nat" where
  "sent_bytes sent = sum_list (map sp_size sent)"

definition sent_ok :: "AckSendState \<Rightarrow> nat \<Rightarrow> bool" where
  "sent_ok sent k \<longleftrightarrow> length sent \<le> MAX_OUTSTANDING_PACKETS \<and> sorted_wrt (<) (map sp_packet_number sent)
     \<and> list_all (\<lambda>p. unat (sp_packet_number p) < k \<and> sp_size p \<le> 65535 \<and> sp_ack_eliciting p) sent"

text \<open>
  The sent queue holds at most its capacity, in ascending order and below the next packet number; the
  bytes in flight of the congestion controller are those of the queue and, in the middle of a loss
  recovery, the \<open>d\<close> bytes of lost packets not yet reported to it.
\<close>

definition pkt_inv :: "nat \<Rightarrow> Session \<Rightarrow> bool" where
  "pkt_inv d s \<longleftrightarrow> fmlookup (ses_spaces s) PacketSpace.SessionData \<noteq> None \<and> next_pn s \<le> 2 ^ 62
     \<and> sent_ok (ses_sent s) (next_pn s)
     \<and> unat (reno_in_flight (ses_congestion s)) = sent_bytes (ses_sent s) + d \<and> d \<le> 2 ^ 62"

definition peer_inv :: "Session \<Rightarrow> bool" where
  "peer_inv s \<longleftrightarrow> flow_inv (ses_flow s) \<and> length (ses_dcid s) = DEFAULT_DCID_LEN"

definition session_ok :: "nat \<Rightarrow> Session \<Rightarrow> bool" where
  "session_ok d s \<longleftrightarrow> pkt_inv d s \<and> peer_inv s"

lemma pkt_core_cong:
  assumes "pkt_core s' = pkt_core s"
  shows "pkt_inv d s' = pkt_inv d s" "next_pn s' = next_pn s" "sent_pns s' = sent_pns s"
    "ses_local_keys s' = ses_local_keys s" "ses_local_hp_key s' = ses_local_hp_key s"
  using assms by (simp_all add: pkt_core_def pkt_inv_def next_pn_def sent_pns_def)

lemma sent_bytes_simps [simp]:
  "sent_bytes [] = 0" "sent_bytes (p # ps) = sp_size p + sent_bytes ps"
  "sent_bytes (ps @ qs) = sent_bytes ps + sent_bytes qs"
  by (simp_all add: sent_bytes_def)

lemma sent_bytes_filter:
  "sent_bytes ps = sent_bytes (filter P ps) + sent_bytes (filter (\<lambda>p. \<not> P p) ps)"
  by (induction ps) auto

lemma sent_bytes_bound:
  assumes "sent_ok sent k"
  shows "sent_bytes sent \<le> 65535 * length sent" "sent_bytes sent < 2 ^ 63"
proof -
  have "list_all (\<lambda>p. sp_size p \<le> 65535) ps \<Longrightarrow> sent_bytes ps \<le> 65535 * length ps" for ps
    by (induction ps) auto
  moreover have "list_all (\<lambda>p. sp_size p \<le> 65535) sent" using assms by (auto simp: sent_ok_def list_all_iff)
  ultimately show "sent_bytes sent \<le> 65535 * length sent" by blast
  moreover have "length sent \<le> 16384" using assms by (simp add: sent_ok_def)
  ultimately have "sent_bytes sent \<le> 65535 * 16384" by linarith
  then show "sent_bytes sent < 2 ^ 63" by simp
qed

lemma sent_ok_mono: "sent_ok sent k \<Longrightarrow> k \<le> k' \<Longrightarrow> sent_ok sent k'"
  by (auto simp: sent_ok_def list_all_iff)

lemma sent_ok_filter: "sent_ok sent k \<Longrightarrow> sent_ok (filter P sent) k"
proof -
  assume s: "sent_ok sent k"
  have "sorted_wrt (<) (map sp_packet_number ps) \<Longrightarrow> sorted_wrt (<) (map sp_packet_number (filter P ps))" for ps
    by (induction ps) auto
  moreover have "length (filter P sent) \<le> 16384"
    using s by (intro le_trans[OF length_filter_le]) (simp add: sent_ok_def)
  ultimately show ?thesis using s by (auto simp: sent_ok_def list_all_iff)
qed

lemma sent_ok_distinct: "sent_ok sent k \<Longrightarrow> distinct (map sp_packet_number sent)"
  by (simp add: sent_ok_def strict_sorted_iff)

lemma record_sent_ok:
  assumes ok: "sent_ok sent (unat pn)" and n: "n \<le> 65535"
    and r: "record_sent sent (SentPacket_new pn sp now n True ph) = (ev, sent')"
  shows "sent_ok sent' (Suc (unat pn))"
    and "sent_bytes sent' + (case ev of None \<Rightarrow> 0 | Some (_, m) \<Rightarrow> m) = sent_bytes sent + n"
    and "sp_packet_number ` set sent' \<subseteq> insert pn (sp_packet_number ` set sent)"
proof -
  let ?p = "SentPacket_new pn sp now n True ph"
  have app: "sent_ok (ps @ [?p]) (Suc (unat pn))"
    if "sent_ok ps (unat pn)" "length ps < MAX_OUTSTANDING_PACKETS" for ps
    using that n
    by (auto simp: sent_ok_def list_all_iff sorted_wrt_append word_less_nat_alt SentPacket_new_def)
  have el: "sp_ack_eliciting p" if "p \<in> set sent" for p
    using ok that by (simp add: sent_ok_def list_all_iff)
  consider "length sent < MAX_OUTSTANDING_PACKETS" "ev = None" "sent' = sent @ [?p]"
    | p ps where "sent = p # ps" "length sent = MAX_OUTSTANDING_PACKETS" "ev = Some (sp_packet_number p, sp_size p)"
        "sent' = ps @ [?p]"
    using r ok el by (cases sent) (auto simp: record_sent_def sent_ok_def split: if_splits)
  then show "sent_ok sent' (Suc (unat pn))"
    "sent_bytes sent' + (case ev of None \<Rightarrow> 0 | Some (_, m) \<Rightarrow> m) = sent_bytes sent + n"
    "sp_packet_number ` set sent' \<subseteq> insert pn (sp_packet_number ` set sent)"
  proof (atomize (full), cases)
    case 2
    have "sent_ok ps (unat pn)" using ok 2(1) by (simp add: sent_ok_def)
    then show "sent_ok sent' (Suc (unat pn)) \<and> sent_bytes sent' + (case ev of None \<Rightarrow> 0 | Some (_, m) \<Rightarrow> m) = sent_bytes sent + n
      \<and> sp_packet_number ` set sent' \<subseteq> insert pn (sp_packet_number ` set sent)"
      using app[of ps] 2 by (auto simp: SentPacket_new_def)
  qed (use app[of sent] ok in \<open>auto simp: SentPacket_new_def\<close>)
qed

section \<open>Bytes in flight\<close>

lemma reno_ack_in_flight:
  "n \<le> unat (reno_in_flight c) \<Longrightarrow>
   unat (reno_in_flight (reno_on_packet_acknowledged c n)) = unat (reno_in_flight c) - n"
  using unat_u64_less[of "reno_in_flight c"]
  by (simp add: reno_on_packet_acknowledged_def unat_u64_saturating_sub unat_of_nat take_bit_nat_eq_self)

lemma reno_sent_in_flight:
  "unat (reno_in_flight c) + n < 2 ^ 64 \<Longrightarrow>
   unat (reno_in_flight (reno_on_packet_sent c n)) = unat (reno_in_flight c) + n"
  by (simp add: reno_on_packet_sent_def unat_u64_saturating_add unat_of_nat take_bit_nat_eq_self)

lemma reno_lost_in_flight:
  "n \<le> unat (reno_in_flight c) \<Longrightarrow>
   unat (reno_in_flight (reno_on_packet_lost c n)) = unat (reno_in_flight c) - n"
  using unat_u64_less[of "reno_in_flight c"]
  by (simp add: reno_on_packet_lost_def reduce_window_def update_pacing_def Let_def unat_u64_saturating_sub
      unat_of_nat take_bit_nat_eq_self)

text \<open>
  What a session relies on of its congestion controller (the trait \<open>CongestionController\<close>): sent bytes
  are counted, acknowledged and lost bytes are released.
\<close>

locale congestion_controller =
  fixes in_flight :: "'c \<Rightarrow> nat" and sent :: "'c \<Rightarrow> nat \<Rightarrow> 'c" and acked :: "'c \<Rightarrow> nat \<Rightarrow> 'c"
    and lost :: "'c \<Rightarrow> nat \<Rightarrow> 'c"
  assumes sent_counts: "in_flight c + n < 2 ^ 64 \<Longrightarrow> in_flight (sent c n) = in_flight c + n"
    and acked_releases: "n \<le> in_flight c \<Longrightarrow> in_flight (acked c n) = in_flight c - n"
    and lost_releases: "n \<le> in_flight c \<Longrightarrow> in_flight (lost c n) = in_flight c - n"
begin

lemma release_all: "sum_list ns \<le> in_flight c \<Longrightarrow> in_flight (foldl acked c ns) = in_flight c - sum_list ns"
  by (induction ns arbitrary: c) (auto simp: acked_releases)

lemma evict_and_send:
  assumes "m \<le> in_flight c" "in_flight c - m + n < 2 ^ 64"
  shows "in_flight (sent (acked c m) n) = in_flight c - m + n"
  using assms by (simp add: sent_counts acked_releases)

lemma lose_one:
  assumes "in_flight c = rest + n"
  shows "in_flight (lost c n) = rest"
  using assms by (simp add: lost_releases)

end

interpretation reno: congestion_controller "\<lambda>c. unat (reno_in_flight c)" reno_on_packet_sent
  reno_on_packet_acknowledged reno_on_packet_lost
  by unfold_locales (simp_all add: reno_sent_in_flight reno_ack_in_flight reno_lost_in_flight)

lemma reno_on_ack_in_flight [simp]: "reno_in_flight (reno_on_ack c n) = reno_in_flight c"
  by (simp add: reno_on_ack_def update_pacing_def Let_def)

lemma set_smoothed_rtt_in_flight [simp]: "reno_in_flight (set_smoothed_rtt c ms now) = reno_in_flight c"
  by (simp add: set_smoothed_rtt_def update_pacing_def Let_def)

section \<open>What a step may do\<close>

definition state_rank :: "SessionState \<Rightarrow> nat" where
  "state_rank st = (case st of Active \<Rightarrow> 0 | Draining \<Rightarrow> 1 | Closed \<Rightarrow> 2)"

text \<open>A packet sealed under the given keys and packet number.\<close>

definition sealed_as :: "Crypto_Fns \<Rightarrow> Session \<Rightarrow> bytes \<Rightarrow> u64 \<Rightarrow> bool" where
  "sealed_as C s pkt pn \<longleftrightarrow> (\<exists>dcid path_id payload.
     build_protected_packet (fn_enc C) (fn_stream C) (ses_local_keys s) (ses_local_hp_key s)
       ShortPacketSpace.SessionData dcid path_id pn False payload = Inr pkt)"

text \<open>
  \<open>advance d C s outs s'\<close>: between \<open>s\<close> and \<open>s'\<close> the packets \<open>outs\<close> were sealed, under the keys of \<open>s\<close> and
  ascending packet numbers from the next one of \<open>s\<close> on; only those can join the sent queue.
\<close>

definition advance :: "nat \<Rightarrow> Crypto_Fns \<Rightarrow> Session \<Rightarrow> bytes list \<Rightarrow> Session \<Rightarrow> bool" where
  "advance d C s outs s' \<longleftrightarrow> session_ok d s'
     \<and> ses_local_keys s' = ses_local_keys s \<and> ses_local_hp_key s' = ses_local_hp_key s
     \<and> state_rank (ses_state s) \<le> state_rank (ses_state s') \<and> (ses_state s = Active \<or> outs = [])
     \<and> next_pn s \<le> next_pn s'
     \<and> (\<forall>pn \<in> sent_pns s'. unat pn < next_pn s \<longrightarrow> pn \<in> sent_pns s)
     \<and> (\<exists>pns. list_all2 (sealed_as C s) outs pns \<and> sorted_wrt (<) pns
          \<and> (\<forall>pn \<in> set pns. next_pn s \<le> unat pn \<and> unat pn < next_pn s'))"

lemma advance_inv: "advance d C s outs s' \<Longrightarrow> session_ok d s'"
  by (simp add: advance_def)

lemma state_rank_Active [simp]: "state_rank st = 0 \<longleftrightarrow> st = Active"
  by (simp add: state_rank_def split: SessionState.splits)

lemma advance_trans:
  assumes a: "advance d C s outs s'" and b: "advance e C s' outs' s''"
  shows "advance e C s (outs @ outs') s''"
proof -
  obtain p q where p: "list_all2 (sealed_as C s) outs p" "sorted_wrt (<) p"
      "\<forall>pn \<in> set p. next_pn s \<le> unat pn \<and> unat pn < next_pn s'"
    and q: "list_all2 (sealed_as C s') outs' q" "sorted_wrt (<) q"
      "\<forall>pn \<in> set q. next_pn s' \<le> unat pn \<and> unat pn < next_pn s''"
    using a b unfolding advance_def by blast
  have eq: "sealed_as C s' = sealed_as C s"
    using a by (simp add: advance_def sealed_as_def fun_eq_iff)
  have le: "next_pn s \<le> next_pn s'" "next_pn s' \<le> next_pn s''"
    and rank: "state_rank (ses_state s) \<le> state_rank (ses_state s')"
      "state_rank (ses_state s') \<le> state_rank (ses_state s'')"
    and outs: "ses_state s = Active \<or> outs = []" "ses_state s' = Active \<or> outs' = []"
    using a b by (simp_all only: advance_def)
  have "list_all2 (sealed_as C s) (outs @ outs') (p @ q)"
    using p(1) q(1) eq by (simp add: list_all2_appendI)
  moreover have "sorted_wrt (<) (p @ q)"
    using p q by (fastforce simp: sorted_wrt_append word_less_nat_alt)
  moreover have "\<forall>pn \<in> set (p @ q). next_pn s \<le> unat pn \<and> unat pn < next_pn s''"
    using p(3) q(3) le by fastforce
  ultimately have pns: "\<exists>pns. list_all2 (sealed_as C s) (outs @ outs') pns \<and> sorted_wrt (<) pns
      \<and> (\<forall>pn \<in> set pns. next_pn s \<le> unat pn \<and> unat pn < next_pn s'')"
    by blast
  have sent: "\<forall>pn \<in> sent_pns s''. unat pn < next_pn s \<longrightarrow> pn \<in> sent_pns s"
    using a b le unfolding advance_def by (meson less_le_trans)
  have "ses_state s = Active \<or> outs @ outs' = []"
    using outs rank(1) by (cases "ses_state s"; cases "ses_state s'") (simp_all add: state_rank_def)
  then show ?thesis
    using a b le rank sent pns by (simp add: advance_def)
qed

text \<open>A step that seals nothing and leaves the packets alone.\<close>

lemma advance_quiet:
  assumes "pkt_core s' = pkt_core s" "session_ok d s" "peer_inv s'"
    "state_rank (ses_state s) \<le> state_rank (ses_state s')"
  shows "advance d C s [] s'"
  using assms pkt_core_cong[OF assms(1)] by (auto simp: advance_def session_ok_def)

lemma advance_core:
  assumes "core s' = core s" "session_ok d s"
  shows "advance d C s [] s'"
  by (rule advance_quiet) (use assms in \<open>auto simp: core_def peer_core_def peer_inv_def session_ok_def\<close>)

lemma advance_refl: "session_ok d s \<Longrightarrow> advance d C s [] s"
  by (rule advance_core) simp_all

text \<open>Packets leave the sent queue with their bytes, and the next packet number stays.\<close>

lemma advance_drop:
  assumes "session_ok d s" "ses_local_keys s' = ses_local_keys s" "ses_local_hp_key s' = ses_local_hp_key s"
    "ses_spaces s' = ses_spaces s" "peer_core s' = peer_core s" "ses_sent s' = filter P (ses_sent s)"
    "unat (reno_in_flight (ses_congestion s')) = sent_bytes (ses_sent s') + e" "e \<le> 2 ^ 62"
  shows "advance e C s [] s'"
proof -
  have "next_pn s' = next_pn s" "sent_pns s' \<subseteq> sent_pns s"
    using assms(4,6) by (auto simp: next_pn_def sent_pns_def)
  then show ?thesis
    using assms sent_ok_filter
    by (auto simp: advance_def session_ok_def pkt_inv_def peer_inv_def peer_core_def)
qed

section \<open>Sending\<close>

definition aead_sized :: "Crypto_Fns \<Rightarrow> bool" where
  "aead_sized C \<longleftrightarrow> (\<forall>k n a p c. fn_enc C k n a p = Some c \<longrightarrow> length c = length p + TAG_LEN)"

lemma packet_length:
  assumes "build_protected_packet (fn_enc C) stream keys hp space dcid path_id pn key_phase payload = Inr pkt"
    and "aead_sized C" "length dcid = 8"
  shows "length pkt \<le> length payload + 35" "length pkt \<le> 65535"
proof -
  obtain ct first' pn' where b: "path_id \<le> MAX_VARINT"
    "fn_enc C (pk_key keys) (nonce_for keys pn) (plain_header space key_phase dcid path_id pn) payload = Some ct"
    "protect stream hp (HeaderByte_encode (packet_header_byte space key_phase)) (take SAMPLE_LEN ct)
       (pn_low pn) = (first', pn')"
    "pkt = first' # dcid @ varint_bytes path_id @ pn' @ ct"
    by (rule build_protected_packet_Inr[OF assms(1)])
  have "length pn' = 2" using b(3) by (auto simp: protect_def Let_def)
  moreover have "length ct = length payload + 16" using assms(2) b(2) by (auto simp: aead_sized_def)
  moreover have "length (varint_bytes path_id) \<le> 8" using varint_bytes_length[OF b(1)] by auto
  moreover have "length payload + 48 \<le> 65535"
    using assms(1) by (auto simp: build_protected_packet_def split: if_splits)
  ultimately show "length pkt \<le> length payload + 35" "length pkt \<le> 65535" using assms(3) b(4) by simp_all
qed

lemma record_outbound_fields:
  assumes "record_sent (ses_sent s) (SentPacket_new pn PacketSpace.SessionData now (length pkt) True 0) = (ev, sent')"
  shows "ses_sent (record_outbound s path now pn payload pkt) = sent'"
    and "ses_congestion (record_outbound s path now pn payload pkt) =
      reno_on_packet_sent
        (case ev of None \<Rightarrow> ses_congestion s | Some (_, m) \<Rightarrow> reno_on_packet_acknowledged (ses_congestion s) m)
        (length pkt)"
    and "ses_spaces (record_outbound s path now pn payload pkt) = ses_spaces s"
    and "ses_local_keys (record_outbound s path now pn payload pkt) = ses_local_keys s"
    and "ses_local_hp_key (record_outbound s path now pn payload pkt) = ses_local_hp_key s"
    and "peer_core (record_outbound s path now pn payload pkt) = peer_core s"
  using assms by (auto simp: record_outbound_def peer_core_def Let_def split: option.splits prod.splits)

lemma record_outbound_in_flight:
  assumes "sent_ok (ses_sent s) (unat pn)" "length pkt \<le> 65535"
    and "unat (reno_in_flight (ses_congestion s)) = sent_bytes (ses_sent s) + d" "d \<le> 2 ^ 62"
  shows "sent_ok (ses_sent (record_outbound s path now pn payload pkt)) (Suc (unat pn))"
    and "sent_pns (record_outbound s path now pn payload pkt) \<subseteq> insert pn (sent_pns s)"
    and "unat (reno_in_flight (ses_congestion (record_outbound s path now pn payload pkt)))
      = sent_bytes (ses_sent (record_outbound s path now pn payload pkt)) + d"
proof -
  obtain ev sent' where r: "record_sent (ses_sent s)
      (SentPacket_new pn PacketSpace.SessionData now (length pkt) True 0) = (ev, sent')"
    by fastforce
  note ok = record_sent_ok[OF assms(1,2) r] and f = record_outbound_fields[OF r]
  let ?c = "case ev of None \<Rightarrow> ses_congestion s | Some (_, m) \<Rightarrow> reno_on_packet_acknowledged (ses_congestion s) m"
  have ev: "(case ev of None \<Rightarrow> 0 | Some (_, m) \<Rightarrow> m) \<le> sent_bytes (ses_sent s)"
    using r by (cases "ses_sent s") (auto simp: record_sent_def split: if_splits)
  have "sent_bytes sent' + d < 2 ^ 64" using sent_bytes_bound(2)[OF ok(1)] assms(4) by simp
  then have "unat (reno_in_flight (reno_on_packet_sent ?c (length pkt))) = sent_bytes sent' + d"
    using ok(2) assms(3) ev reno.sent_counts[of "ses_congestion s" "length pkt"]
      reno.evict_and_send[of _ "ses_congestion s" "length pkt"]
    by (auto split: option.splits prod.splits)
  then show "unat (reno_in_flight (ses_congestion (record_outbound s path now pn payload pkt)))
      = sent_bytes (ses_sent (record_outbound s path now pn payload pkt)) + d"
    by (simp add: f)
  show "sent_ok (ses_sent (record_outbound s path now pn payload pkt)) (Suc (unat pn))"
    "sent_pns (record_outbound s path now pn payload pkt) \<subseteq> insert pn (sent_pns s)"
    using ok by (simp_all add: f sent_pns_def)
qed

end
