(* ===== verification/Session_Steps.thy ===== *)
theory Session_Steps
  imports Session_Inv
begin

text \<open>
  Each operation of a session that sends, receives or recovers advances the session: it keeps the
  invariant, and seals packets only under fresh packet numbers.
\<close>

section \<open>Sending\<close>

lemma advance_send:
  assumes inv: "session_ok d s" and C: "aead_sized C" and act: "ses_state s = Active"
    and sp: "fmlookup (ses_spaces s) PacketSpace.SessionData = Some sp"
    and al: "allocate_packet_number sp = (Inr pn, sp')"
    and s1: "s1 = s\<lparr>ses_spaces := fmupd PacketSpace.SessionData sp' (ses_spaces s)\<rparr>"
    and pkt: "build_protected_packet (fn_enc C) (fn_stream C) (ses_local_keys s) (ses_local_hp_key s)
      ShortPacketSpace.SessionData (ses_dcid s) path pn False payload = Inr pkt"
  shows "advance d C s [pkt] (record_outbound s1 path now pn payload pkt)"
proof -
  let ?r = "record_outbound s1 path now pn payload pkt"
  have pn: "pn \<le> MAX_PACKET_NUMBER" "pss_next_packet_number sp' = pn + 1" "unat pn = next_pn s"
    using al sp by (auto simp: allocate_packet_number_def next_pn_def linorder_not_less split: if_splits)
  have nx: "next_pn s1 = Suc (unat pn)" using pn pn_unat_Suc by (simp add: s1 next_pn_def)
  have len: "length pkt \<le> 65535"
    using packet_length(2)[OF pkt C] inv by (simp add: session_ok_def peer_inv_def)
  obtain ev sent' where r: "record_sent (ses_sent s1)
      (SentPacket_new pn PacketSpace.SessionData now (length pkt) True 0) = (ev, sent')"
    by fastforce
  have ok: "sent_ok (ses_sent s1) (unat pn)" "unat (reno_in_flight (ses_congestion s1)) = sent_bytes (ses_sent s1) + d" "d \<le> 2 ^ 62"
    using inv pn by (simp_all add: s1 session_ok_def pkt_inv_def)
  note f = record_outbound_fields[OF r] and inf = record_outbound_in_flight[OF ok(1) len ok(2,3)]
  have n: "next_pn ?r = Suc (next_pn s)" using nx pn(3) by (simp add: next_pn_def f)
  have "Suc (unat pn) \<le> 2 ^ 62" using pn_unat_less[OF pn(1)] by simp
  then have "session_ok d ?r"
    using inf inv n pn(3) s1 f(3,6)
    by (simp add: session_ok_def pkt_inv_def peer_inv_def peer_core_def)
  moreover have "sent_pns ?r \<subseteq> insert pn (sent_pns s)" using inf(2) by (simp add: s1 sent_pns_def)
  then have "\<forall>q \<in> sent_pns ?r. unat q < next_pn s \<longrightarrow> q \<in> sent_pns s" using pn(3) by auto
  moreover have "ses_local_keys ?r = ses_local_keys s" "ses_local_hp_key ?r = ses_local_hp_key s"
    "ses_state ?r = ses_state s"
    using f(4-6) by (simp_all add: s1 peer_core_def)
  moreover have "\<exists>pns. list_all2 (sealed_as C s) [pkt] pns \<and> sorted_wrt (<) pns
      \<and> (\<forall>q \<in> set pns. next_pn s \<le> unat q \<and> unat q < next_pn ?r)"
    using pkt pn(3) n by (intro exI[of _ "[pn]"]) (auto simp: sealed_as_def)
  ultimately show ?thesis
    unfolding advance_def using n act by simp
qed

definition sent_of :: "SessionError + bytes option \<Rightarrow> bytes list" where
  "sent_of r = (case r of Inr (Some pkt) \<Rightarrow> [pkt] | _ \<Rightarrow> [])"

lemma sent_of_simps [simp]:
  "sent_of (Inl e) = []" "sent_of (Inr None) = []" "sent_of (Inr (Some pkt)) = [pkt]"
  by (simp_all add: sent_of_def)

text \<open>The number is spent when the packet cannot be assembled.\<close>

lemma advance_skip:
  assumes inv: "session_ok d s" and sp: "fmlookup (ses_spaces s) PacketSpace.SessionData = Some sp"
    and al: "allocate_packet_number sp = (r, sp')"
  shows "advance d C s [] (s\<lparr>ses_spaces := fmupd PacketSpace.SessionData sp' (ses_spaces s)\<rparr>)"
proof -
  let ?s = "s\<lparr>ses_spaces := fmupd PacketSpace.SessionData sp' (ses_spaces s)\<rparr>"
  have "next_pn s \<le> next_pn ?s \<and> next_pn ?s \<le> 2 ^ 62"
    using al sp inv pn_unat_Suc[of "pss_next_packet_number sp"] pn_unat_less[of "pss_next_packet_number sp"]
    by (auto simp: allocate_packet_number_def next_pn_def session_ok_def pkt_inv_def linorder_not_less
        split: if_splits)
  moreover have "sent_pns ?s = sent_pns s" by (simp add: sent_pns_def)
  ultimately show ?thesis
    using inv sent_ok_mono by (auto simp: advance_def session_ok_def pkt_inv_def peer_inv_def)
qed

text \<open>The gates of a send: the state, the amplification budget of the path, and the window.\<close>

definition gated :: "Session \<Rightarrow> u64 \<Rightarrow> bytes \<Rightarrow> bool" where
  "gated s path_id payload \<longleftrightarrow> ses_state s \<noteq> Active \<or> over_amplification s path_id payload
     \<or> \<not> payload_is_exempt payload
       \<and> length payload + PROTECTED_OVERHEAD_ESTIMATE > reno_send_allowance (ses_congestion s)"

lemma build_outbound_gated:
  "gated s path (outbound_payload s payload) \<Longrightarrow> build_outbound_inner C s path now payload = (r, s')
     \<Longrightarrow> s' = s \<and> sent_of r = []"
  by (auto simp: gated_def build_outbound_inner_def Let_def split: if_splits)

lemma build_outbound_ungated:
  assumes "\<not> gated s path (outbound_payload s payload)"
    and "fmlookup (ses_spaces s) PacketSpace.SessionData = Some sp" and "allocate_packet_number sp = (r, sp')"
  shows "build_outbound_inner C s path now payload =
     (let s1 = s\<lparr>ses_spaces := fmupd PacketSpace.SessionData sp' (ses_spaces s)\<rparr> in
      case r of Inl e \<Rightarrow> (Inl (Space e), s1)
      | Inr pn \<Rightarrow>
          (case build_protected_packet (fn_enc C) (fn_stream C) (ses_local_keys s) (ses_local_hp_key s)
                  ShortPacketSpace.SessionData (ses_dcid s) path pn False (outbound_payload s payload) of
             Inl e \<Rightarrow> (Inl (Packet e), s1)
           | Inr pkt \<Rightarrow> (Inr (Some pkt), record_outbound s1 path now pn (outbound_payload s payload) pkt)))"
proof -
  have "ses_state s = Active" "\<not> over_amplification s path (outbound_payload s payload)"
    "\<not> (\<not> payload_is_exempt (outbound_payload s payload) \<and>
       length (outbound_payload s payload) + PROTECTED_OVERHEAD_ESTIMATE > reno_send_allowance (ses_congestion s))"
    using assms(1) by (auto simp: gated_def)
  then show ?thesis
    using assms(2,3) unfolding build_outbound_inner_def Let_def
    by (cases r) (simp_all only: if_False if_True simp_thms, simp_all)
qed

lemma build_outbound_advance:
  assumes inv: "session_ok d s" and C: "aead_sized C" and b: "build_outbound_inner C s path now payload = (r, s')"
  shows "advance d C s (sent_of r) s'"
proof (cases "gated s path (outbound_payload s payload)")
  case True
  then show ?thesis using build_outbound_gated[OF True b] advance_refl[OF inv] by simp
next
  case False
  let ?p = "outbound_payload s payload"
  obtain sp where sp: "fmlookup (ses_spaces s) PacketSpace.SessionData = Some sp"
    using inv by (auto simp: session_ok_def pkt_inv_def)
  obtain a sp' where al: "allocate_packet_number sp = (a, sp')" by fastforce
  have act: "ses_state s = Active" using False by (simp add: gated_def)
  note b = b[unfolded build_outbound_ungated[OF False sp al]]
  show ?thesis
  proof (cases a)
    case (Inl e)
    then show ?thesis using b advance_skip[OF inv sp al] by auto
  next
    case (Inr pn)
    show ?thesis
    proof (cases "build_protected_packet (fn_enc C) (fn_stream C) (ses_local_keys s) (ses_local_hp_key s)
        ShortPacketSpace.SessionData (ses_dcid s) path pn False ?p")
      case (Inl e)
      then show ?thesis using b Inr advance_skip[OF inv sp al] by (auto simp: \<open>a = Inr pn\<close>)
    next
      case (Inr pkt)
      then show ?thesis
        using b advance_send[OF inv C act sp al[unfolded \<open>a = Inr pn\<close>] refl Inr] by (auto simp: \<open>a = Inr pn\<close>)
    qed
  qed
qed

lemma pkt_core_retransmit_cong:
  "session_ok d (s\<lparr>ses_retransmit_payloads := m\<rparr>) = session_ok d s"
  "next_pn (s\<lparr>ses_retransmit_payloads := m\<rparr>) = next_pn s"
  "sent_pns (s\<lparr>ses_retransmit_payloads := m\<rparr>) = sent_pns s"
  by (simp_all add: session_ok_def pkt_inv_def next_pn_def sent_pns_def peer_inv_def)

lemma advance_retransmit_table:
  "advance d C s outs s' \<Longrightarrow> advance d C s outs (s'\<lparr>ses_retransmit_payloads := m\<rparr>)"
  by (simp add: advance_def pkt_core_retransmit_cong)

lemma retransmit_advance:
  assumes inv: "session_ok d s" and C: "aead_sized C" and b: "retransmit C s pn now = (r, s')"
  shows "advance d C s (sent_of r) s'"
proof (cases "fmlookup (ses_retransmit_payloads s) pn")
  case (Some payload)
  obtain r1 s1 where o: "build_outbound_inner C s (ses_primary_path_id s) now payload = (r1, s1)" by fastforce
  from build_outbound_advance[OF inv C o] have a: "advance d C s (sent_of r1) s1" .
  show ?thesis
    using b Some o a advance_retransmit_table[OF a] by (cases r1) (auto simp: retransmit_def)
qed (use b advance_refl[OF inv] in \<open>auto simp: retransmit_def\<close>)

section \<open>Acknowledgements and losses\<close>

lemma collect_map_sent:
  assumes "distinct (map sp_packet_number sent)" "p \<in> set sent"
  shows "collect_map (map (\<lambda>p. (sp_packet_number p, g p)) sent) (sp_packet_number p) = Some (g p)"
  unfolding collect_map_def
  by (rule map_of_is_SomeI) (use assms in \<open>auto simp: comp_def simp flip: rev_map\<close>)

lemma apply_ack_split:
  assumes "apply_ack sent largest ranges = (r, keep)"
  obtains hit where "keep = filter (\<lambda>p. \<not> hit p) sent"
    "case r of Inl _ \<Rightarrow> keep = sent | Inr acked \<Rightarrow> acked = map sp_packet_number (filter hit sent)"
proof (cases r)
  case (Inl e)
  then show ?thesis
    using assms that[of "\<lambda>_. False"] by (auto simp: apply_ack_def Let_def split: if_splits prod.splits)
next
  case (Inr acked)
  then obtain h where "drain_acked h sent = (acked, keep)"
    using assms by (auto simp: apply_ack_def Let_def split: if_splits prod.splits)
  then show ?thesis
    using Inr that[of "\<lambda>p. h (sp_packet_number p)"] by (simp add: drain_acked_eq filter_map comp_def)
qed

lemma release_acked_foldl:
  assumes "\<forall>p \<in> set ps. sizes (sp_packet_number p) = Some (sp_size p)"
  shows "fst (release_acked c sizes (map sp_packet_number ps) n) =
    foldl reno_on_packet_acknowledged c (map sp_size ps)"
  using assms by (induction ps arbitrary: c n) auto

lemma release_acked_in_flight:
  assumes "\<forall>p \<in> set ps. sizes (sp_packet_number p) = Some (sp_size p)"
    and "sent_bytes ps \<le> unat (reno_in_flight c)"
    and "release_acked c sizes (map sp_packet_number ps) n = (c', m)"
  shows "unat (reno_in_flight c') = unat (reno_in_flight c) - sent_bytes ps"
  using release_acked_foldl[OF assms(1), of c n] reno.release_all[of "map sp_size ps" c] assms(2,3)
  by (simp add: sent_bytes_def)

lemma apply_peer_ack_advance:
  assumes inv: "session_ok d s" and b: "apply_peer_ack s ack now = (r, s')"
  shows "advance d C s [] s'"
proof -
  let ?flat = "(ack_first_ack_range ack, 0) # map (\<lambda>r. (ar_gap r, ar_length r)) (ack_additional_ranges ack)"
  let ?sizes = "collect_map (map (\<lambda>p. (sp_packet_number p, sp_size p)) (ses_sent s))"
  obtain a keep where a: "apply_ack (ses_sent s) (ack_largest_acknowledged ack) ?flat = (a, keep)" by fastforce
  then obtain hit where keep: "keep = filter (\<lambda>p. \<not> hit p) (ses_sent s)"
    and acked: "case a of Inl _ \<Rightarrow> keep = ses_sent s | Inr acked \<Rightarrow> acked = map sp_packet_number (filter hit (ses_sent s))"
    by (rule apply_ack_split)
  have ok: "unat (reno_in_flight (ses_congestion s)) = sent_bytes (ses_sent s) + d" "d \<le> 2 ^ 62"
    "distinct (map sp_packet_number (ses_sent s))"
    using inv sent_ok_distinct by (auto simp: session_ok_def pkt_inv_def)
  show ?thesis
  proof (cases a)
    case (Inl e)
    then have "s' = s\<lparr>ses_sent := ses_sent s\<rparr>" using b a acked by (simp add: apply_peer_ack_def)
    then show ?thesis using advance_refl[OF inv] by simp
  next
    case (Inr acked')
    then have acked': "acked' = map sp_packet_number (filter hit (ses_sent s))" using acked by simp
    obtain c m where c: "release_acked (ses_congestion s) ?sizes acked' 0 = (c, m)" by fastforce
    have "sent_bytes (ses_sent s) = sent_bytes (filter hit (ses_sent s)) + sent_bytes keep"
      unfolding keep by (rule sent_bytes_filter)
    moreover have "unat (reno_in_flight c) = unat (reno_in_flight (ses_congestion s)) - sent_bytes (filter hit (ses_sent s))"
      by (rule release_acked_in_flight[OF _ _ c[unfolded acked']])
        (use collect_map_sent[OF ok(3)] ok(1) calculation in auto)
    ultimately have "unat (reno_in_flight c) = sent_bytes keep + d" using ok(1) by simp
    then show ?thesis
      using b a c Inr keep ok(2)
      by (intro advance_drop[OF inv, where P = "\<lambda>p. \<not> hit p"])
        (auto simp: apply_peer_ack_def peer_core_def Let_def)
  qed
qed

lemma advance_congestion:
  assumes "session_ok d s" "unat (reno_in_flight c) = sent_bytes (ses_sent s) + e" "e \<le> 2 ^ 62"
  shows "advance e C s [] (s\<lparr>ses_congestion := c\<rparr>)"
  by (rule advance_drop[OF assms(1), where P = "\<lambda>_. True"]) (use assms in \<open>simp_all add: peer_core_def\<close>)

text \<open>Resending the lost packets \<open>ps\<close> releases their bytes one by one.\<close>

lemma resend_lost_advance:
  assumes "session_ok (sent_bytes ps) s" and "aead_sized C"
    and "\<forall>p \<in> set ps. sizes (sp_packet_number p) = Some (sp_size p)"
    and "resend_lost C s sizes now (map sp_packet_number ps) outs = (outs', s')"
  shows "\<exists>new. outs' = outs @ new \<and> advance 0 C s new s'"
  using assms(1,3,4)
proof (induction ps arbitrary: s outs)
  case Nil
  then show ?case using advance_refl by simp
next
  case (Cons p ps)
  let ?c = "reno_on_packet_lost (ses_congestion s) (sp_size p)"
  let ?s = "s\<lparr>ses_congestion := ?c\<rparr>" and ?pn = "sp_packet_number p"
  have d: "sp_size p + sent_bytes ps \<le> 2 ^ 62"
    "unat (reno_in_flight (ses_congestion s)) = sent_bytes (ses_sent s) + sent_bytes ps + sp_size p"
    using Cons.prems(1) by (simp_all add: session_ok_def pkt_inv_def)
  from reno.lose_one[OF d(2)] have "unat (reno_in_flight ?c) = sent_bytes (ses_sent s) + sent_bytes ps" .
  then have a1: "advance (sent_bytes ps) C s [] ?s"
    using d by (intro advance_congestion[OF Cons.prems(1)]) simp_all
  obtain r s1 where r: "retransmit C ?s ?pn now = (r, s1)" by fastforce
  have a2: "advance (sent_bytes ps) C s (sent_of r) s1"
    using advance_trans[OF a1 retransmit_advance[OF advance_inv[OF a1] assms(2) r]] by simp
  define s2 where "s2 = (case r of Inr None \<Rightarrow> prune_retransmit_payload s1 ?pn | _ \<Rightarrow> s1)"
  have a3: "advance (sent_bytes ps) C s (sent_of r) s2"
    using a2 advance_retransmit_table[OF a2]
    by (auto simp: s2_def prune_retransmit_payload_def split: sum.splits option.splits)
  have "resend_lost C s2 sizes now (map sp_packet_number ps) (outs @ sent_of r) = (outs', s')"
    using Cons.prems(2,3) r by (auto simp: s2_def split: sum.splits option.splits)
  from Cons.IH[OF advance_inv[OF a3] _ this] Cons.prems(2)
  obtain new where "outs' = outs @ sent_of r @ new" "advance 0 C s2 new s'" by auto
  then show ?case using advance_trans[OF a3] by blast
qed

lemma recover_lost_advance:
  assumes inv: "session_ok 0 s" and C: "aead_sized C" and b: "recover_lost C s path now largest = (outs, s')"
  shows "advance 0 C s outs s'"
proof -
  let ?lost = "filter (packet_lost (ses_rtt s) now largest) (ses_sent s)"
  let ?keep = "filter (\<lambda>p. \<not> packet_lost (ses_rtt s) now largest p) (ses_sent s)"
  let ?at = "collect_map (map (\<lambda>p. (sp_packet_number p, (sp_sent_at p, sp_ack_eliciting p))) (ses_sent s))"
  let ?s = "s\<lparr>ses_sent := ?keep\<rparr>"
  let ?s1 = "if ?lost \<noteq> [] then degrade_if_persistent ?s path ?at (map sp_packet_number ?lost) else ?s"
  have ok: "sent_ok (ses_sent s) (next_pn s)" "unat (reno_in_flight (ses_congestion s)) = sent_bytes (ses_sent s)"
    using inv by (simp_all add: session_ok_def pkt_inv_def)
  have d: "detect_lost_packets (ses_sent s) (ses_rtt s) now largest = (map sp_packet_number ?lost, ?keep)"
    using ok(1) by (intro detect_lost_eq) (simp add: sent_ok_def)
  have bytes: "sent_bytes (ses_sent s) = sent_bytes ?lost + sent_bytes ?keep" by (rule sent_bytes_filter)
  have "sent_bytes ?lost \<le> 2 ^ 62"
    using sent_bytes_bound(1)[OF sent_ok_filter[OF ok(1)], of "packet_lost (ses_rtt s) now largest"]
      sent_ok_filter[OF ok(1), of "packet_lost (ses_rtt s) now largest"] by (simp add: sent_ok_def)
  then have "advance (sent_bytes ?lost) C s [] ?s"
    using ok(2) bytes
    by (intro advance_drop[OF inv, where P = "\<lambda>p. \<not> packet_lost (ses_rtt s) now largest p"])
      (simp_all add: peer_core_def)
  moreover have "core ?s1 = core ?s" by (simp add: degrade_if_persistent_def Let_def)
  then have "advance (sent_bytes ?lost) C ?s [] ?s1" using advance_core advance_inv[OF calculation] by blast
  ultimately have a: "advance (sent_bytes ?lost) C s [] ?s1" using advance_trans by fastforce
  have "resend_lost C ?s1 (collect_map (map (\<lambda>p. (sp_packet_number p, sp_size p)) (ses_sent s))) now
      (map sp_packet_number ?lost) [] = (outs, s')"
    using b d by (simp add: recover_lost_def Let_def)
  from resend_lost_advance[OF advance_inv[OF a] C _ this] collect_map_sent[OF sent_ok_distinct[OF ok(1)]]
  obtain new where "outs = [] @ new" "advance 0 C ?s1 new s'" by force
  then show ?thesis using advance_trans[OF a] by simp
qed

section \<open>Frames\<close>

text \<open>A step that touches only the receive credit, and keeps it within its limit.\<close>

definition credit_step :: "Session \<Rightarrow> Session \<Rightarrow> bool" where
  "credit_step s s' \<longleftrightarrow> pkt_core s' = pkt_core s \<and> ses_state s' = ses_state s \<and> ses_dcid s' = ses_dcid s
     \<and> (flow_inv (ses_flow s) \<longrightarrow> flow_inv (ses_flow s'))"

lemma credit_step_advance: "session_ok d s \<Longrightarrow> credit_step s s' \<Longrightarrow> advance d C s [] s'"
  by (rule advance_quiet) (auto simp: credit_step_def session_ok_def peer_inv_def)

lemma credit_step_core: "core s' = core s \<Longrightarrow> credit_step s s'"
  by (auto simp: credit_step_def core_def peer_core_def)

lemma credit_step_trans: "credit_step s s' \<Longrightarrow> credit_step s' s'' \<Longrightarrow> credit_step s s''"
  by (auto simp: credit_step_def)

lemma credit_step_flow: "(flow_inv (ses_flow s) \<Longrightarrow> flow_inv f) \<Longrightarrow> credit_step s (s\<lparr>ses_flow := f\<rparr>)"
  by (simp add: credit_step_def)

lemma credit_step_after_core:
  "core s1 = core s \<Longrightarrow> credit_step s1 s' \<Longrightarrow> credit_step s s'"
  using credit_step_trans credit_step_core by blast

lemma credit_step_then_core:
  "credit_step s s1 \<Longrightarrow> core s' = core s1 \<Longrightarrow> credit_step s s'"
  using credit_step_trans credit_step_core by blast

lemma receive_on_stream_credit: "credit_step s (snd (receive_on_stream s f is_new st))"
proof -
  have consume: "credit_step s (snd (let s = put_stream s i st';
        (r, flow) = flow_consume (ses_flow s) n; s = s\<lparr>ses_flow := flow\<rparr> in
      bindS (map_err Flow r, s) (\<lambda>_ s.
        (Inr (), s\<lparr>ses_stream_consumed := entry_update i 0 g (ses_stream_consumed s)\<rparr>))))" for i st' n g
  proof -
    let ?s = "put_stream s i st'"
    obtain r fl where r: "flow_consume (ses_flow ?s) n = (r, fl)" by fastforce
    have "credit_step ?s (?s\<lparr>ses_flow := fl\<rparr>)" using flow_consume_inv[OF _ r] by (rule credit_step_flow)
    then have "credit_step s (?s\<lparr>ses_flow := fl\<rparr>)" by (rule credit_step_after_core[rotated]) simp
    then show ?thesis
      using r by (cases r) (auto simp: Let_def elim!: credit_step_then_core)
  qed
  define st1 where "st1 = (if is_new then st\<lparr>st_metadata := sf_metadata f, st_recv_opened := True\<rparr>
    else if sf_open f then st\<lparr>st_recv_opened := True\<rparr> else st)"
  obtain r st2 where r: "stream_receive st1 (sf_offset f) (sf_data f) (sf_fin f) = (r, st2)" by fastforce
  have put: "credit_step s (put_stream s i st')" "credit_step s s" for i st' by (auto intro: credit_step_core)
  show ?thesis
  proof (cases r)
    case (Inl e)
    then show ?thesis
      unfolding receive_on_stream_def Let_def st1_def[symmetric] r using put by simp
  next
    case (Inr n)
    then show ?thesis
      unfolding receive_on_stream_def st1_def[symmetric]
      using put consume[of "sf_stream_id f" st2 "of_nat n" "\<lambda>c. c + of_nat n"] r
      by (simp add: Let_def[of st1])
  qed
qed

lemma apply_stream_frame_credit: "credit_step s (snd (apply_stream_frame s f))"
  unfolding apply_stream_frame_def Let_def
  by (auto intro!: credit_step_core receive_on_stream_credit
      credit_step_after_core[OF _ receive_on_stream_credit] split: option.splits)

lemma on_reset_stream_credit: "credit_step s (snd (on_reset_stream s f))"
proof -
  obtain r fl where r: "flow_consume (ses_flow s) (rs_final_size f) = (r, fl)" by fastforce
  have "credit_step s (s\<lparr>ses_flow := fl\<rparr>)" using flow_consume_inv[OF _ r] by (rule credit_step_flow)
  then show ?thesis
    using r unfolding on_reset_stream_def Let_def
    by (cases r) (auto simp: credit_step_def put_stream_def pkt_core_def split: option.splits)
qed

lemma on_max_streams_credit: "credit_step s (on_max_streams s f)"
  by (auto simp: on_max_streams_def credit_step_def flow_inv_def)

lemma on_datagram_core: "core (snd (on_datagram s f)) = core s"
  by (auto simp: on_datagram_def split: prod.splits)

lemma on_migrate_core: "core (snd (on_migrate s f)) = core s"
  by (simp add: on_migrate_def Let_def)

lemma bindS_PairD: "bindS rs (\<lambda>_. Pair y) = (r, s') \<Longrightarrow> s' = snd rs"
  by (auto simp: bindS_def split: prod.splits sum.splits)

lemma handle_frame_advance:
  assumes inv: "session_ok d s" and h: "handle_frame C s now path f = Some (r, s')"
  shows "advance d C s [] s'"
proof -
  have keep: "advance d C s [] s'" if "core s' = core s" using that inv by (rule advance_core)
  have credit: "advance d C s [] s'" if "credit_step s s'" using inv that by (rule credit_step_advance)
  note cores = on_datagram_core on_migrate_core core_on_path_response
  show ?thesis
  proof (cases f)
    case (Stream sf)
    then have "s' = snd (apply_stream_frame s sf)" using h by (auto simp: handle_frame_def dest!: bindS_PairD)
    then show ?thesis using apply_stream_frame_credit by (intro credit) simp
  next
    case (ResetStream sf)
    then have "s' = snd (on_reset_stream s sf)" using h by (auto simp: handle_frame_def dest!: bindS_PairD)
    then show ?thesis using on_reset_stream_credit by (intro credit) simp
  next
    case (MaxData m)
    then have "s' = s \<or> s' = s\<lparr>ses_flow := (ses_flow s)\<lparr>fc_max_data_remote := md_maximum_data m\<rparr>\<rparr>"
      using h by (auto simp: handle_frame_def)
    then show ?thesis
      using credit credit_step_flow[of s "(ses_flow s)\<lparr>fc_max_data_remote := md_maximum_data m\<rparr>"] keep
      by (auto simp: flow_inv_def)
  next
    case (MaxStreams m)
    then have "s' = on_max_streams s m" using h by (simp add: handle_frame_def)
    then show ?thesis using on_max_streams_credit by (intro credit) simp
  next
    case (ConnectionClose m)
    then have "s' = s\<lparr>ses_state := Closed\<rparr>" using h by (simp add: handle_frame_def)
    then show ?thesis
      using inv by (intro advance_quiet) (auto simp: session_ok_def peer_inv_def state_rank_def split: SessionState.splits)
  next
    case (NewConnectionId m)
    then show ?thesis
      using h inv keep
      by (auto simp: handle_frame_def session_ok_def peer_inv_def intro!: advance_quiet split: if_splits)
  next
    case (Ack a)
    then have "s' = snd (apply_peer_ack s a now)" using h by (auto simp: handle_frame_def dest!: bindS_PairD)
    then show ?thesis using apply_peer_ack_advance[OF inv] by (metis prod.collapse)
  next
    case (KeyUpdate u)
    then obtain rs where "on_key_update C s (ku_update_sequence u) = Some rs" "s' = snd rs"
      using h by (auto simp: handle_frame_def dest!: bindS_PairD)
    then show ?thesis using core_key_updates(2)[of C s _ "fst rs" "snd rs"] by (intro keep) simp
  next
    case (Datagram m)
    then have "s' = snd (on_datagram s m)" using h by (auto simp: handle_frame_def dest!: bindS_PairD)
    then show ?thesis using cores by (intro keep) simp
  next
    case (Migrate m)
    then have "s' = snd (on_migrate s m)" using h by (auto simp: handle_frame_def dest!: bindS_PairD)
    then show ?thesis using cores by (intro keep) simp
  next
    case (PathResponse m)
    then have "s' = snd (on_path_response s path (pr_data m))"
      using h by (auto simp: handle_frame_def dest!: bindS_PairD)
    then show ?thesis using cores by (intro keep) simp
  qed (rule keep, (use h in \<open>auto simp: handle_frame_def\<close>)[1])+
qed

lemma handle_frames_advance:
  "session_ok d s \<Longrightarrow> handle_frames C s now path fs out = Some (r, s') \<Longrightarrow> advance d C s [] s'"
proof (induction fs arbitrary: s out)
  case Nil
  then show ?case by (simp add: advance_refl)
next
  case (Cons f fs)
  then obtain a s1 where h: "handle_frame C s now path f = Some (a, s1)"
    by (auto simp: Option.bind_eq_Some_conv)
  note adv = handle_frame_advance[OF Cons.prems(1) h]
  show ?case
  proof (cases a)
    case (Inl e)
    then show ?thesis using adv h Cons.prems(2) by simp
  next
    case (Inr b)
    then show ?thesis
      using advance_trans[OF adv Cons.IH[OF advance_inv[OF adv]]] h Cons.prems(2) by simp
  qed
qed

section \<open>Inbound packets\<close>

lemma advance_admit:
  assumes inv: "session_ok d s" and sp: "fmlookup (ses_spaces s) space = Some sp"
    and ad: "admit_reconstructed sp pn = (r, sp')"
  shows "advance d C s [] (s\<lparr>ses_spaces := fmupd space sp' (ses_spaces s)\<rparr>)"
proof -
  let ?s = "s\<lparr>ses_spaces := fmupd space sp' (ses_spaces s)\<rparr>"
  have "pss_next_packet_number sp' = pss_next_packet_number sp"
    using ad by (auto simp: admit_reconstructed_def Let_def split: prod.splits if_splits)
  then have "next_pn ?s = next_pn s" using sp by (auto simp: next_pn_def)
  moreover have "sent_pns ?s = sent_pns s" by (simp add: sent_pns_def)
  ultimately show ?thesis
    using inv by (auto simp: advance_def session_ok_def pkt_inv_def peer_inv_def)
qed

lemma record_inbound_core: "core (record_inbound s space path pn now n) = core s"
  by (simp add: record_inbound_def Let_def)

lemma append_ack_core: "core (snd (append_ack s space payload)) = core s"
  by (auto simp: append_ack_def Let_def split: option.splits prod.splits)

lemma process_payload_advance:
  assumes inv: "session_ok d s" and h: "process_payload C s now k path payload = Some (r, s')"
  shows "advance d C s [] s'"
proof (cases "parse_payload (Protected k) payload")
  case (Inl e)
  then show ?thesis using h advance_refl[OF inv] by (simp add: process_payload_def)
next
  case (Inr parsed)
  define s1 where "s1 = (if list_ex (\<lambda>f. f \<noteq> Padding) (pp_frames parsed)
    then s\<lparr>ses_last_activity := Some now\<rparr> else s)"
  have a1: "advance d C s [] s1" by (rule advance_core[OF _ inv]) (simp add: s1_def)
  obtain a s2 where f: "handle_frames C s1 now path (pp_frames parsed) [] = Some (a, s2)"
    using h Inr by (auto simp: process_payload_def s1_def[symmetric] Let_def Option.bind_eq_Some_conv)
  have a2: "advance d C s [] s2"
    using advance_trans[OF a1 handle_frames_advance[OF advance_inv[OF a1] f]] by simp
  have "core s' = core s2"
    using h Inr f append_ack_core[of s2 "space_of k"]
    by (cases a) (auto simp: process_payload_def s1_def[symmetric] Let_def, metis snd_conv)
  from advance_trans[OF a2 advance_core[OF this advance_inv[OF a2]]] show ?thesis by simp
qed

lemma on_inbound_advance:
  assumes inv: "session_ok d s" and h: "on_inbound C s now bytes = Some (r, s')"
  shows "advance d C s [] s'"
proof (cases "parse_protected_packet (fn_dec C) (fn_stream C) (ses_remote_keys s) (ses_remote_hp_key s)
    (expected_pn s PacketSpace.SessionData) bytes")
  case (Inl e)
  then have "s' = s \<or> s' = s\<lparr>ses_state := Closed\<rparr>"
    using h by (auto simp: on_inbound_def Let_def split: option.splits if_splits)
  moreover have "advance d C s [] (s\<lparr>ses_state := Closed\<rparr>)"
    using inv by (intro advance_quiet) (auto simp: session_ok_def peer_inv_def state_rank_def split: SessionState.splits)
  ultimately show ?thesis using advance_refl[OF inv] by auto
next
  case (Inr x)
  obtain k dcid path pn payload where x: "x = (k, dcid, path, pn, payload)" by (cases x)
  show ?thesis
  proof (cases "fmlookup (ses_spaces s) (space_of k)")
    case None
    then show ?thesis using h Inr x advance_refl[OF inv] by (simp add: on_inbound_def)
  next
    case (Some sp)
    obtain a sp' where ad: "admit_reconstructed sp pn = (a, sp')" by fastforce
    define s1 where "s1 = s\<lparr>ses_spaces := fmupd (space_of k) sp' (ses_spaces s)\<rparr>"
    have a1: "advance d C s [] s1" unfolding s1_def by (rule advance_admit[OF inv Some ad])
    show ?thesis
    proof (cases a)
      case (Inl e)
      then show ?thesis using h Inr x Some ad a1 by (simp add: on_inbound_def s1_def)
    next
      case (Inr q)
      define s2 where "s2 = record_inbound s1 (space_of k) path q now (length bytes)"
      have a2: "advance d C s [] s2"
        using advance_trans[OF a1 advance_core[OF record_inbound_core advance_inv[OF a1]]] by (simp add: s2_def)
      have "process_payload C s2 now k path payload = Some (r, s')"
        using h \<open>parse_protected_packet _ _ _ _ _ _ = Inr x\<close> x Some ad Inr
        by (simp add: on_inbound_def s1_def s2_def Let_def)
      from advance_trans[OF a2 process_payload_advance[OF advance_inv[OF a2] this]] show ?thesis by simp
    qed
  qed
qed

section \<open>Credit and timers\<close>

lemma flow_control_frames_advance:
  assumes "session_ok d s" and h: "flow_control_frames iter s = (fs, s')"
  shows "advance d C s [] s'"
proof (rule credit_step_advance[OF assms(1)])
  let ?max = "fc_max_data_local (ses_flow s)"
  obtain f1 s1 where g: "(if credit_remaining_local (ses_flow s) < ?max div 2 then
        let new_max = u64_saturating_mul ?max 2 in
        if new_max > ?max then
          (push_ok [] (MaxDataFrame_encode \<lparr>md_maximum_data = new_max\<rparr>),
           s\<lparr>ses_flow := grant_more (ses_flow s) new_max\<rparr>)
        else ([], s)
      else ([], s)) = (f1, s1)"
    by fastforce
  then have c1: "credit_step s s1"
    using grant_more_inv by (auto simp: credit_step_def Let_def split: if_splits)
  obtain f2 s2 where c: "stream_credits s1
      (iter (fset (fmdom (ses_stream_consumed s1) |\<union>| fmdom (ses_stream_app_consumed s1)))) f1 = (f2, s2)"
    by fastforce
  have "credit_step s s2" using credit_step_then_core[OF c1 core_stream_credits[OF c]] .
  moreover have "s' = s2 \<or> (\<exists>n. s' = s2\<lparr>ses_max_streams_sent := n,
      ses_flow := (ses_flow s2)\<lparr>fc_max_bidirectional_streams_local := n\<rparr>\<rparr>)"
    using h unfolding flow_control_frames_def g by (auto simp: c[simplified] Let_def split: if_splits)
  ultimately show "credit_step s s'"
    by (auto simp: credit_step_def pkt_core_def flow_inv_def)
qed

lemma session_close_advance:
  assumes "session_ok d s"
  shows "advance d C s [] (session_close s now)" "advance d C s [] (finalize_close s)"
  using assms
  by (auto intro!: advance_quiet simp: session_close_def finalize_close_def Let_def pkt_core_def session_ok_def
      peer_inv_def state_rank_def split: SessionState.splits)

lemma after_inbound_advance:
  assumes inv: "session_ok 0 s" and C: "aead_sized C" and h: "after_inbound C s k path fs now = (outs, s')"
  shows "advance 0 C s outs s'"
proof -
  obtain outs1 s1 where r: "(case (k, largest_acked fs) of
        (ShortPacketSpace.SessionData, Some largest) \<Rightarrow> recover_lost C s path now largest | _ \<Rightarrow> ([], s)) = (outs1, s1)"
    by fastforce
  then have a: "advance 0 C s outs1 s1"
    using recover_lost_advance[OF inv C] advance_refl[OF inv, of C]
    by (cases k; cases "largest_acked fs") auto
  have s': "s' = s1\<lparr>ses_congestion := set_smoothed_rtt (ses_congestion s1) (smoothed_rtt (ses_rtt s1)) now\<rparr>"
    and outs: "outs1 = outs"
    using h unfolding after_inbound_def r by simp_all
  have "advance 0 C s1 [] s'"
    unfolding s' using advance_inv[OF a]
    by (intro advance_congestion[OF advance_inv[OF a]]) (auto simp: session_ok_def pkt_inv_def)
  from advance_trans[OF a this] show ?thesis by (simp add: outs)
qed

lemma pto_probe_advance:
  assumes "session_ok 0 s" and "aead_sized C" and "pto_probe C s now = (r, s')"
  shows "advance 0 C s (case r of None \<Rightarrow> [] | Some b \<Rightarrow> [b]) s'"
proof (cases "eliciting_in_flight s")
  case True
  define ping where "ping = (case varint_encode FT_PING of Inl _ \<Rightarrow> [] | Inr ty \<Rightarrow> ty)"
  obtain a s1 where b: "build_outbound_inner C s (ses_primary_path_id s) now ping = (a, s1)" by fastforce
  then have "s' = s1" "(case r of None \<Rightarrow> [] | Some b \<Rightarrow> [b]) = sent_of a"
    using assms(3) True by (auto simp: pto_probe_def ping_def[symmetric] split: sum.splits option.splits)
  then show ?thesis using build_outbound_advance[OF assms(1,2) b] by simp
qed (use assms advance_refl in \<open>auto simp: pto_probe_def\<close>)

end
