(* ===== verification/Session_Run.thy ===== *)
theory Session_Run
  imports Session_Steps
begin

text \<open>
  Runs of a session: the public operations that change a session are its steps, together with the
  loss recovery and the probes of the daemon. The output of a step is what it hands to the carrier:
  the packets it seals, and stateless resets, which are not sealed. Not a step is what gives the
  caller a part of the session to overwrite: \<open>set_congestion_controller\<close>, \<open>congestion_mut\<close> and
  \<open>sent_state_mut\<close>; the use the daemon makes of the last two is in \<open>step_recover\<close> and \<open>step_probe\<close>.
\<close>

section \<open>Steps and runs\<close>

datatype Output = SealedPacket bytes | ResetPacket bytes

fun sealed_packets :: "Output list \<Rightarrow> bytes list" where
  "sealed_packets [] = []"
| "sealed_packets (SealedPacket b # outs) = b # sealed_packets outs"
| "sealed_packets (ResetPacket b # outs) = sealed_packets outs"

lemma sealed_packets_append [simp]: "sealed_packets (a @ b) = sealed_packets a @ sealed_packets b"
  by (induction a rule: sealed_packets.induct) simp_all

lemma sealed_packets_map [simp]: "sealed_packets (map SealedPacket bs) = bs"
  by (induction bs) simp_all

lemma sealed_packets_Nil: "sealed_packets outs = [] \<longleftrightarrow> set outs \<subseteq> range ResetPacket"
  by (induction outs rule: sealed_packets.induct) auto

inductive session_step :: "Crypto_Fns \<Rightarrow> 'e entropy \<Rightarrow> Session \<Rightarrow> Output list \<Rightarrow> Session \<Rightarrow> bool" for C fill where
  step_send: "build_outbound_inner C s path now payload = (r, s') \<Longrightarrow> session_step C fill s (map SealedPacket (sent_of r)) s'"
| step_retransmit: "retransmit C s pn now = (r, s') \<Longrightarrow> session_step C fill s (map SealedPacket (sent_of r)) s'"
| step_inbound: "on_inbound C s now bytes = Some (r', s') \<Longrightarrow> session_step C fill s [] s'"
| step_recover: "after_inbound C s k path fs now = (bs, s') \<Longrightarrow> session_step C fill s (map SealedPacket bs) s'"
| step_probe: "pto_probe C s now = (p, s') \<Longrightarrow> session_step C fill s (case p of None \<Rightarrow> [] | Some b \<Rightarrow> [SealedPacket b]) s'"
| step_key_update: "initiate_key_update C s = Some (r', s') \<Longrightarrow> session_step C fill s [] s'"
| step_on_key_update: "on_key_update C s q = Some (r'', s') \<Longrightarrow> session_step C fill s [] s'"
| step_peer_ack: "apply_peer_ack s ack now = (ra, s') \<Longrightarrow> session_step C fill s [] s'"
| step_path_response: "session_step C fill s [] (snd (on_path_response s path bytes))"
| step_credit: "flow_control_frames iter s = (bs, s') \<Longrightarrow> session_step C fill s [] s'"
| step_close: "session_step C fill s [] (session_close s now)"
| step_finalize: "session_step C fill s [] (finalize_close s)"
| step_prune: "session_step C fill s [] (prune_retransmit_payload s pn)"
| step_open: "session_step C fill s [] (snd (open_stream_kind s u))"
| step_open_protocol: "session_step C fill s [] (snd (open_stream_with_protocol s proto u))"
| step_stream_data: "session_step C fill s [] (snd (send_stream_data s i bytes u))"
| step_stream_fin: "session_step C fill s [] (snd (close_stream_send_payload s i))"
| step_stream_reset: "session_step C fill s [] (snd (reset_stream_payload s i code))"
| step_stream_read: "session_step C fill s [] (snd (read_stream s i))"
| step_datagram: "session_step C fill s [] (snd (send_datagram s d n))"
| step_datagram_pop: "session_step C fill s [] (snd (pop_outbound_datagram_payload s now))"
| step_datagram_recv: "session_step C fill s [] (snd (recv_datagram s))"
| step_add_path: "session_step C fill s [] (snd (add_path_with_challenge_bytes s path ct lc rc now bytes))"
| step_migrate: "session_step C fill s [] (snd (migrate_to s path u))"
| step_migrate_payload: "session_step C fill s [] (snd (build_migrate_payload s path u v))"
| step_take_migration: "session_step C fill s [] (snd (take_path_migration s))"
| step_take_validation: "session_step C fill s [] (snd (take_path_validation s))"
| step_degrade: "session_step C fill s [] (snd (mark_path_degraded s path))"
| step_force_validate: "session_step C fill s [] (force_validate s path)"
| step_issue_cid: "session_step C fill s [] (fst (snd (issue_connection_id fill e s)))"
| step_emit_reset: "maybe_emit_stateless_reset fill e s now n = (p, s', e')
    \<Longrightarrow> session_step C fill s (case p of None \<Rightarrow> [] | Some b \<Rightarrow> [ResetPacket b]) s'"
| step_reset_secret: "session_step C fill s [] (set_stateless_reset_secret s bytes)"
| step_touch: "session_step C fill s [] (touch s now)"
| step_direct: "session_step C fill s [] (set_direct_path_allowed s u)"
| step_profile: "session_step C fill s [] (set_privacy_profile s profile)"
| step_padding: "session_step C fill s [] (set_traffic_padding s u)"
| step_jitter: "session_step C fill s [] (set_timing_jitter_ms s ms)"

inductive session_run :: "Crypto_Fns \<Rightarrow> 'e entropy \<Rightarrow> Session \<Rightarrow> Output list \<Rightarrow> Session \<Rightarrow> bool" for C fill s0 where
  srun_start: "session_run C fill s0 [] s0"
| srun_step: "session_run C fill s0 outs s \<Longrightarrow> session_step C fill s new s' \<Longrightarrow> session_run C fill s0 (outs @ new) s'"

lemma session_step_advance:
  assumes "session_step C fill s outs s'" "session_ok 0 s" "aead_sized C"
  shows "advance 0 C s (sealed_packets outs) s'"
  using assms
proof (cases rule: session_step.cases)
  case (step_prune pn)
  then show ?thesis
    using advance_retransmit_table[OF advance_refl[OF assms(2)]] by (simp add: prune_retransmit_payload_def)
next
  case (step_inbound now bytes r)
  then show ?thesis using on_inbound_advance assms by (metis sealed_packets.simps(1))
next
  case (step_credit iter bs)
  then show ?thesis using flow_control_frames_advance assms by (metis sealed_packets.simps(1))
next
  case (step_probe now p)
  then have "sealed_packets outs = (case p of None \<Rightarrow> [] | Some b \<Rightarrow> [b])" by (cases p) simp_all
  then show ?thesis using step_probe pto_probe_advance assms by simp
next
  case (step_emit_reset e now n p e')
  then have "sealed_packets outs = []" "core s' = core s"
    using core_maybe_emit[of fill e s now n] by (cases p; simp)+
  then show ?thesis using assms(2) advance_core by simp
next
  case (step_peer_ack ack now ra)
  then show ?thesis using apply_peer_ack_advance assms by simp
qed (auto intro: build_outbound_advance retransmit_advance after_inbound_advance
    intro!: session_close_advance advance_core dest: core_key_updates)

lemma session_run_advance:
  "session_run C fill s outs s' \<Longrightarrow> session_ok 0 s \<Longrightarrow> aead_sized C
     \<Longrightarrow> advance 0 C s (sealed_packets outs) s'"
  by (induction rule: session_run.induct)
    (auto intro: advance_refl advance_trans dest: advance_inv session_step_advance)

section \<open>Construction\<close>

lemma Session_init_ok:
  "length (cfg_dcid config) = 8 \<Longrightarrow> session_ok 0 (Session_init config now lk rk lhp rhp)"
  by (simp add: session_ok_def pkt_inv_def peer_inv_def next_pn_def sent_ok_def Session_init_def
      PacketSpaceState_new_def AckSendState_new_def Reno_new_def)

lemma bind_SomeE:
  assumes "Option.bind m f = Some y"
  obtains x where "m = Some x" "f x = Some y"
  using assms by (auto simp: Option.bind_eq_Some_conv)

lemma Session_new_Inr:
  assumes "Session_new C config now = Some (Inr s)"
  obtains lk rk lhp rhp where "s = Session_init config now lk rk lhp rhp"
    "length (cfg_dcid config) = 8" "length (pk_iv lk) = IV_LEN"
proof -
  obtain lk rk lhp rhp where k: "from_traffic_secret (fn_hash C) (cfg_local_traffic_secret config) = Some (Inr lk)"
    and s: "s = Session_init config now lk rk lhp rhp" "length (cfg_dcid config) = 8"
    using assms by (auto simp: Session_new_def elim!: bind_SomeE split: if_splits sum.splits)
  have "length (pk_iv lk) = IV_LEN"
    using k
    by (auto simp: from_traffic_secret_def copy_exact_def Option.bind_eq_Some_conv split: sum.splits if_splits)
  then show thesis using that s by blast
qed

lemma Session_new_ok:
  assumes "Session_new C config now = Some (Inr s)"
  shows "session_ok 0 s" "length (pk_iv (ses_local_keys s)) = IV_LEN" "ses_state s = Active"
proof -
  obtain lk rk lhp rhp where s: "s = Session_init config now lk rk lhp rhp"
    and c: "length (cfg_dcid config) = 8" "length (pk_iv lk) = IV_LEN"
    by (rule Session_new_Inr[OF assms])
  show "session_ok 0 s" unfolding s by (rule Session_init_ok[OF c(1)])
  show "length (pk_iv (ses_local_keys s)) = IV_LEN" "ses_state s = Active"
    using c(2) by (simp_all add: s Session_init_def)
qed

section \<open>A concrete session\<close>

text \<open>
  External functions that have the properties the theorems ask for, and a session that uses them, to
  show that the hypotheses can hold.
\<close>

definition sample_fns :: Crypto_Fns where
  "sample_fns = \<lparr>fn_hash = (\<lambda>_. replicate 32 0), fn_enc = plain_enc, fn_dec = plain_dec, fn_stream = zero_stream\<rparr>"

definition sample_config :: "Role \<Rightarrow> SessionConfig" where
  "sample_config role =
     \<lparr>cfg_role = role, cfg_dcid = replicate 8 1, cfg_local_traffic_secret = [], cfg_remote_traffic_secret = [],
      cfg_initial_max_data = 65536, cfg_initial_max_stream_data = 65536, cfg_max_ack_delay_ms = 25\<rparr>"

definition sample_fill :: "unit entropy" where
  "sample_fill e n = (replicate n 0, e)"

lemma sample_sized: "aead_sized sample_fns"
  by (simp add: aead_sized_def sample_fns_def plain_enc_def)

lemma sample_session:
  obtains lk rk lhp rhp where
    "Session_new sample_fns (sample_config role) 0 = Some (Inr (Session_init (sample_config role) 0 lk rk lhp rhp))"
proof -
  let ?H = "\<lambda>_ :: bytes. replicate 32 0 :: bytes"
  obtain k where k: "from_traffic_secret ?H [] = Some (Inr k)"
    by (rule from_traffic_secret_total[of ?H "[]"]) simp_all
  then obtain hp where "header_protection_key ?H [] = Some hp"
    by (auto simp: from_traffic_secret_def elim!: bind_SomeE split: sum.splits)
  then show thesis
    using that[of k k hp hp] k by (simp add: Session_new_def sample_fns_def sample_config_def)
qed

lemma sample_build:
  assumes "length payload \<le> 1000"
  obtains pkt where "build_protected_packet plain_enc zero_stream keys hp ShortPacketSpace.SessionData dcid 0 pn False payload
    = Inr pkt"
  using assms
  by (simp add: build_protected_packet_def seal_def plain_enc_def varint_encode_into_eq MAX_VARINT_def
      get_range_def protect_def Let_def)

text \<open>The session after its first packet.\<close>

lemma sample_first:
  fixes config now lk rk lhp rhp payload
  defines "s0 \<equiv> Session_init config now lk rk lhp rhp"
  assumes "length payload \<le> 1000"
  obtains pkt where "build_outbound_inner sample_fns s0 0 now payload =
    (Inr (Some pkt),
     s0\<lparr>ses_spaces := fmupd PacketSpace.SessionData
           ((PacketSpaceState_new PacketSpace.SessionData)\<lparr>pss_next_packet_number := 1\<rparr>) (ses_spaces s0),
        ses_sent := [SentPacket_new 0 PacketSpace.SessionData now (length pkt) True 0],
        ses_retransmit_payloads := fmupd 0 payload fmempty,
        ses_congestion := reno_on_packet_sent Reno_new (length pkt)\<rparr>)"
proof -
  obtain pkt where b: "build_protected_packet plain_enc zero_stream lk lhp ShortPacketSpace.SessionData
      (cfg_dcid config) 0 0 False payload = Inr pkt"
    by (rule sample_build[OF assms(2)])
  have p: "outbound_payload s0 payload = payload" by (simp add: s0_def Session_init_def outbound_payload_def)
  have "\<not> gated s0 0 payload"
    using assms(2)
    by (simp add: gated_def over_amplification_def s0_def Session_init_def reno_send_allowance_def Reno_new_def
        u64_saturating_sub_def)
  moreover have "fmlookup (ses_spaces s0) PacketSpace.SessionData = Some (PacketSpaceState_new PacketSpace.SessionData)"
    by (simp add: s0_def Session_init_def)
  moreover have "allocate_packet_number (PacketSpaceState_new PacketSpace.SessionData) =
      (Inr 0, (PacketSpaceState_new PacketSpace.SessionData)\<lparr>pss_next_packet_number := 1\<rparr>)"
    by (simp add: allocate_packet_number_def PacketSpaceState_new_def MAX_PACKET_NUMBER_def)
  ultimately show thesis
    using that[of pkt] build_outbound_ungated[of s0 0 payload, unfolded p] b
    by (simp add: s0_def Session_init_def sample_fns_def record_outbound_def record_sent_def map_update_def
        AckSendState_new_def)
qed

text \<open>A run that sends a packet, and one that sends a probe after it.\<close>

lemma sample_run1:
  obtains s0 p1 s1 where "Session_new sample_fns (sample_config Client) 0 = Some (Inr s0)"
    "session_run sample_fns sample_fill s0 [SealedPacket p1] s1" "ses_last_reset_ms s1 = None"
    "ses_paths s1 = fmempty" "ses_direct_path_allowed s1" "ses_state s1 = Active" "\<not> ses_traffic_padding s1"
    "ses_primary_path_id s1 = 0" "ses_rtt s1 = RttEstimator_new" "next_pn s1 = 1"
    "ses_sent s1 = [SentPacket_new 0 PacketSpace.SessionData 0 (length p1) True 0]"
    "ses_retransmit_payloads s1 = fmupd 0 [0] fmempty"
proof -
  obtain lk rk lhp rhp where new: "Session_new sample_fns (sample_config Client) 0 =
      Some (Inr (Session_init (sample_config Client) 0 lk rk lhp rhp))" (is "_ = Some (Inr ?s0)")
    by (rule sample_session)
  obtain p1 s1 where b1: "build_outbound_inner sample_fns ?s0 0 0 [0] = (Inr (Some p1), s1)"
    and s1: "s1 = ?s0\<lparr>ses_spaces := fmupd PacketSpace.SessionData
           ((PacketSpaceState_new PacketSpace.SessionData)\<lparr>pss_next_packet_number := 1\<rparr>) (ses_spaces ?s0),
        ses_sent := [SentPacket_new 0 PacketSpace.SessionData 0 (length p1) True 0],
        ses_retransmit_payloads := fmupd 0 [0] fmempty,
        ses_congestion := reno_on_packet_sent Reno_new (length p1)\<rparr>"
    by (rule sample_first[of "[0]" "sample_config Client" 0 lk rk lhp rhp]) auto
  have "session_run sample_fns sample_fill ?s0 [SealedPacket p1] s1"
    using srun_step[OF srun_start step_send[OF b1]] by simp
  then show thesis by (rule that[OF new]) (simp_all add: s1 Session_init_def next_pn_def)
qed

lemma sample_run:
  obtains s0 p1 p2 s where "Session_new sample_fns (sample_config Client) 0 = Some (Inr s0)"
    "session_run sample_fns sample_fill s0 [SealedPacket p1, SealedPacket p2] s"
proof -
  obtain s0 p1 s1 where new: "Session_new sample_fns (sample_config Client) 0 = Some (Inr s0)"
    and run1: "session_run sample_fns sample_fill s0 [SealedPacket p1] s1"
    and s1: "ses_paths s1 = fmempty" "ses_state s1 = Active" "next_pn s1 = 1"
    by (rule sample_run1)
  obtain sp where sp: "fmlookup (ses_spaces s1) PacketSpace.SessionData = Some sp" "pss_next_packet_number sp = 1"
    using s1(3) by (auto simp: next_pn_def word_unat_eq_iff split: option.splits)
  obtain p2 where p2: "build_protected_packet plain_enc zero_stream (ses_local_keys s1) (ses_local_hp_key s1)
      ShortPacketSpace.SessionData (ses_dcid s1) 0 1 False [4] = Inr p2"
    by (rule sample_build[of "[4]"]) simp
  have ex: "payload_is_exempt [4]" by code_simp
  have "outbound_payload s1 [4] = [4]" by (simp add: outbound_payload_def ex)
  moreover have "\<not> gated s1 0 [4]" by (simp add: gated_def ex over_amplification_def s1)
  ultimately obtain s2 where b2: "build_outbound_inner sample_fns s1 0 0 [4] = (Inr (Some p2), s2)"
    using build_outbound_ungated[of s1 0 "[4]" sp "Inr 1"] sp p2
    by (simp add: allocate_packet_number_def MAX_PACKET_NUMBER_def sample_fns_def)
  have "session_run sample_fns sample_fill s0 [SealedPacket p1, SealedPacket p2] s2"
    using srun_step[OF run1 step_send[OF b2]] by simp
  then show thesis using that new by blast
qed

text \<open>
  A payload is stranded: its packet is declared lost after an unvalidated path was registered, so the
  retransmission is refused by the amplification gate.
\<close>

lemma sample_refused:
  assumes s: "ses_state s = Active" "\<not> ses_traffic_padding s" "ses_primary_path_id s = 0"
    "ses_rtt s = RttEstimator_new" "ses_retransmit_payloads s = fmupd 0 [0] fmempty"
    and sent: "ses_sent s = [SentPacket_new 0 PacketSpace.SessionData 0 n True 0]"
    and path: "fmlookup (ses_paths s) 0 = Some p" "\<not> path_validated p" "path_send_allowance p = 0"
  shows "recover_lost sample_fns s 0 50 3 =
    ([], s\<lparr>ses_sent := [], ses_congestion := reno_on_packet_lost (ses_congestion s) n\<rparr>)" (is "_ = ([], ?s)")
proof -
  have "\<not> payload_is_exempt [0]" by code_simp
  then have amp: "retransmit sample_fns ?s 0 50 = (Inl AmplificationLimit, ?s)"
    using s path by (simp add: retransmit_def build_outbound_inner_def outbound_payload_def over_amplification_def)
  have lost: "detect_lost_packets (ses_sent s) (ses_rtt s) 50 3 = ([0], [])"
    by (simp add: sent detect_lost_packets_def SentPacket_new_def packet_threshold_lost_def
        PACKET_THRESHOLD_def AckSendState_new_def)
  have np: "lost_times (collect_map [(0, (0, True))]) [0] = [0]"
    "\<not> persistent_congestion (pto (ses_loss s) (ses_rtt s)) 0 0"
    by (simp_all add: lost_times_def collect_map_def persistent_congestion_def duration_since_def
        u64_saturating_sub_def s pto_def RttEstimator_new_def DEFAULT_PTO_MS_def del: not_None_eq)
  then have "degrade_if_persistent (s\<lparr>ses_sent := []\<rparr>) 0 (collect_map [(0, (0, True))]) [0] = s\<lparr>ses_sent := []\<rparr>"
    unfolding degrade_if_persistent_def np(1) by simp
  then show ?thesis
    using amp unfolding recover_lost_def lost by (simp add: sent collect_map_def SentPacket_new_def)
qed

lemma sample_stranded:
  obtains s0 outs s where "Session_new sample_fns (sample_config Client) 0 = Some (Inr s0)"
    "session_run sample_fns sample_fill s0 outs s" "fmlookup (ses_retransmit_payloads s) 0 = Some [0]"
    "unat (0 :: u64) < next_pn s" "0 \<notin> sent_pns s"
proof -
  obtain s0 p1 s1 where new: "Session_new sample_fns (sample_config Client) 0 = Some (Inr s0)"
    and run1: "session_run sample_fns sample_fill s0 [SealedPacket p1] s1"
    and sel: "ses_paths s1 = fmempty" "ses_direct_path_allowed s1" "ses_state s1 = Active" "\<not> ses_traffic_padding s1"
      "ses_primary_path_id s1 = 0" "ses_rtt s1 = RttEstimator_new" "next_pn s1 = 1"
      "ses_sent s1 = [SentPacket_new 0 PacketSpace.SessionData 0 (length p1) True 0]"
      "ses_retransmit_payloads s1 = fmupd 0 [0] fmempty"
    by (rule sample_run1)
  define p where "p = snd (start_validation (Path_new 0 ''tcp'' [] [] 0) (replicate 8 0) 0 (pto (ses_loss s1) (ses_rtt s1)))"
  define s2 where "s2 = snd (add_path_with_challenge_bytes s1 0 ''tcp'' [] [] 0 (replicate 8 0))"
  have s2: "s2 = s1\<lparr>ses_paths := fmupd 0 p fmempty\<rparr>"
    by (simp add: s2_def p_def sel add_path_with_challenge_bytes_def start_validation_def
        Path_new_def count_values_def fcard.rep_eq Let_def)
  have run2: "session_run sample_fns sample_fill s0 [SealedPacket p1] s2"
    using srun_step[OF run1 step_add_path] by (simp add: s2_def)
  have "\<not> path_validated p" "path_send_allowance p = 0"
    by (simp_all add: p_def start_validation_def Path_new_def path_send_allowance_def u64_saturating_mul_def
        u64_saturating_sub_def Let_def)
  then have rec: "recover_lost sample_fns s2 0 50 3 =
      ([], s2\<lparr>ses_sent := [], ses_congestion := reno_on_packet_lost (ses_congestion s2) (length p1)\<rparr>)" (is "_ = (_, ?s3)")
    by (intro sample_refused[where p = p]) (simp_all add: s2 sel)
  let ?ack = "Ack \<lparr>ack_largest_acknowledged = 3, ack_ack_delay = 0, ack_first_ack_range = 1, ack_additional_ranges = []\<rparr>"
  have la: "largest_acked [?ack] = Some 3" by (simp add: largest_acked_def List.map_filter_simps)
  obtain c where "after_inbound sample_fns s2 ShortPacketSpace.SessionData 0 [?ack] 50 = ([], ?s3\<lparr>ses_congestion := c\<rparr>)"
    unfolding after_inbound_def la by (simp add: rec)
  from srun_step[OF run2 step_recover[OF this]] have "session_run sample_fns sample_fill s0 [SealedPacket p1] (?s3\<lparr>ses_congestion := c\<rparr>)"
    by simp
  from that[OF new this] sel show thesis by (simp add: s2 next_pn_def sent_pns_def)
qed

section \<open>Properties\<close>

text \<open>
  C1: No nonce is used twice. With a cipher that adds its tag to the plaintext, whatever the session
  is asked to do and whatever its peer sends (retransmissions, probes, loss recovery and key updates
  included), every packet it seals is sealed under the traffic keys it started with and its own
  packet number; the numbers ascend, and no two nonces are equal.
\<close>

theorem session_nonces_once:
  assumes "Session_new C config t0 = Some (Inr s0)" and "aead_sized C" and "session_run C fill s0 outs s"
  shows "\<exists>pns. list_all2 (sealed_as C s0) (sealed_packets outs) pns \<and> sorted_wrt (<) pns
    \<and> distinct (map (nonce_for (ses_local_keys s0)) pns) \<and> ses_local_keys s = ses_local_keys s0"
proof -
  have a: "advance 0 C s0 (sealed_packets outs) s"
    using session_run_advance[OF assms(3) Session_new_ok(1)[OF assms(1)] assms(2)] .
  then obtain pns where pns: "list_all2 (sealed_as C s0) (sealed_packets outs) pns" "sorted_wrt (<) pns"
    unfolding advance_def by blast
  have "inj (nonce_for (ses_local_keys s0))"
    using nonce_for_inj[OF Session_new_ok(2)[OF assms(1)]] by (auto simp: inj_def)
  then have "distinct (map (nonce_for (ses_local_keys s0)) pns)"
    using pns(2) by (auto simp: distinct_map strict_sorted_iff intro: inj_on_subset)
  then show ?thesis using pns a by (auto simp: advance_def)
qed

theorem session_nonces_once_witness:
  "\<exists>s0 outs s pns. session_run sample_fns sample_fill s0 outs s \<and> length (sealed_packets outs) = 2
     \<and> list_all2 (sealed_as sample_fns s0) (sealed_packets outs) pns \<and> distinct (map (nonce_for (ses_local_keys s0)) pns)"
proof -
  obtain s0 p1 p2 s where r: "Session_new sample_fns (sample_config Client) 0 = Some (Inr s0)"
    "session_run sample_fns sample_fill s0 [SealedPacket p1, SealedPacket p2] s"
    by (rule sample_run)
  from session_nonces_once[OF r(1) sample_sized r(2)] obtain pns where
    "list_all2 (sealed_as sample_fns s0) [p1, p2] pns" "distinct (map (nonce_for (ses_local_keys s0)) pns)"
    by auto
  then show ?thesis using r(2) by (intro exI[of _ s0] exI[of _ "[SealedPacket p1, SealedPacket p2]"] exI[of _ s] exI[of _ pns]) simp
qed

text \<open>
  C2: What is in flight is what was sent. In every reachable state the bytes the congestion controller
  counts as in flight are exactly those of the packets in the sent queue, which is bounded and
  ascending; the credit consumed by the peer stays within what was granted.
\<close>

theorem session_accounting:
  assumes "Session_new C config t0 = Some (Inr s0)" and "aead_sized C" and "session_run C fill s0 outs s"
  shows "unat (reno_in_flight (ses_congestion s)) = sum_list (map sp_size (ses_sent s))
    \<and> length (ses_sent s) \<le> MAX_OUTSTANDING_PACKETS
    \<and> sorted_wrt (<) (map sp_packet_number (ses_sent s))
    \<and> fc_consumed (ses_flow s) \<le> fc_max_data_local (ses_flow s)
    \<and> length (ses_dcid s) = DEFAULT_DCID_LEN"
proof -
  have "session_ok 0 s"
    using advance_inv[OF session_run_advance[OF assms(3) Session_new_ok(1)[OF assms(1)] assms(2)]] .
  then show ?thesis
    by (simp add: session_ok_def pkt_inv_def peer_inv_def sent_ok_def flow_inv_def sent_bytes_def)
qed

theorem session_accounting_witness:
  "\<exists>s0 outs s. session_run sample_fns sample_fill s0 outs s \<and> outs \<noteq> []
     \<and> unat (reno_in_flight (ses_congestion s)) = sum_list (map sp_size (ses_sent s))"
proof -
  obtain s0 p1 p2 s where r: "Session_new sample_fns (sample_config Client) 0 = Some (Inr s0)"
    "session_run sample_fns sample_fill s0 [SealedPacket p1, SealedPacket p2] s"
    by (rule sample_run)
  from session_accounting[OF r(1) sample_sized r(2)] r(2) show ?thesis
    by (intro exI[of _ s0] exI[of _ "[SealedPacket p1, SealedPacket p2]"] exI[of _ s]) simp
qed

text \<open>
  C16: A session never comes back. From active it may go to draining or straight to closed, from
  draining only to closed, and a closed one stays closed. Once it is not active it seals no packet,
  whatever it is asked to do: all it can still hand to the carrier are stateless resets.
\<close>

theorem session_lifecycle:
  assumes "Session_new C config t0 = Some (Inr s0)" and "aead_sized C" and "session_run C fill s0 outs s"
    and "session_run C fill s outs' s'"
  shows "(ses_state s, ses_state s') \<in> {(Active, Active), (Active, Draining), (Active, Closed),
      (Draining, Draining), (Draining, Closed), (Closed, Closed)}
    \<and> (ses_state s \<noteq> Active \<longrightarrow> set outs' \<subseteq> range ResetPacket)"
proof -
  have a: "advance 0 C s (sealed_packets outs') s'"
    using session_run_advance[OF assms(4) _ assms(2)] advance_inv
      session_run_advance[OF assms(3) Session_new_ok(1)[OF assms(1)] assms(2)] by blast
  then show ?thesis unfolding sealed_packets_Nil[symmetric]
    by (cases "ses_state s"; cases "ses_state s'") (auto simp: advance_def state_rank_def)
qed

text \<open>A session that sent a packet, was closed, and answers with a stateless reset after that.\<close>

lemma sample_reset:
  assumes "ses_last_reset_ms s = None"
  obtains b s' where "session_run sample_fns sample_fill s [ResetPacket b] s'" "ses_state s' = ses_state s"
proof -
  let ?s = "set_stateless_reset_secret s (replicate 32 1)"
  obtain b e s' where e: "maybe_emit_stateless_reset sample_fill () ?s 5 40 = (Some b, s', e)"
    and st: "ses_state s' = ses_state s"
    using assms
    by (cases "build_stateless_reset sample_fill () (reset_token (replicate 32 1))")
      (auto simp: maybe_emit_stateless_reset_def set_stateless_reset_secret_def Let_def)
  have "session_run sample_fns sample_fill s [] ?s"
    using srun_step[OF srun_start step_reset_secret] by simp
  from srun_step[OF this step_emit_reset[OF e]] show thesis using that st by simp
qed

theorem session_lifecycle_witness:
  "\<exists>s0 p1 s b s'. session_run sample_fns sample_fill s0 [SealedPacket p1] s \<and> ses_state s = Closed
     \<and> session_run sample_fns sample_fill s [ResetPacket b] s' \<and> ses_state s' = Closed"
proof -
  obtain s0 p1 s where r: "Session_new sample_fns (sample_config Client) 0 = Some (Inr s0)"
    "session_run sample_fns sample_fill s0 [SealedPacket p1] s" "ses_last_reset_ms s = None"
    by (rule sample_run1)
  have c: "session_run sample_fns sample_fill s0 [SealedPacket p1] (finalize_close s)"
    using srun_step[OF r(2) step_finalize] by simp
  have cl: "ses_state (finalize_close s) = Closed" "ses_last_reset_ms (finalize_close s) = None"
    using r(3) by (simp_all add: finalize_close_def)
  obtain b s' where e: "session_run sample_fns sample_fill (finalize_close s) [ResetPacket b] s'"
    by (rule sample_reset[OF cl(2)])
  then have "ses_state s' = Closed" using session_lifecycle[OF r(1) sample_sized c e] cl(1) by simp
  then show ?thesis using c cl(1) e by blast
qed

text \<open>
  C19: A lost payload whose retransmission was refused is never tried again. A packet that has left the
  sent queue is not reported lost by any later pass, whatever happens in between, so a payload still
  retained for it stays in the table.
\<close>

theorem stranded_payload:
  assumes "Session_new C config t0 = Some (Inr s0)" and "aead_sized C" and "session_run C fill s0 outs s"
    and "fmlookup (ses_retransmit_payloads s) pn = Some payload"
    and "unat pn < next_pn s" and "pn \<notin> sent_pns s"
    and "session_run C fill s outs' s'"
  shows "pn \<notin> set (fst (detect_lost_packets (ses_sent s') (ses_rtt s') now largest))"
proof -
  have a: "advance 0 C s (sealed_packets outs') s'"
    using session_run_advance[OF assms(7) _ assms(2)] advance_inv
      session_run_advance[OF assms(3) Session_new_ok(1)[OF assms(1)] assms(2)] by blast
  then have "pn \<notin> sent_pns s'" using assms(5,6) by (auto simp: advance_def)
  moreover have "length (ses_sent s') \<le> MAX_OUTSTANDING_PACKETS"
    using advance_inv[OF a] by (simp add: session_ok_def pkt_inv_def sent_ok_def)
  ultimately show ?thesis
    unfolding detect_lost_eq[OF \<open>length (ses_sent s') \<le> MAX_OUTSTANDING_PACKETS\<close>] by (auto simp: sent_pns_def)
qed

theorem stranded_payload_witness:
  "\<exists>s0 outs s. session_run sample_fns sample_fill s0 outs s
     \<and> fmlookup (ses_retransmit_payloads s) 0 = Some [0]
     \<and> 0 \<notin> set (fst (detect_lost_packets (ses_sent s) (ses_rtt s) 100 3))"
proof -
  obtain s0 outs s where r: "Session_new sample_fns (sample_config Client) 0 = Some (Inr s0)"
    "session_run sample_fns sample_fill s0 outs s" "fmlookup (ses_retransmit_payloads s) 0 = Some [0]"
    "unat (0 :: u64) < next_pn s" "0 \<notin> sent_pns s"
    by (rule sample_stranded)
  from stranded_payload[OF r(1) sample_sized r(2-5) srun_start, of 100 3] r(2,3) show ?thesis by blast
qed

end
