(* ===== verification/Session_Delivery.thy ===== *)
theory Session_Delivery
  imports Session_Run
begin

text \<open>
  Two sessions and the packets between them: a datagram sent by one is delivered by the other, once,
  and a packet that carries data stays within the window and the budget of its path.
\<close>

section \<open>What is built is what is opened\<close>

lemma build_outbound_Inr:
  assumes "build_outbound_inner C s path now payload = (Inr (Some pkt), s')"
  obtains sp pn sp' where "\<not> gated s path (outbound_payload s payload)"
    "fmlookup (ses_spaces s) PacketSpace.SessionData = Some sp" "allocate_packet_number sp = (Inr pn, sp')"
    "build_protected_packet (fn_enc C) (fn_stream C) (ses_local_keys s) (ses_local_hp_key s)
       ShortPacketSpace.SessionData (ses_dcid s) path pn False (outbound_payload s payload) = Inr pkt"
    "s' = record_outbound (s\<lparr>ses_spaces := fmupd PacketSpace.SessionData sp' (ses_spaces s)\<rparr>) path now pn
       (outbound_payload s payload) pkt"
proof -
  have g: "\<not> gated s path (outbound_payload s payload)"
    using build_outbound_gated[OF _ assms] by auto
  have "fmlookup (ses_spaces s) PacketSpace.SessionData \<noteq> None"
  proof
    assume "fmlookup (ses_spaces s) PacketSpace.SessionData = None"
    then show False using assms by (simp add: build_outbound_inner_def Let_def split: if_splits)
  qed
  then obtain sp where sp: "fmlookup (ses_spaces s) PacketSpace.SessionData = Some sp" by blast
  obtain a sp' where al: "allocate_packet_number sp = (a, sp')" by fastforce
  show thesis
    using assms[unfolded build_outbound_ungated[OF g sp al]] that[OF g sp] al
    by (auto simp: Let_def split: sum.splits)
qed

lemma allocate_Inr:
  "allocate_packet_number sp = (Inr pn, sp') \<Longrightarrow> pn = pss_next_packet_number sp"
  by (auto simp: allocate_packet_number_def split: if_splits)

section \<open>The frames of a datagram\<close>

lemma encode_paddings: "encode_frames (replicate n Padding) = Inr (replicate n 0)"
proof (induction n)
  case (Suc n)
  have "frame_encode Padding = Inr [0]"
    by (simp add: write_varint_def FT_PADDING_def varint_encode_into_def)
  with Suc show ?case by simp
qed simp

lemma check_all_datagram:
  "check_all (Protected ShortPacketSpace.SessionData) (Datagram f # replicate n Padding) = Inr ()"
proof -
  have "check_all (Protected ShortPacketSpace.SessionData) (replicate n Padding) = Inr ()"
    by (induction n) (simp_all add: check_context_def context_allows_def Let_def)
  then show ?thesis by (simp add: check_context_def context_allows_def Let_def)
qed

lemma parse_datagram:
  assumes "DatagramFrame_encode f = Inr bs" "length bs + n \<le> 65535"
  shows "parse_payload (Protected ShortPacketSpace.SessionData) (bs @ replicate n 0) =
    Inr \<lparr>pp_context = Protected ShortPacketSpace.SessionData, pp_frames = Datagram f # replicate n Padding\<rparr>"
proof -
  have "encode_frames [Datagram f] = Inr bs" using assms(1) by simp
  moreover have "decode_frames (replicate n 0) = Inr (replicate n Padding)"
  proof -
    have "decode_frames [] = Inr []" by (simp add: decode_frames_def decode_frames_loop_done)
    then show ?thesis using decode_frames_prefix[OF encode_paddings, of n "[]"] assms(2) by simp
  qed
  ultimately have "decode_frames (bs @ replicate n 0) = Inr (Datagram f # replicate n Padding)"
    using decode_frames_prefix[of "[Datagram f]" bs "replicate n 0"] assms(2) by simp
  then show ?thesis
    using assms(2) check_all_datagram[of f n] by (simp add: parse_payload_def)
qed

lemma handle_paddings: "handle_frames C s now path (replicate n Padding) out = Some (Inr out, s)"
  by (induction n) (simp_all add: handle_frame_def)

lemma append_ack_state: "\<exists>m. snd (append_ack s space payload) = s\<lparr>ses_recv_acks := m\<rparr>"
proof (cases "fmlookup (ses_recv_acks s) space")
  case None
  then show ?thesis by (auto simp: append_ack_def intro!: exI[of _ "ses_recv_acks s"])
next
  case (Some st)
  obtain n st' where "take_needs_ack st = (n, st')" by fastforce
  then have "snd (append_ack s space payload) = s\<lparr>ses_recv_acks := fmupd space st' (ses_recv_acks s)\<rparr>"
    using Some by (simp add: append_ack_def Let_def split: option.split)
  then show ?thesis by blast
qed

section \<open>Receiving a datagram, once\<close>

definition as_received :: "DatagramFrame \<Rightarrow> Datagram" where
  "as_received f = \<lparr>dgm_context_id = dg_context_id f, dgm_data = dg_data f, dgm_expires_at_ms = None,
     dgm_ack_requested = dg_ack_requested f\<rparr>"

lemma process_datagram:
  assumes bs: "DatagramFrame_encode f = Inr bs" "length bs + n \<le> 65535"
    and q: "enqueue_inbound (ses_datagrams s) (as_received f) = (Inr (), q)"
  shows "\<exists>r m. process_payload C s now ShortPacketSpace.SessionData path (bs @ replicate n 0) =
    Some (r, s\<lparr>ses_last_activity := Some now, ses_datagrams := q, ses_recv_acks := m\<rparr>)"
proof -
  let ?s = "s\<lparr>ses_last_activity := Some now, ses_datagrams := q\<rparr>"
  have h: "handle_frame C (s\<lparr>ses_last_activity := Some now\<rparr>) now path (Datagram f) = Some (Inr [], ?s)"
    using q by (simp add: handle_frame_def on_datagram_def as_received_def)
  have "process_payload C s now ShortPacketSpace.SessionData path (bs @ replicate n 0) =
      Some (append_ack ?s PacketSpace.SessionData [])"
    unfolding process_payload_def parse_datagram[OF bs]
    by (simp add: h handle_paddings space_of_def)
  moreover obtain m where "snd (append_ack ?s PacketSpace.SessionData []) = ?s\<lparr>ses_recv_acks := m\<rparr>"
    using append_ack_state by blast
  ultimately show ?thesis by (metis prod.collapse)
qed

lemma record_inbound_state:
  "\<exists>m ps. record_inbound s space path pn now n = s\<lparr>ses_recv_acks := m, ses_paths := ps\<rparr>"
  by (simp add: record_inbound_def Let_def) blast

lemma on_inbound_admitted:
  assumes "parse_protected_packet (fn_dec C) (fn_stream C) (ses_remote_keys s) (ses_remote_hp_key s)
      (expected_pn s PacketSpace.SessionData) pkt = Inr (ShortPacketSpace.SessionData, dcid, path, pn, payload)"
    and "fmlookup (ses_spaces s) PacketSpace.SessionData = Some sp"
    and "admit_reconstructed sp pn = (Inr q, sp')"
  shows "on_inbound C s now pkt = process_payload C
    (record_inbound (s\<lparr>ses_spaces := fmupd PacketSpace.SessionData sp' (ses_spaces s)\<rparr>) PacketSpace.SessionData
       path q now (length pkt)) now ShortPacketSpace.SessionData path payload"
  using assms by (simp add: on_inbound_def space_of_def)

lemma on_inbound_refused:
  assumes "parse_protected_packet (fn_dec C) (fn_stream C) (ses_remote_keys s) (ses_remote_hp_key s)
      (expected_pn s PacketSpace.SessionData) pkt = Inr (ShortPacketSpace.SessionData, dcid, path, pn, payload)"
    and "fmlookup (ses_spaces s) PacketSpace.SessionData = Some sp"
    and "admit_reconstructed sp pn = (Inl e, sp)" and "ses_spaces s = fmupd PacketSpace.SessionData sp m"
  shows "on_inbound C s now pkt = Some (Inl (Space e), s)"
  using assms by (simp add: on_inbound_def space_of_def)

text \<open>After a number is admitted it is refused, and the expected number is still near it.\<close>

lemma admitted_once:
  assumes inv: "space_inv sp k A" and ad: "admit_reconstructed sp pn = (Inr q, sp')"
  shows "q = pn" "admit_reconstructed sp' pn = (Inl DuplicateOrStale, sp')"
    "pss_largest_received sp' = max (pss_largest_received sp) pn"
proof -
  have a: "q = pn" "space_inv sp' k (insert pn A)" using admit_reconstructed_step[OF inv ad] by auto
  obtain r sp'' where r: "admit_reconstructed sp' pn = (r, sp'')" by fastforce
  show "q = pn" by fact
  show "admit_reconstructed sp' pn = (Inl DuplicateOrStale, sp')"
    using admit_reconstructed_step[OF a(2) r] r by (cases r) auto
  show "pss_largest_received sp' = max (pss_largest_received sp) pn"
    using ad by (auto simp: admit_reconstructed_def Let_def max_def split: prod.splits if_splits)
qed

lemma expected_near:
  fixes l pn :: u64
  assumes "unat (u64_saturating_add l 1) + 2 ^ 16 < 2 ^ 62"
    and "unat (u64_saturating_add l 1) < unat pn + 2 ^ 15" and "unat pn < unat (u64_saturating_add l 1) + 2 ^ 15"
  shows "unat (u64_saturating_add (max l pn) 1) + 2 ^ 15 < 2 ^ 62"
    "unat (u64_saturating_add (max l pn) 1) < unat pn + 2 ^ 15"
    "unat pn < unat (u64_saturating_add (max l pn) 1) + 2 ^ 15"
  using assms by (auto simp: unat_u64_saturating_add max_def word_le_nat_alt)

lemma outbound_payload_padded:
  "\<exists>n. outbound_payload s payload = payload @ replicate n 0"
  by (auto simp: outbound_payload_def intro: exI[of _ 0])

lemma datagram_once:
  assumes build: "build_protected_packet (fn_enc C) (fn_stream C) keys hp ShortPacketSpace.SessionData dcid path pn False
      (bs @ replicate n 0) = Inr pkt"
    and enc: "DatagramFrame_encode f = Inr bs"
    and inverse: "\<And>k n aad p c. fn_enc C k n aad p = Some c \<Longrightarrow> fn_dec C k n aad c = Some p"
    and dcid: "length dcid = 8"
    and keys: "ses_remote_keys b = keys" "ses_remote_hp_key b = hp"
    and sp: "fmlookup (ses_spaces b) PacketSpace.SessionData = Some sp" "space_inv sp k A"
    and ad: "admit_reconstructed sp pn = (Inr pn', sp')"
    and near: "unat (expected_pn b PacketSpace.SessionData) + 2 ^ 16 < 2 ^ 62"
      "unat (expected_pn b PacketSpace.SessionData) < unat pn + 2 ^ 15"
      "unat pn < unat (expected_pn b PacketSpace.SessionData) + 2 ^ 15"
    and q: "enqueue_inbound (ses_datagrams b) (as_received f) = (Inr (), q)"
  shows "\<exists>r b'. on_inbound C b now pkt = Some (r, b') \<and> ses_datagrams b' = q
    \<and> (\<forall>now'. on_inbound C b' now' pkt = Some (Inl (Space DuplicateOrStale), b'))"
proof -
  have parse: "parse_protected_packet (fn_dec C) (fn_stream C) keys hp x pkt =
      Inr (ShortPacketSpace.SessionData, dcid, path, pn, bs @ replicate n 0)"
    if "unat x + 2 ^ 15 < 2 ^ 62" "unat x < unat pn + 2 ^ 15" "unat pn < unat x + 2 ^ 15" for x
    by (rule parse_build[OF build _ dcid that]) (rule inverse)
  have len: "length bs + n \<le> 65535"
    using build by (auto simp: build_protected_packet_def split: if_splits)
  have p1: "parse_protected_packet (fn_dec C) (fn_stream C) (ses_remote_keys b) (ses_remote_hp_key b)
      (expected_pn b PacketSpace.SessionData) pkt = Inr (ShortPacketSpace.SessionData, dcid, path, pn, bs @ replicate n 0)"
    using near by (intro parse[unfolded keys[symmetric]]) simp_all
  obtain m ps where b1: "record_inbound (b\<lparr>ses_spaces := fmupd PacketSpace.SessionData sp' (ses_spaces b)\<rparr>)
      PacketSpace.SessionData path pn' now (length pkt)
    = b\<lparr>ses_spaces := fmupd PacketSpace.SessionData sp' (ses_spaces b), ses_recv_acks := m, ses_paths := ps\<rparr>"
    using record_inbound_state by fastforce
  obtain r m' where on: "on_inbound C b now pkt = Some (r, b\<lparr>ses_spaces := fmupd PacketSpace.SessionData sp' (ses_spaces b),
      ses_paths := ps, ses_last_activity := Some now, ses_datagrams := q, ses_recv_acks := m'\<rparr>)" (is "_ = Some (r, ?b)")
    using process_datagram[OF enc len, of "record_inbound (b\<lparr>ses_spaces := fmupd PacketSpace.SessionData sp' (ses_spaces b)\<rparr>)
      PacketSpace.SessionData path pn' now (length pkt)" q C now path] q
    unfolding on_inbound_admitted[OF p1 sp(1) ad] b1 by auto
  have e: "expected_pn ?b PacketSpace.SessionData = u64_saturating_add (max (pss_largest_received sp) pn) 1"
    using admitted_once(3)[OF sp(2) ad] by (simp add: expected_pn_def)
  have ex: "expected_pn b PacketSpace.SessionData = u64_saturating_add (pss_largest_received sp) 1"
    using sp(1) by (simp add: expected_pn_def)
  have "parse_protected_packet (fn_dec C) (fn_stream C) (ses_remote_keys ?b) (ses_remote_hp_key ?b)
      (expected_pn ?b PacketSpace.SessionData) pkt = Inr (ShortPacketSpace.SessionData, dcid, path, pn, bs @ replicate n 0)"
    unfolding e using parse[OF expected_near[OF near[unfolded ex]]] by (simp add: keys)
  then have "on_inbound C ?b now' pkt = Some (Inl (Space DuplicateOrStale), ?b)" for now'
    by (rule on_inbound_refused[OF _ _ admitted_once(2)[OF sp(2) ad]]) simp_all
  then show ?thesis using on by (intro exI[of _ r] exI[of _ ?b]) simp
qed

section \<open>Gates\<close>





section \<open>Properties\<close>

text \<open>
  C3: A datagram is delivered exactly once. With a cipher whose decryption undoes its encryption, the
  packet one session builds for the datagram at the head of its queue is opened by its peer, which
  appends exactly that datagram to its inbound queue when there is room; the same packet received
  again is refused as a duplicate and changes nothing.
\<close>

theorem datagram_delivered_once:
  assumes "\<And>k n aad p c. fn_enc C k n aad p = Some c \<Longrightarrow> fn_dec C k n aad c = Some p"
    and "pop_outbound (ses_datagrams a) t = (Some d, q')" and "pop_outbound_datagram_payload a t = (Some payload, a1)"
    and "build_outbound_inner C a1 path now payload = (Inr (Some pkt), a2)"
    and "ses_remote_keys b = ses_local_keys a" and "ses_remote_hp_key b = ses_local_hp_key a"
    and "length (ses_dcid a) = 8"
    and "fmlookup (ses_spaces a) PacketSpace.SessionData = Some spa"
    and "fmlookup (ses_spaces b) PacketSpace.SessionData = Some spb" and "space_inv spb k A"
    and "fst (admit_reconstructed spb (pss_next_packet_number spa)) = Inr pn"
    and "unat (expected_pn b PacketSpace.SessionData) + 2 ^ 16 < 2 ^ 62"
    and "unat (expected_pn b PacketSpace.SessionData) < unat (pss_next_packet_number spa) + 2 ^ 15"
    and "unat (pss_next_packet_number spa) < unat (expected_pn b PacketSpace.SessionData) + 2 ^ 15"
    and "enqueue_inbound (ses_datagrams b) (d\<lparr>dgm_expires_at_ms := None\<rparr>) = (Inr (), q)"
  shows "\<exists>r b'. on_inbound C b now' pkt = Some (r, b') \<and> ses_datagrams b' = q
    \<and> dq_inbound q = dq_inbound (ses_datagrams b) @ [d\<lparr>dgm_expires_at_ms := None\<rparr>]
    \<and> on_inbound C b' now'' pkt = Some (Inl (Space DuplicateOrStale), b')"
proof -
  define f where "f = \<lparr>dg_context_id = dgm_context_id d, dg_ack_requested = dgm_ack_requested d,
    dg_duplicate_suppression = False,
    dg_expiration_delta = map_option (\<lambda>expires_at. u64_saturating_sub expires_at t) (dgm_expires_at_ms d),
    dg_data = dgm_data d\<rparr>"
  have f: "as_received f = d\<lparr>dgm_expires_at_ms := None\<rparr>" by (simp add: f_def as_received_def)
  have a1: "a1 = a\<lparr>ses_datagrams := q'\<rparr>" and enc: "DatagramFrame_encode f = Inr payload"
    using assms(2,3) by (auto simp: pop_outbound_datagram_payload_def f_def ok_opt_def split: sum.splits)
  obtain sp pn0 sp0 where sp0: "fmlookup (ses_spaces a1) PacketSpace.SessionData = Some sp"
      "allocate_packet_number sp = (Inr pn0, sp0)"
    and b0: "build_protected_packet (fn_enc C) (fn_stream C) (ses_local_keys a1) (ses_local_hp_key a1)
       ShortPacketSpace.SessionData (ses_dcid a1) path pn0 False (outbound_payload a1 payload) = Inr pkt"
    by (rule build_outbound_Inr[OF assms(4)])
  have pn0: "pn0 = pss_next_packet_number spa"
    using allocate_Inr[OF sp0(2)] sp0(1) assms(8) by (simp add: a1)
  obtain n where n: "outbound_payload a1 payload = payload @ replicate n 0"
    using outbound_payload_padded by blast
  obtain spb' where ad: "admit_reconstructed spb pn0 = (Inr pn, spb')"
    using assms(11) pn0 by (metis prod.collapse)
  have "dq_inbound q = dq_inbound (ses_datagrams b) @ [d\<lparr>dgm_expires_at_ms := None\<rparr>]"
    using assms(15) by (auto simp: enqueue_inbound_def split: if_splits)
  then show ?thesis
    using datagram_once[OF b0[unfolded n] enc assms(1) _ _ _ assms(9,10) ad, of q now'] assms(5-7,12-15)
    by (simp add: pn0 a1 f) blast
qed

definition sample_keys :: PacketKeys where
  "sample_keys = \<lparr>pk_key = [], pk_iv = replicate 12 0, pk_hp_key = []\<rparr>"

definition sample_peer :: "Role \<Rightarrow> Session" where
  "sample_peer role = Session_init (sample_config role) 0 sample_keys sample_keys [] []"

theorem datagram_delivered_once_witness:
  "\<exists>pkt r b'. on_inbound sample_fns (sample_peer Server) 5 pkt = Some (r, b')
     \<and> dq_inbound (ses_datagrams b') =
         [\<lparr>dgm_context_id = 1, dgm_data = [7], dgm_expires_at_ms = None, dgm_ack_requested = False\<rparr>]
     \<and> on_inbound sample_fns b' 6 pkt = Some (Inl (Space DuplicateOrStale), b')"
proof -
  let ?d = "\<lparr>dgm_context_id = 1, dgm_data = [7], dgm_expires_at_ms = None, dgm_ack_requested = False\<rparr>"
  let ?a1 = "sample_peer Client" and ?b = "sample_peer Server"
  let ?q = "\<lparr>dq_outbound = [?d], dq_inbound = [], dq_outbound_bytes = 1, dq_inbound_bytes = 0\<rparr>"
  let ?a = "?a1\<lparr>ses_datagrams := ?q\<rparr>" and ?sp = "PacketSpaceState_new PacketSpace.SessionData"
  have inv: "fn_enc sample_fns k n aad p = Some c \<Longrightarrow> fn_dec sample_fns k n aad c = Some p" for k n aad p c
    by (auto simp: sample_fns_def plain_enc_def plain_dec_def)
  have pop: "pop_outbound (ses_datagrams ?a) 0 = (Some ?d, DatagramQueue_new)"
    by (simp add: pop_outbound_def datagram_expired_def DatagramQueue_new_def)
  have "ok_opt (DatagramFrame_encode \<lparr>dg_context_id = 1, dg_ack_requested = False,
      dg_duplicate_suppression = False, dg_expiration_delta = None, dg_data = [7]\<rparr>) = Some [0x28, 1, 0, 1, 7]"
    by code_simp
  then have pl: "pop_outbound_datagram_payload ?a 0 = (Some [0x28, 1, 0, 1, 7], ?a1)"
    unfolding pop_outbound_datagram_payload_def pop by (simp add: sample_peer_def Session_init_def)
  obtain pkt a2 where bo: "build_outbound_inner sample_fns ?a1 0 0 [0x28, 1, 0, 1, 7] = (Inr (Some pkt), a2)"
    by (rule sample_first[of "[0x28, 1, 0, 1, 7]" "sample_config Client" 0 sample_keys sample_keys "[]" "[]"])
      (auto simp: sample_peer_def)
  have sel: "ses_remote_keys ?b = ses_local_keys ?a" "ses_remote_hp_key ?b = ses_local_hp_key ?a" "length (ses_dcid ?a) = 8"
    "fmlookup (ses_spaces ?a) PacketSpace.SessionData = Some ?sp" "fmlookup (ses_spaces ?b) PacketSpace.SessionData = Some ?sp"
    by (simp_all add: sample_peer_def Session_init_def sample_config_def)
  have ad: "fst (admit_reconstructed ?sp (pss_next_packet_number ?sp)) = Inr 0"
    by (simp add: admit_reconstructed_def check_and_mark_def PacketSpaceState_new_def ReplayWindow_new_def
        ReplayWindow_get_def DEFAULT_REPLAY_WINDOW_def u64_saturating_add_def u64_div_ceil_def)
  have e: "expected_pn ?b PacketSpace.SessionData = 1"
    using sel(5) by (simp add: expected_pn_def PacketSpaceState_new_def u64_saturating_add_def)
  have "enqueue_inbound (ses_datagrams ?b) (?d\<lparr>dgm_expires_at_ms := None\<rparr>) =
      (Inr (), \<lparr>dq_outbound = [], dq_inbound = [?d], dq_outbound_bytes = 0, dq_inbound_bytes = 1\<rparr>)"
    by (simp add: enqueue_inbound_def sample_peer_def Session_init_def DatagramQueue_new_def)
  from datagram_delivered_once[OF inv pop pl bo sel space_inv_new ad _ _ _ this, of 5 6]
  obtain r b' where "on_inbound sample_fns ?b 5 pkt = Some (r, b')" "dq_inbound (ses_datagrams b') = [?d]"
    "on_inbound sample_fns b' 6 pkt = Some (Inl (Space DuplicateOrStale), b')"
    by (auto simp: e PacketSpaceState_new_def)
  then show ?thesis by blast
qed



end
