(* ===== verification/Spec2Isabelle.thy ===== *)
theory Spec2Isabelle
  imports Session_Delivery
begin

text \<open>
  \<^bold>\<open>Verification of the UMC transport.\<close> The development covers the wire format
  (\<open>crates/umc-wire\<close>), the key schedule and packet protection (\<open>crates/umc-crypto\<close>), the session layer
  (\<open>crates/umc-session\<close>) and the loss recovery of the daemon's session loop
  (\<open>bins/umcd/src/session_task.rs\<close>).

  \<^bold>\<open>The program.\<close> An endpoint exchanges packets with a peer. A packet has a header with a truncated
  packet number, masked by header protection, and a sealed payload that is a list of frames. A session
  owns the packet keys, three packet-number spaces with replay windows, the queue of sent packets, the
  congestion controller, the streams and datagram queues, the receive credit, the paths and the
  connection ids. \<open>Session::build_outbound\<close> turns a payload into a packet when the state, the
  amplification budget of the path and the congestion window allow it. \<open>Session::on_inbound\<close> opens a
  packet, admits its number once, applies its frames and returns an acknowledgement. The daemon calls
  both, and resends what loss detection reports.

  \<^bold>\<open>How code is modelled.\<close> A struct is a record, an enum a datatype, \<open>u8\<close>, \<open>u32\<close> and \<open>u64\<close> are words with
  the arithmetic of a release build (\<open>+\<close> wraps, the saturating and checked operations are written out),
  \<open>usize\<close> is a natural number, \<open>i64\<close> an integer with explicit saturation. \<open>Result\<close> is a sum with
  \<open>Inl\<close> for \<open>Err\<close>, and \<open>?\<close> is \<open>bindR\<close>. A method that mutates its receiver returns the new state
  with its result, also on an error, so the changes made before an early return are kept; \<open>bindS\<close> is
  \<open>?\<close> with a state. A panic is \<open>None\<close>. A \<open>HashMap\<close> is a finite map, a \<open>BTreeMap\<close> an ascending
  association list. The hash, the authenticated cipher, the key stream, the entropy source and the
  iteration order of a hash set are arguments; what is relied on is a hypothesis of the theorem that
  needs it (decryption undoes encryption, a ciphertext is 16 bytes longer, a hash has 32 bytes), and
  each such theorem is instantiated on concrete functions.

  \<^bold>\<open>Theories and sources.\<close>

  \<^item> \<open>Umc_Prelude\<close>: words, \<open>bindR\<close>, buffers and big-endian bytes; \<open>Ordered_Map\<close>: \<open>BTreeMap\<close>.
  \<^item> \<open>Varint\<close>, \<open>Byte_String\<close>, \<open>Packet_Number\<close>, \<open>Header\<close>: \<open>umc-wire/src/varint.rs\<close>, \<open>bytes.rs\<close>, \<open>pn.rs\<close>,
    \<open>header.rs\<close>.
  \<^item> \<open>Frame_Codec\<close> and \<open>Frames_Stream\<close>, \<open>_Path\<close>, \<open>_Handshake\<close>, \<open>_Routing\<close>, \<open>_Relay\<close>, \<open>_Bundle\<close>,
    \<open>_Misc\<close>, \<open>_Control\<close>: the frame types of \<open>umc-types/src/frame.rs\<close> and one codec per frame of
    \<open>umc-wire/src/frames\<close> and \<open>frame.rs\<close>. A codec is an interpretation of the locales of \<open>Frame_Codec\<close>.
  \<^item> \<open>Frame_Decode\<close>, \<open>Packet\<close>: \<open>decode_frames\<close> of \<open>frame.rs\<close> and \<open>parse_payload\<close> of \<open>packet.rs\<close>.
  \<^item> \<open>Crypto\<close>, \<open>Protected_Packet\<close>: \<open>umc-crypto/src\<close> (HKDF, labels, packet keys, nonces, header
    protection), \<open>umc-session/src/packet.rs\<close> and \<open>ticket.rs\<close>.
  \<^item> \<open>Packet_Spaces\<close>, \<open>Session_Ack\<close>, \<open>Session_Loss\<close>, \<open>Session_Congestion\<close>: \<open>spaces.rs\<close>; \<open>ack.rs\<close> and
    \<open>sent_packet.rs\<close>; \<open>rtt.rs\<close> and \<open>loss.rs\<close>; \<open>congestion.rs\<close>.
  \<^item> \<open>Session_Stream\<close>, \<open>Session_Flow\<close>, \<open>Session_Cid\<close>, \<open>Session_Path\<close>, \<open>Session_Keys\<close>: \<open>stream.rs\<close>;
    \<open>flow.rs\<close> and \<open>datagram.rs\<close>; \<open>cid.rs\<close>; \<open>path.rs\<close>; \<open>key_update.rs\<close> and \<open>reset.rs\<close>.
  \<^item> \<open>Session_State\<close>, \<open>Session_Control\<close>, \<open>Session_Packets\<close>: \<open>session.rs\<close>. The record \<open>Session\<close> has the
    fields of the struct with the prefix \<open>ses_\<close>; each method is a definition of its name.
  \<^item> \<open>Session_Recovery\<close>: what \<open>session_task.rs\<close> does with an acknowledgement and when its probe timer
    fires.
  \<^item> \<open>Session_Inv\<close>, \<open>Session_Steps\<close>, \<open>Session_Run\<close>, \<open>Session_Delivery\<close>: no code of their own; the
    invariant of a session, that every operation keeps it, runs of a session, and two sessions together.

  \<^bold>\<open>What is shown.\<close>

  \<^item> \<^emph>\<open>Wire format.\<close> Varints and header bytes are canonical bijections; every frame codec round-trips,
    and the decoder recovers the frames of any concatenation, skips unknown optional frames and rejects
    unknown critical ones; payloads carry only the frames their context allows. Reconstruction finds
    the packet number nearest to the expected one.
  \<^item> \<^emph>\<open>Packet protection.\<close> Built packets parse back, and whatever parses is the protected form of one
    plain header, which was authenticated with the ciphertext.
  \<^item> \<^emph>\<open>Components.\<close> Packet numbers are sent and admitted once; an acknowledgement
    means the same to both sides, and any other one is refused or applied exactly as its numbers say; loss
    detection follows its two thresholds; the estimates, the backoff, the window and the pacing stay within
    their bounds; streams deliver a prefix, all of it when every segment arrived; the queues are bounded and
    first-in-first-out; paths are validated only by a response or by \<open>force_validate\<close>; key updates
    that do not cross keep the peers in step.
  \<^item> \<^emph>\<open>Sessions.\<close> \<open>session_step\<close> has a rule for every operation that
    changes a session, but for the three that hand out a part of it to be overwritten
    (\<open>set_congestion_controller\<close>, \<open>congestion_mut\<close>, \<open>sent_state_mut\<close>);
    its output are the sealed packets and the stateless resets. One lemma per operation shows that it advances
    the session (\<open>advance\<close>), and rule induction lifts this to runs: no nonce is used twice, the
    bytes in flight are those of the sent queue, the state never returns to active and only an active session
    seals packets, the window and the amplification budget hold. Two sessions with the same keys deliver a
    datagram exactly once.
  \<^item> \<^emph>\<open>Faults.\<close> Some theorems show behaviour the code does not mean to have, or that
    its comments deny: a payload whose retransmission was refused is never sent again, key updates that cross
    leave the peers with different secrets, an overlapping segment stalls a stream, the replay window rejects
    unseen numbers, a long header announces the wrong packet-number width, an unknown critical frame that could
    be skipped by its length aborts the packet.

  \<^bold>\<open>Bounds and termination.\<close> There is no fuel: every function is total, the payload loop by a measure on
  the bytes left and the other loops by recursion on their list. Packets are at most 65535 bytes and
  the sent queue at most 16384 packets, so the bytes in flight stay far below the range of \<open>u64\<close>.
  Packet numbers end at \<open>2 ^ 62\<close>, where allocation reports exhaustion. The packets a session builds
  carry 16 bits of the packet number, hence the distance of less than \<open>2 ^ 15\<close> between the expected and
  the received number.

  \<^bold>\<open>Not modelled.\<close>

  \<^item> The handshake (\<open>umc-handshake\<close>) and the signatures, which are mostly calls into external
    cryptography; sessions start from the traffic secrets a handshake ends with.
  \<^item> Routing, relays, bundles, discovery, the node core and the control protocol
    (\<open>umc-routing\<close>, \<open>umc-relay\<close>, \<open>umc-bundle\<close>, \<open>umc-discovery\<close>, \<open>umc-core\<close>, \<open>umc-control\<close>), beyond the
    frames they exchange. They are services above a session with state of their own, and the theorems
    here do not depend on them.
  \<^item> Carriers, storage, metrics, plugins, the SDK, the command line and the rest of the daemon: sockets,
    files, processes and asynchronous tasks. The daemon's locks serialise the calls on a session, which
    is why runs are sequences of whole operations.
  \<^item> Congestion controllers other than the default one, which only tests install.
  \<^item> Constant-time comparison and the zeroing of secrets, which have no counterpart in a model of values.
\<close>

end
